(* ===== verification/Prelude.thy ===== *)
theory Prelude
  imports Complex_Main "HOL-Library.Multiset" "HOL-Library.Product_Lexorder"
begin

text \<open>
  Generic material shared by every component: the reading of JavaScript arrays that may hold
  \<open>null\<close> (\<open>slot\<close>, \<open>set_slot\<close>, \<open>occupants\<close>), \<open>Array.prototype.findIndex\<close>, the truncating
  remainder \<open>%\<close>, sums over seats, and three interface locales: a machine whose steps keep an
  invariant (\<open>invariant_machine\<close>), one that also keeps a quantity (\<open>conserved_machine\<close>), and one whose
  steps stay within a relation (\<open>evolving_machine\<close>).
\<close>

section \<open>Hint collections\<close>

named_theorems chip_simps \<open>how an operation changes the sum of the stacks, the pot and the contributions\<close>

named_theorems frame_simps \<open>the fields an operation does not write\<close>

section \<open>JavaScript arrays and numbers\<close>

text \<open>The remainder operator of JavaScript takes the sign of the dividend.\<close>

definition js_rem :: "int \<Rightarrow> int \<Rightarrow> int" where
  "js_rem a b = sgn a * (\<bar>a\<bar> mod \<bar>b\<bar>)"

lemma js_rem_nonneg [simp]: "0 \<le> a \<Longrightarrow> 0 < b \<Longrightarrow> js_rem a b = a mod b"
  by (cases "a = 0") (auto simp: js_rem_def sgn_if)

text \<open>Reading \<open>xs[i]\<close>: out of range is \<open>undefined\<close>, an empty seat is \<open>null\<close>; both are falsy.\<close>

definition slot :: "'a option list \<Rightarrow> int \<Rightarrow> 'a option" where
  "slot xs i = (if 0 \<le> i \<and> i < int (length xs) then xs ! nat i else None)"

definition set_slot :: "'a option list \<Rightarrow> int \<Rightarrow> 'a \<Rightarrow> 'a option list" where
  "set_slot xs i x = (if 0 \<le> i then xs[nat i := Some x] else xs)"

lemma slot_SomeD: "slot xs i = Some x \<Longrightarrow> 0 \<le> i \<and> i < int (length xs) \<and> xs ! nat i = Some x"
  by (auto simp: slot_def split: if_splits)

lemma length_set_slot [simp]: "length (set_slot xs i x) = length xs"
  by (simp add: set_slot_def)

lemma slot_set_slot:
  "slot xs i = Some y \<Longrightarrow> slot (set_slot xs i x) j = (if j = i then Some x else slot xs j)"
  by (auto simp: slot_def set_slot_def nth_list_update nat_eq_iff2 split: if_splits)

lemma slot_map: "slot (map (map_option f) xs) i = map_option f (slot xs i)"
  by (auto simp: slot_def)

text \<open>\<open>xs.filter(p => p !== null)\<close>.\<close>

primrec occupants :: "'a option list \<Rightarrow> 'a list" where
  "occupants [] = []"
| "occupants (s # ss) = (case s of None \<Rightarrow> occupants ss | Some p \<Rightarrow> p # occupants ss)"

lemma set_occupants: "set (occupants xs) = {p. Some p \<in> set xs}"
  by (induction xs) (auto split: option.splits)

lemma occupants_append [simp]: "occupants (xs @ ys) = occupants xs @ occupants ys"
  by (induction xs) (auto split: option.splits)

lemma occupants_map [simp]: "occupants (map (map_option f) xs) = map f (occupants xs)"
  by (induction xs) (auto split: option.splits)

lemma slot_occupants: "slot xs i = Some p \<Longrightarrow> p \<in> set (occupants xs)"
  by (auto simp: set_occupants dest!: slot_SomeD) (metis nat_less_iff nth_mem)

lemma occupants_slot: "p \<in> set (occupants xs) \<Longrightarrow> \<exists>i. slot xs i = Some p"
proof -
  assume "p \<in> set (occupants xs)"
  then obtain n where "n < length xs" "xs ! n = Some p"
    by (auto simp: set_occupants in_set_conv_nth)
  then have "slot xs (int n) = Some p" by (simp add: slot_def)
  then show ?thesis by blast
qed

text \<open>\<open>xs.findIndex(P)\<close>: the first index, or -1.\<close>

primrec find_index :: "('a \<Rightarrow> bool) \<Rightarrow> 'a list \<Rightarrow> int" where
  "find_index P [] = -1"
| "find_index P (x # xs) =
     (if P x then 0 else let r = find_index P xs in if r = -1 then -1 else r + 1)"

lemma find_index_ge: "-1 \<le> find_index P xs"
  by (induction xs) (auto simp: Let_def)

lemma find_index_lt: "find_index P xs < int (length xs)"
  by (induction xs) (auto simp: Let_def)

lemma find_index_none: "find_index P xs = -1 \<longleftrightarrow> (\<forall>x\<in>set xs. \<not> P x)"
proof (induction xs)
  case (Cons x xs)
  then show ?case using find_index_ge[of P xs] by (auto simp: Let_def)
qed simp

lemma find_index_nth: "find_index P xs \<noteq> -1 \<Longrightarrow> P (xs ! nat (find_index P xs))"
proof (induction xs)
  case (Cons x xs)
  then show ?case
    using find_index_ge[of P xs] by (auto simp: Let_def nat_add_distrib split: if_splits)
qed simp

lemma find_index_nonneg: "find_index P xs \<noteq> -1 \<Longrightarrow> 0 \<le> find_index P xs"
  using find_index_ge[of P xs] by linarith

section \<open>Sums over seats\<close>

definition sum_slots :: "('a \<Rightarrow> int) \<Rightarrow> 'a option list \<Rightarrow> int" where
  "sum_slots f xs = sum_list (map f (occupants xs))"

lemma sum_slots_Nil [simp]: "sum_slots f [] = 0"
  by (simp add: sum_slots_def)

lemma sum_slots_Cons [simp]:
  "sum_slots f (s # ss) = (case s of None \<Rightarrow> 0 | Some p \<Rightarrow> f p) + sum_slots f ss"
  by (simp add: sum_slots_def split: option.splits)

lemma sum_slots_append [simp]: "sum_slots f (xs @ ys) = sum_slots f xs + sum_slots f ys"
  by (simp add: sum_slots_def)

lemma sum_slots_update:
  "n < length xs \<Longrightarrow> xs ! n = Some p \<Longrightarrow>
   sum_slots f (xs[n := Some q]) = sum_slots f xs - f p + f q"
proof (induction xs arbitrary: n)
  case (Cons s ss)
  then show ?case by (cases n) (auto split: option.splits)
qed simp

lemma sum_slots_set_slot:
  "slot xs i = Some p \<Longrightarrow> sum_slots f (set_slot xs i q) = sum_slots f xs - f p + f q"
  by (auto simp: set_slot_def sum_slots_update dest!: slot_SomeD)

lemma sum_slots_map:
  "(\<And>p. p \<in> set (occupants xs) \<Longrightarrow> f (g p) = f p) \<Longrightarrow>
   sum_slots f (map (map_option g) xs) = sum_slots f xs"
  by (induction xs) (auto split: option.splits)

lemma sum_slots_nonneg:
  "(\<And>p. p \<in> set (occupants xs) \<Longrightarrow> 0 \<le> f p) \<Longrightarrow> 0 \<le> sum_slots f xs"
  unfolding sum_slots_def by (rule sum_list_nonneg) auto

lemma sum_list_all_zero:
  fixes f :: "'a \<Rightarrow> int"
  shows "\<forall>x \<in> set xs. f x = 0 \<Longrightarrow> sum_list (map f xs) = 0"
  by (induction xs) auto

lemma sum_list_update_int:
  fixes xs :: "int list"
  shows "k < length xs \<Longrightarrow> sum_list (xs[k := x]) = sum_list xs + x - xs ! k"
  by (induction xs arbitrary: k) (auto split: nat.split)

lemma sum_list_filter_zero:
  "(\<And>x. x \<in> set xs \<Longrightarrow> \<not> P x \<Longrightarrow> f x = (0::int)) \<Longrightarrow>
   sum_list (map f (filter P xs)) = sum_list (map f xs)"
  by (induction xs) auto

lemma sum_list_member_le:
  "(\<And>x. x \<in> set xs \<Longrightarrow> 0 \<le> (f x :: int)) \<Longrightarrow> y \<in> set xs \<Longrightarrow> f y \<le> sum_list (map f xs)"
proof (induction xs)
  case (Cons x xs)
  have "0 \<le> sum_list (map f xs)" using Cons.prems(1) by (intro sum_list_nonneg) auto
  moreover have "0 \<le> f x" using Cons.prems(1) by simp
  ultimately show ?case using Cons by fastforce
qed simp

section \<open>Interfaces\<close>

text \<open>
  A machine whose operations keep an invariant. The client proves facts about whole runs
  (\<open>foldl step s es\<close>) once; a component provides \<open>step\<close> and discharges one law per operation.
\<close>

locale invariant_machine =
  fixes step :: "'s \<Rightarrow> 'e \<Rightarrow> 's"
    and inv :: "'s \<Rightarrow> bool"
  assumes inv_step: "inv s \<Longrightarrow> inv (step s e)"
begin

lemma run_inv: "inv s \<Longrightarrow> inv (foldl step s es)"
  by (induction es arbitrary: s) (auto intro: inv_step)

end

text \<open>A machine that moreover conserves a quantity: chips, or money.\<close>

locale conserved_machine = invariant_machine step inv
  for step :: "'s \<Rightarrow> 'e \<Rightarrow> 's" and inv :: "'s \<Rightarrow> bool" +
  fixes val :: "'s \<Rightarrow> int"
  assumes val_step: "inv s \<Longrightarrow> val (step s e) = val s"
begin

lemma run_val: "inv s \<Longrightarrow> val (foldl step s es) = val s"
  by (induction es arbitrary: s) (auto simp: inv_step val_step)

end

text \<open>A machine whose steps stay within a relation that composes: what a run may change, and what it may not.\<close>

locale evolving_machine = invariant_machine step inv
  for step :: "'s \<Rightarrow> 'e \<Rightarrow> 's" and inv :: "'s \<Rightarrow> bool" +
  fixes rel :: "'s \<Rightarrow> 's \<Rightarrow> bool"
  assumes rel_refl: "inv s \<Longrightarrow> rel s s"
    and rel_trans: "rel s1 s2 \<Longrightarrow> rel s2 s3 \<Longrightarrow> rel s1 s3"
    and rel_step: "inv s \<Longrightarrow> rel s (step s e)"
begin

lemma run_rel: "inv s \<Longrightarrow> rel s (foldl step s es)"
proof (induction es arbitrary: s)
  case (Cons e es)
  have "rel (step s e) (foldl step (step s e) es)" using Cons by (simp add: inv_step)
  then show ?case using rel_trans[OF rel_step] Cons.prems by simp
qed (simp add: rel_refl)

end

end
