(* ===== verification/GameTypes.thy ===== *)
theory GameTypes
  imports Prelude
begin

text \<open>
  The data of a table, from \<open>backend/src/game-engine/types.ts\<close>: phases, actions, a seated
  player, a side pot, and the whole table snapshot. Chip amounts and times are JavaScript
  numbers that hold integers, modelled as \<open>int\<close>; a missing field (\<open>undefined\<close>) is \<open>None\<close>.
\<close>

datatype game_phase = WAITING | PRE_FLOP | FLOP | TURN | RIVER | SHOWDOWN | HAND_END

text \<open>The enum numbers its members from 0; the order on phases is the order of these numbers.\<close>

primrec phase_number :: "game_phase \<Rightarrow> nat" where
  "phase_number WAITING = 0"
| "phase_number PRE_FLOP = 1"
| "phase_number FLOP = 2"
| "phase_number TURN = 3"
| "phase_number RIVER = 4"
| "phase_number SHOWDOWN = 5"
| "phase_number HAND_END = 6"

lemma phase_number_inj: "phase_number a = phase_number b \<Longrightarrow> a = b"
  by (cases a; cases b) simp_all

instantiation game_phase :: linorder
begin

definition less_eq_game_phase :: "game_phase \<Rightarrow> game_phase \<Rightarrow> bool" where
  "a \<le> b \<longleftrightarrow> phase_number a \<le> phase_number b"

definition less_game_phase :: "game_phase \<Rightarrow> game_phase \<Rightarrow> bool" where
  "a < b \<longleftrightarrow> phase_number a < phase_number b"

instance
  by standard (auto simp: less_eq_game_phase_def less_game_phase_def dest: phase_number_inj)

end

datatype action_type = CHECK | CALL | FOLD | RAISE | TIME_OUT | DEALER_KICK | DEALER_FOLD

record table_player =
  player_id :: string
  tableId :: string
  nickname :: string
  seatIndex :: int
  stack :: int
  bet :: int
  hasFolded :: bool
  hasChecked :: bool
  isAllIn :: bool
  totalContributed :: int

record side_pot =
  potAmount :: int
  relevantPlayerIds :: "string list"

datatype pause_reason = TransientError | LineDown

record resume_pending =
  downMs :: int
  pauseReason :: "pause_reason option"

datatype db_sync_status = RETRYING | FAILED

record rebuy_pending =
  seatIndexes :: "int list"
  rebuyDeadline :: int

record table_state =
  phase :: game_phase
  players :: "table_player option list"
  buttonUser :: int
  currentTurnSeatIndex :: int
  pot :: int
  sidePots :: "side_pot list"
  currentBet :: int
  smallBlind :: int
  ante :: int
  actionDeadline :: "int option"
  resumePending :: "resume_pending option"
  timerEpoch :: "int option"
  lastRaiseSize :: "int option"
  dbSyncStatus :: "db_sync_status option"
  rebuyPending :: "rebuy_pending option"
  tournamentId :: string

definition SEAT_COUNT :: nat where
  "SEAT_COUNT = 9"

definition createEmptyTableState :: "string \<Rightarrow> table_state" where
  "createEmptyTableState t =
     \<lparr>phase = WAITING, players = replicate SEAT_COUNT None, buttonUser = 0,
      currentTurnSeatIndex = -1, pot = 0, sidePots = [], currentBet = 0, smallBlind = 100,
      ante = 0, actionDeadline = None, resumePending = None, timerEpoch = None,
      lastRaiseSize = None, dbSyncStatus = None, rebuyPending = None, tournamentId = t\<rparr>"

section \<open>Reading and writing a seat\<close>

definition seat :: "table_state \<Rightarrow> int \<Rightarrow> table_player option" where
  "seat st i = slot (players st) i"

definition put_seat :: "int \<Rightarrow> table_player \<Rightarrow> table_state \<Rightarrow> table_state" where
  "put_seat i p st = st\<lparr>players := set_slot (players st) i p\<rparr>"

text \<open>\<open>players.findIndex(p => p?.id === userId)\<close>.\<close>

definition seat_index_of :: "string \<Rightarrow> table_state \<Rightarrow> int" where
  "seat_index_of u st =
     find_index (\<lambda>s. case s of None \<Rightarrow> False | Some p \<Rightarrow> player_id p = u) (players st)"

text \<open>The chips of a table: what the players hold and what lies in the pot.\<close>

definition stacks :: "table_state \<Rightarrow> int" where
  "stacks st = sum_slots stack (players st)"

definition contributions :: "table_state \<Rightarrow> int" where
  "contributions st = sum_slots totalContributed (players st)"

definition total_chips :: "table_state \<Rightarrow> int" where
  "total_chips st = stacks st + pot st"

lemma put_seat_fields [simp, frame_simps]:
  "phase (put_seat i p st) = phase st"
  "buttonUser (put_seat i p st) = buttonUser st"
  "currentTurnSeatIndex (put_seat i p st) = currentTurnSeatIndex st"
  "pot (put_seat i p st) = pot st"
  "sidePots (put_seat i p st) = sidePots st"
  "currentBet (put_seat i p st) = currentBet st"
  "smallBlind (put_seat i p st) = smallBlind st"
  "lastRaiseSize (put_seat i p st) = lastRaiseSize st"
  "length (players (put_seat i p st)) = length (players st)"
  by (simp_all add: put_seat_def)

lemma seat_put_seat:
  "seat st i = Some q \<Longrightarrow> seat (put_seat i p st) j = (if j = i then Some p else seat st j)"
  by (simp add: seat_def put_seat_def slot_set_slot)

lemma put_seat_sums [chip_simps]:
  assumes "seat st i = Some q"
  shows "stacks (put_seat i p st) = stacks st - stack q + stack p"
    and "contributions (put_seat i p st) = contributions st - totalContributed q + totalContributed p"
  using assms by (simp_all add: seat_def put_seat_def stacks_def contributions_def sum_slots_set_slot)

lemma seat_occupant: "seat st i = Some p \<Longrightarrow> p \<in> set (occupants (players st))"
  unfolding seat_def by (rule slot_occupants)

lemma occupant_seat: "p \<in> set (occupants (players st)) \<Longrightarrow> \<exists>i. seat st i = Some p"
  unfolding seat_def by (rule occupants_slot)

lemma seat_bounds: "seat st i = Some p \<Longrightarrow> 0 \<le> i \<and> i < int (length (players st))"
  unfolding seat_def by (auto dest: slot_SomeD)

lemma seat_index_of_seat:
  assumes "seat_index_of u st \<noteq> -1"
  obtains p where "seat st (seat_index_of u st) = Some p" "player_id p = u"
proof -
  let ?P = "\<lambda>s. case s of None \<Rightarrow> False | Some p \<Rightarrow> player_id p = u"
  have "?P (players st ! nat (seat_index_of u st))"
    using assms unfolding seat_index_of_def by (rule find_index_nth)
  moreover have "0 \<le> seat_index_of u st" "seat_index_of u st < int (length (players st))"
    using assms find_index_nonneg find_index_lt unfolding seat_index_of_def by blast+
  ultimately show ?thesis
    by (intro that[of "the (players st ! nat (seat_index_of u st))"])
       (auto simp: seat_def slot_def split: option.splits)
qed

section \<open>Who sits where\<close>

definition ids :: "table_state \<Rightarrow> string option list" where
  "ids st = map (map_option player_id) (players st)"

lemma find_index_map: "find_index P (map f xs) = find_index (P \<circ> f) xs"
  by (induction xs) simp_all

lemma find_index_cong: "(\<And>x. P x = Q x) \<Longrightarrow> find_index P xs = find_index Q xs"
  by presburger

lemma seat_index_of_ids: "seat_index_of u st = find_index (\<lambda>s. s = Some u) (ids st)"
  unfolding seat_index_of_def ids_def find_index_map
  by (rule find_index_cong) (auto split: option.splits)

lemma map_put_seat:
  assumes "seat st i = Some q" "f p = f q"
  shows "map (map_option f) (players (put_seat i p st)) = map (map_option f) (players st)"
proof -
  have i: "nat i < length (players st)" "players st ! nat i = Some q" "0 \<le> i"
    using assms(1) by (auto simp: seat_def dest!: slot_SomeD)
  have "(map (map_option f) (players st))[nat i := map_option f (Some p)] = map (map_option f) (players st)"
    using i assms(2) by (metis list_update_id nth_map option.map(2))
  then show ?thesis using i by (simp add: put_seat_def set_slot_def map_update)
qed

lemma ids_put_seat:
  "seat st i = Some q \<Longrightarrow> player_id p = player_id q \<Longrightarrow> ids (put_seat i p st) = ids st"
  unfolding ids_def by (rule map_put_seat)

lemma seat_ids: "seat st i = None \<longleftrightarrow> slot (ids st) i = None"
  by (auto simp: seat_def slot_def ids_def)

end
