(* ===== verification/TableEngine.thy ===== *)
theory TableEngine
  imports GameTypes
begin

text \<open>
  The hand state machine of \<open>backend/src/game-engine/table-engine.ts\<close> (class \<open>TableEngine\<close>),
  one definition per method, in an order in which callees come first. The mutable \<open>this.state\<close>
  is an explicit \<open>table_state\<close>; a method that may throw returns the thrown error or its value
  together with the state it leaves behind, since the code mutates before some of its throws.
\<close>

section \<open>Errors\<close>

datatype name_ref = SeatName int string | RawId string

datatype engine_error =
    InvalidPlayer
  | NotBettingPhase
  | CallRequired
  | RaiseAmountInvalid
  | BettingClosed
  | RaiseNotAboveBet
  | RaiseNotPositive
  | BelowMinRaise int
  | NotShowdown
  | UnclaimedPots "(int \<times> name_ref list) list"
  | NotEnoughPlayers
  | NoButton
  | NoBlinds

text \<open>A raise amount as it arrives: an integer, or a number that is none (NaN, a fraction, infinite).\<close>

datatype js_number = IntNum int | NonInteger

section \<open>Seats and turns\<close>

definition active_seat :: "table_player \<Rightarrow> bool" where
  "active_seat p \<longleftrightarrow> \<not> hasFolded p \<and> \<not> isAllIn p \<and> 0 < stack p"

fun find_from :: "table_state \<Rightarrow> nat \<Rightarrow> int \<Rightarrow> int" where
  "find_from st 0 cur = -1"
| "find_from st (Suc k) cur =
     (case seat st cur of
        Some p \<Rightarrow> if active_seat p then cur
                  else find_from st k (js_rem (cur + 1) (int (length (players st))))
      | None \<Rightarrow> find_from st k (js_rem (cur + 1) (int (length (players st)))))"

definition findNextActiveSeat :: "table_state \<Rightarrow> int \<Rightarrow> int" where
  "findNextActiveSeat st startIndex = find_from st (length (players st)) startIndex"

definition next_seat :: "table_state \<Rightarrow> int \<Rightarrow> int" where
  "next_seat st i = js_rem (i + 1) (int (length (players st)))"

definition getNextTurnSeatIndex :: "table_state \<Rightarrow> int" where
  "getNextTurnSeatIndex st = findNextActiveSeat st (next_seat st (currentTurnSeatIndex st))"

definition active_players :: "table_state \<Rightarrow> table_player list" where
  "active_players st = filter (\<lambda>p. \<not> hasFolded p) (occupants (players st))"

definition shouldGoToShowdown :: "table_state \<Rightarrow> bool" where
  "shouldGoToShowdown st =
     (if length (active_players st) \<le> 1 then True
      else case filter (\<lambda>p. \<not> isAllIn p) (active_players st) of
             [] \<Rightarrow> True
           | [lastPlayer] \<Rightarrow> bet lastPlayer = currentBet st
           | _ \<Rightarrow> False)"

definition shouldGoToNextPhase :: "table_state \<Rightarrow> int \<Rightarrow> bool" where
  "shouldGoToNextPhase st nextTurn =
     (let activePlayers = active_players st;
          isAllMatched = list_all (\<lambda>p. bet p = currentBet st \<or> isAllIn p) activePlayers;
          hasEveryoneActed = list_all hasChecked (filter (\<lambda>p. \<not> isAllIn p) activePlayers)
      in isAllMatched \<and> hasEveryoneActed \<or> nextTurn = -1 \<and> isAllMatched)"

section \<open>Bets\<close>

definition executeBet :: "int \<Rightarrow> int \<Rightarrow> table_state \<Rightarrow> table_state" where
  "executeBet i amt st =
     (case seat st i of
        None \<Rightarrow> st
      | Some p \<Rightarrow>
          let actual = min (stack p) amt;
              p1 = p\<lparr>stack := stack p - actual, bet := bet p + actual,
                     totalContributed := totalContributed p + actual\<rparr>;
              p2 = (if stack p1 \<le> 0 then p1\<lparr>isAllIn := True\<rparr> else p1)
          in put_seat i p2 (st\<lparr>pot := pot st + actual\<rparr>))"

definition mark_checked :: "int \<Rightarrow> table_state \<Rightarrow> table_state" where
  "mark_checked i st =
     (case seat st i of None \<Rightarrow> st | Some p \<Rightarrow> put_seat i (p\<lparr>hasChecked := True\<rparr>) st)"

definition mark_folded :: "int \<Rightarrow> table_state \<Rightarrow> table_state" where
  "mark_folded i st =
     (case seat st i of None \<Rightarrow> st | Some p \<Rightarrow> put_seat i (p\<lparr>hasFolded := True\<rparr>) st)"

definition handleCall :: "int \<Rightarrow> table_player \<Rightarrow> table_state \<Rightarrow> table_state" where
  "handleCall i p st =
     (let needed = currentBet st - bet p;
          amt = min needed (stack p)
      in mark_checked i (executeBet i amt st))"

definition minRaiseSize :: "table_state \<Rightarrow> int" where
  "minRaiseSize st = (case lastRaiseSize st of Some r \<Rightarrow> r | None \<Rightarrow> smallBlind st * 2)"

definition resetChecked :: "table_state \<Rightarrow> table_state" where
  "resetChecked st = st\<lparr>players := map (map_option (\<lambda>p.
     if \<not> hasFolded p \<and> \<not> isAllIn p then p\<lparr>hasChecked := False\<rparr> else p)) (players st)\<rparr>"

text \<open>The part of \<open>handleRaise\<close> behind its checks: the chips move, then the bet to call does.\<close>

definition raise_bet :: "int \<Rightarrow> int \<Rightarrow> int \<Rightarrow> table_state \<Rightarrow> table_state" where
  "raise_bet i previousBet minRaise st1 =
     (case seat st1 i of
        None \<Rightarrow> st1
      | Some q \<Rightarrow>
          if bet q > previousBet then
            let raiseSize = bet q - previousBet;
                st2 = (if raiseSize \<ge> minRaise
                       then resetChecked st1\<lparr>lastRaiseSize := Some raiseSize\<rparr>
                       else st1)
            in st2\<lparr>currentBet := bet q\<rparr>
          else st1)"

definition handleRaise ::
  "int \<Rightarrow> table_player \<Rightarrow> int \<Rightarrow> table_state \<Rightarrow> engine_error + table_state" where
  "handleRaise i p betAmount st =
     (let previousBet = currentBet st in
      if hasChecked p then Inl BettingClosed
      else if betAmount \<le> previousBet then Inl RaiseNotAboveBet
      else
        let needed = betAmount - bet p in
        if needed \<le> 0 then Inl RaiseNotPositive
        else
          let minRaise = minRaiseSize st;
              goesAllIn = (stack p \<le> needed) in
          if \<not> goesAllIn \<and> betAmount - previousBet < minRaise then Inl (BelowMinRaise minRaise)
          else
            let actualAdded = min needed (stack p) in
            Inr (mark_checked i (raise_bet i previousBet minRaise (executeBet i actualAdded st))))"

section \<open>Side pots\<close>

definition contributors :: "table_state \<Rightarrow> table_player list" where
  "contributors st = filter (\<lambda>p. totalContributed p > 0) (occupants (players st))"

definition pot_levels :: "table_player list \<Rightarrow> int list" where
  "pot_levels cs = sort (remdups (map totalContributed (filter (\<lambda>p. \<not> hasFolded p) cs)))"

fun side_pots :: "table_player list \<Rightarrow> int \<Rightarrow> int list \<Rightarrow> side_pot list" where
  "side_pots cs lastLevel [] = []"
| "side_pots cs lastLevel (level # rest) =
     (let isTopLevel = (rest = []);
          amt = sum_list (map (\<lambda>p.
            let capped = (if isTopLevel then totalContributed p else min (totalContributed p) level)
            in max 0 (capped - lastLevel)) cs)
      in \<lparr>potAmount = amt,
          relevantPlayerIds =
            map player_id (filter (\<lambda>p. \<not> hasFolded p \<and> totalContributed p \<ge> level) cs)\<rparr>
         # side_pots cs level rest)"

definition calculateSidePots :: "table_state \<Rightarrow> table_state" where
  "calculateSidePots st =
     (let cs = contributors st in st\<lparr>sidePots := side_pots cs 0 (pot_levels cs)\<rparr>)"

definition refundUncalledBets :: "table_state \<Rightarrow> table_state" where
  "refundUncalledBets st =
     (let sorted_contributions = rev (sort (map totalContributed (contributors st))) in
      case sorted_contributions of
        [] \<Rightarrow> st
      | highest # rest \<Rightarrow>
          let secondHighest = (case rest of [] \<Rightarrow> 0 | s # _ \<Rightarrow> s) in
          if highest > secondHighest then
            let i = find_index (\<lambda>s. case s of None \<Rightarrow> False
                      | Some p \<Rightarrow> totalContributed p > 0 \<and> totalContributed p = highest) (players st)
            in case seat st i of
                 None \<Rightarrow> st
               | Some p \<Rightarrow>
                   let refundAmount = highest - secondHighest in
                   put_seat i (p\<lparr>stack := stack p + refundAmount,
                                 totalContributed := totalContributed p - refundAmount\<rparr>)
                     (st\<lparr>pot := pot st - refundAmount\<rparr>)
          else st)"

section \<open>Phases\<close>

definition round_phases :: "game_phase list" where
  "round_phases = [PRE_FLOP, FLOP, TURN, RIVER, SHOWDOWN]"

definition clear_round :: "table_player \<Rightarrow> table_player" where
  "clear_round p = p\<lparr>bet := 0, hasChecked := False\<rparr>"

text \<open>The state writes of \<open>nextPhase\<close> once the next phase is known.\<close>

definition enter_phase :: "game_phase \<Rightarrow> table_state \<Rightarrow> table_state" where
  "enter_phase ph st1 =
     (let st2 = st1\<lparr>phase := ph,
                   players := map (map_option clear_round) (players st1),
                   currentBet := 0,
                   lastRaiseSize := Some (smallBlind st1 * 2)\<rparr>
      in st2\<lparr>currentTurnSeatIndex :=
               (if ph = SHOWDOWN then -1
                else findNextActiveSeat st2 (next_seat st2 (buttonUser st2)))\<rparr>)"

definition nextPhase :: "table_state \<Rightarrow> table_state" where
  "nextPhase st =
     (let currentIndex = find_index (\<lambda>x. x = phase st) round_phases in
      if currentIndex = -1 then st
      else
        let st1 = calculateSidePots st in
        if currentIndex < int (length round_phases) - 1
        then enter_phase (round_phases ! nat (currentIndex + 1)) st1
        else st1)"

definition betting_phases :: "game_phase list" where
  "betting_phases = [PRE_FLOP, FLOP, TURN, RIVER]"

definition to_showdown :: "table_state \<Rightarrow> table_state" where
  "to_showdown st = (calculateSidePots st)\<lparr>phase := SHOWDOWN, currentTurnSeatIndex := -1\<rparr>"


section \<open>Player actions\<close>

text \<open>
  The part of \<open>act\<close> up to the phase decision: \<open>Inr None\<close> is the early \<open>return false\<close> of a
  player who is not on turn.
\<close>

definition apply_action ::
  "int \<Rightarrow> table_player \<Rightarrow> action_type \<Rightarrow> js_number option \<Rightarrow> table_state \<Rightarrow>
   engine_error + table_state option" where
  "apply_action i p action raiseAmount st =
     (if action = DEALER_FOLD \<or> action = DEALER_KICK then Inr (Some (mark_folded i st))
      else if currentTurnSeatIndex st \<noteq> i then Inr None
      else if hasFolded p then Inr (Some st)
      else case action of
        FOLD \<Rightarrow> Inr (Some (mark_folded i st))
      | TIME_OUT \<Rightarrow>
          Inr (Some (if isAllIn p then st
                     else if bet p < currentBet st then mark_folded i st
                     else mark_checked i st))
      | CHECK \<Rightarrow> if bet p < currentBet st then Inl CallRequired
                 else Inr (Some (mark_checked i st))
      | CALL \<Rightarrow> Inr (Some (handleCall i p st))
      | RAISE \<Rightarrow>
          (case raiseAmount of
             Some (IntNum n) \<Rightarrow>
               if n \<le> 0 then Inl RaiseAmountInvalid
               else (case handleRaise i p n st of Inl e \<Rightarrow> Inl e | Inr st' \<Rightarrow> Inr (Some st'))
           | _ \<Rightarrow> Inl RaiseAmountInvalid)
      | _ \<Rightarrow> Inr (Some st))"

definition after_action :: "bool \<Rightarrow> table_state \<Rightarrow> table_state" where
  "after_action isPlayerTurn st =
     (if shouldGoToShowdown st then to_showdown st
      else
        let nextTurn = (if isPlayerTurn then getNextTurnSeatIndex st else currentTurnSeatIndex st) in
        if shouldGoToNextPhase st nextTurn then nextPhase st
        else st\<lparr>currentTurnSeatIndex := nextTurn\<rparr>)"

definition act ::
  "int \<Rightarrow> action_type \<Rightarrow> js_number option \<Rightarrow> table_state \<Rightarrow> (engine_error + bool) \<times> table_state" where
  "act playerIndex action raiseAmount st =
     (case seat st playerIndex of
        None \<Rightarrow> (Inl InvalidPlayer, st)
      | Some player \<Rightarrow>
          if phase st \<notin> set betting_phases then (Inl NotBettingPhase, st)
          else case apply_action playerIndex player action raiseAmount st of
                 Inl e \<Rightarrow> (Inl e, st)
               | Inr None \<Rightarrow> (Inr False, st)
               | Inr (Some st') \<Rightarrow>
                   (Inr True, after_action (currentTurnSeatIndex st = playerIndex) st'))"

section \<open>Settlement of a hand\<close>

definition claim_of :: "string list list \<Rightarrow> side_pot \<Rightarrow> string list option" where
  "claim_of rankedWinners sp =
     List.find (\<lambda>eligible. eligible \<noteq> [])
       (map (\<lambda>tier. filter (\<lambda>u. u \<in> set (relevantPlayerIds sp)) tier) rankedWinners)"

definition name_of :: "table_state \<Rightarrow> string \<Rightarrow> name_ref" where
  "name_of st u =
     (case seat st (seat_index_of u st) of
        Some p \<Rightarrow> SeatName (seat_index_of u st + 1) (nickname p)
      | None \<Rightarrow> RawId u)"

definition give_chips :: "int \<Rightarrow> int \<Rightarrow> table_state \<Rightarrow> table_state" where
  "give_chips i n st =
     (case seat st i of None \<Rightarrow> st | Some p \<Rightarrow> put_seat i (p\<lparr>stack := stack p + n\<rparr>) st)"

fun pay_order :: "int \<Rightarrow> int \<Rightarrow> int list \<Rightarrow> table_state \<Rightarrow> table_state" where
  "pay_order share remainder [] st = st"
| "pay_order share remainder (s # ss) st =
     (let extra = (if remainder > 0 then 1 else 0)
      in pay_order share (remainder - extra) ss (give_chips s (share + extra) st))"

definition clockwise_distance :: "table_state \<Rightarrow> int \<Rightarrow> int" where
  "clockwise_distance st s =
     (let total = int (length (players st)) in js_rem (s - buttonUser st - 1 + total) total)"

definition splitPot :: "int \<Rightarrow> string list \<Rightarrow> table_state \<Rightarrow> table_state" where
  "splitPot amt winnerIds st =
     (let seats = filter (\<lambda>s. s \<noteq> -1) (map (\<lambda>u. seat_index_of u st) winnerIds) in
      if seats = [] then st
      else
        let share = amt div int (length seats);
            remainder = amt - share * int (length seats);
            order = sort_key (clockwise_distance st) seats
        in pay_order share remainder order st)"

definition resetStatus :: "table_state \<Rightarrow> table_state" where
  "resetStatus st = st\<lparr>players := map (map_option (\<lambda>p.
     p\<lparr>hasFolded := False, hasChecked := False, isAllIn := False\<rparr>)) (players st)\<rparr>"

definition pay_claims :: "string list list \<Rightarrow> side_pot list \<Rightarrow> table_state \<Rightarrow> table_state" where
  "pay_claims rankedWinners pots st =
     fold (\<lambda>sp s. case claim_of rankedWinners sp of
                    None \<Rightarrow> s | Some ws \<Rightarrow> splitPot (potAmount sp) ws s) pots st"

definition resolveWinner ::
  "string list list \<Rightarrow> table_state \<Rightarrow> (engine_error + unit) \<times> table_state" where
  "resolveWinner rankedWinners st =
     (if phase st \<noteq> SHOWDOWN then (Inl NotShowdown, st)
      else
        let st1 = calculateSidePots (refundUncalledBets st);
            unclaimed = filter (\<lambda>sp. claim_of rankedWinners sp = None) (sidePots st1)
        in if unclaimed \<noteq> [] then
             (Inl (UnclaimedPots
                (map (\<lambda>sp. (potAmount sp, map (name_of st1) (relevantPlayerIds sp))) unclaimed)), st1)
           else
             let st2 = pay_claims rankedWinners (sidePots st1) st1
             in (Inr (), resetStatus (st2\<lparr>pot := 0, sidePots := [], phase := HAND_END\<rparr>)))"

definition applyRebuy :: "string \<Rightarrow> int \<Rightarrow> table_state \<Rightarrow> table_state" where
  "applyRebuy u amt st =
     (if amt \<le> 0 then st
      else case seat st (seat_index_of u st) of
             None \<Rightarrow> st
           | Some p \<Rightarrow> put_seat (seat_index_of u st)
               (p\<lparr>stack := stack p + amt, bet := 0, hasFolded := False, isAllIn := False\<rparr>) st)"

definition init_seat :: "table_player option \<Rightarrow> table_player option" where
  "init_seat s =
     (case s of
        Some p \<Rightarrow> if stack p > 0
                  then Some (p\<lparr>bet := 0, totalContributed := 0, hasFolded := False,
                               isAllIn := False, hasChecked := False\<rparr>)
                  else None
      | None \<Rightarrow> None)"

definition initTable :: "table_state \<Rightarrow> table_state" where
  "initTable st = st\<lparr>players := map init_seat (players st), pot := 0, currentBet := 0,
     lastRaiseSize := None, sidePots := [], actionDeadline := None, phase := WAITING\<rparr>"

section \<open>Start of a hand\<close>

definition pay_ante_seat :: "int \<Rightarrow> int \<Rightarrow> table_state \<Rightarrow> table_state" where
  "pay_ante_seat amt i st =
     (case seat st i of
        None \<Rightarrow> st
      | Some p \<Rightarrow>
          if hasFolded p then st
          else let st1 = executeBet i amt st in
               case seat st1 i of None \<Rightarrow> st1 | Some q \<Rightarrow> put_seat i (q\<lparr>bet := 0\<rparr>) st1)"

definition payAnte :: "int \<Rightarrow> table_state \<Rightarrow> table_state" where
  "payAnte amt st = fold (pay_ante_seat amt) (map int [0..<length (players st)]) st"

definition payBlind :: "int \<Rightarrow> int \<Rightarrow> int \<Rightarrow> table_state \<Rightarrow> table_state" where
  "payBlind sbIdx bbIdx amt st = executeBet bbIdx (amt * 2) (executeBet sbIdx amt st)"

text \<open>
  \<open>startPreFlop\<close> behind its checks: the button moves, antes then blinds are paid, the first
  turn is given, and a hand that the blinds already decided goes straight to the showdown.
\<close>

definition deal_hand :: "int \<Rightarrow> int \<Rightarrow> int \<Rightarrow> table_state \<Rightarrow> table_state" where
  "deal_hand btnIdx sbIdx bbIdx st =
     (let st1 = st\<lparr>buttonUser := btnIdx\<rparr>;
          st2 = (if ante st1 > 0 then payAnte (ante st1) st1 else st1);
          st3 = payBlind sbIdx bbIdx (smallBlind st2) st2;
          st4 = st3\<lparr>currentBet := smallBlind st3 * 2, lastRaiseSize := Some (smallBlind st3 * 2)\<rparr>;
          st5 = st4\<lparr>currentTurnSeatIndex := findNextActiveSeat st4 (next_seat st4 bbIdx),
                    phase := PRE_FLOP\<rparr>
      in if shouldGoToShowdown st5 then to_showdown st5 else st5)"

definition startPreFlop :: "table_state \<Rightarrow> engine_error + table_state" where
  "startPreFlop st =
     (let activeCount = length (filter (\<lambda>p. \<not> hasFolded p \<and> stack p > 0) (occupants (players st))) in
      if activeCount < 2 then Inl NotEnoughPlayers
      else
        let btnIdx = findNextActiveSeat st (next_seat st (buttonUser st)) in
        if btnIdx = -1 then Inl NoButton
        else
          let sbIdx = (if activeCount = 2 then btnIdx
                       else findNextActiveSeat st (next_seat st btnIdx));
              bbIdx = (if activeCount = 2 then findNextActiveSeat st (next_seat st btnIdx)
                       else findNextActiveSeat st (next_seat st sbIdx)) in
          if sbIdx = -1 \<or> bbIdx = -1 then Inl NoBlinds
          else Inr (deal_hand btnIdx sbIdx bbIdx st))"

end
