(* ===== verification/EngineChips.thy ===== *)
theory EngineChips
  imports TableEngine
begin

text \<open>
  Where the chips are. Every operation of the engine is described by what it does to the sum of
  the stacks, to the pot and to the sum of the contributions; from these the conservation of the
  table's chips by actions, by the start of a hand and by the settlement of a hand follows. The
  side pots are shown to be a partition of the contributions, and the split of one pot to be exact.
\<close>

section \<open>Fields no seat reads\<close>

lemma seat_frame [simp, frame_simps]:
  "seat (st\<lparr>pot := x\<rparr>) i = seat st i"
  "seat (st\<lparr>phase := ph\<rparr>) i = seat st i"
  "seat (st\<lparr>currentBet := x\<rparr>) i = seat st i"
  "seat (st\<lparr>lastRaiseSize := l\<rparr>) i = seat st i"
  "seat (st\<lparr>currentTurnSeatIndex := x\<rparr>) i = seat st i"
  "seat (st\<lparr>buttonUser := x\<rparr>) i = seat st i"
  "seat (st\<lparr>sidePots := sp\<rparr>) i = seat st i"
  by (simp_all add: seat_def)

lemma stacks_frame [simp, frame_simps]:
  "stacks (st\<lparr>pot := x\<rparr>) = stacks st"
  "stacks (st\<lparr>phase := ph\<rparr>) = stacks st"
  "stacks (st\<lparr>currentBet := x\<rparr>) = stacks st"
  "stacks (st\<lparr>lastRaiseSize := l\<rparr>) = stacks st"
  "stacks (st\<lparr>currentTurnSeatIndex := x\<rparr>) = stacks st"
  "stacks (st\<lparr>buttonUser := x\<rparr>) = stacks st"
  "stacks (st\<lparr>sidePots := sp\<rparr>) = stacks st"
  by (simp_all add: stacks_def)

lemma contributions_frame [simp, frame_simps]:
  "contributions (st\<lparr>pot := x\<rparr>) = contributions st"
  "contributions (st\<lparr>phase := ph\<rparr>) = contributions st"
  "contributions (st\<lparr>currentBet := x\<rparr>) = contributions st"
  "contributions (st\<lparr>lastRaiseSize := l\<rparr>) = contributions st"
  "contributions (st\<lparr>currentTurnSeatIndex := x\<rparr>) = contributions st"
  "contributions (st\<lparr>buttonUser := x\<rparr>) = contributions st"
  "contributions (st\<lparr>sidePots := sp\<rparr>) = contributions st"
  by (simp_all add: contributions_def)

text \<open>
  \<open>moves st st' d c\<close>: from \<open>st\<close> to \<open>st'\<close> the stacks lose \<open>d\<close> chips, which the pot gains,
  and \<open>c\<close> of them are recorded as contributions.
\<close>

definition moves :: "table_state \<Rightarrow> table_state \<Rightarrow> int \<Rightarrow> bool" where
  "moves st st' d \<longleftrightarrow> stacks st' = stacks st - d \<and> pot st' = pot st + d
     \<and> contributions st' = contributions st + d"

lemma moves_refl [simp]: "moves st st 0"
  by (simp add: moves_def)

lemma moves_trans: "moves a b d \<Longrightarrow> moves b c e \<Longrightarrow> moves a c (d + e)"
  by (simp add: moves_def)

lemma moves_total: "moves a b d \<Longrightarrow> total_chips b = total_chips a"
  by (simp add: moves_def total_chips_def)

lemma moves_pot: "moves a b d \<Longrightarrow> pot b - contributions b = pot a - contributions a"
  by (simp add: moves_def)

definition chip_neutral :: "table_state \<Rightarrow> table_state \<Rightarrow> bool" where
  "chip_neutral a b \<longleftrightarrow> (\<exists>d. moves a b d)"

lemma chip_neutral_refl [simp]: "chip_neutral a a"
  unfolding chip_neutral_def using moves_refl by blast

lemma chip_neutral_trans: "chip_neutral a b \<Longrightarrow> chip_neutral b c \<Longrightarrow> chip_neutral a c"
  unfolding chip_neutral_def using moves_trans by blast

lemma chip_neutral_total: "chip_neutral a b \<Longrightarrow> total_chips b = total_chips a"
  unfolding chip_neutral_def using moves_total by blast

lemma chip_neutral_pot: "chip_neutral a b \<Longrightarrow> pot a = contributions a \<Longrightarrow> pot b = contributions b"
  unfolding chip_neutral_def using moves_pot by fastforce

section \<open>Bets and marks\<close>

lemma executeBet_moves: "\<exists>d. moves st (executeBet i amt st) d"
proof (cases "seat st i")
  case None
  then show ?thesis by (intro exI[of _ 0]) (simp add: executeBet_def)
next
  case (Some p)
  then have "moves st (executeBet i amt st) (min (stack p) amt)"
    by (auto simp: executeBet_def Let_def moves_def chip_simps)
  then show ?thesis by blast
qed

lemma executeBet_neutral [intro]: "chip_neutral st (executeBet i amt st)"
  unfolding chip_neutral_def by (rule executeBet_moves)

lemma mark_checked_neutral [intro]: "chip_neutral st (mark_checked i st)"
  unfolding chip_neutral_def
  by (rule exI[of _ 0]) (auto simp: mark_checked_def moves_def chip_simps split: option.splits)

lemma mark_folded_neutral [intro]: "chip_neutral st (mark_folded i st)"
  unfolding chip_neutral_def
  by (rule exI[of _ 0]) (auto simp: mark_folded_def moves_def chip_simps split: option.splits)

lemma players_map_neutral:
  assumes "\<And>p. stack (f p) = stack p" and "\<And>p. totalContributed (f p) = totalContributed p"
  shows "chip_neutral st (st\<lparr>players := map (map_option f) (players st)\<rparr>)"
  unfolding chip_neutral_def
  by (rule exI[of _ 0]) (simp add: moves_def stacks_def contributions_def sum_slots_map assms)

lemma resetChecked_neutral [intro]: "chip_neutral st (resetChecked st)"
  unfolding resetChecked_def by (rule players_map_neutral) simp_all

lemma field_neutral:
  assumes "players b = players a" and "pot b = pot a"
  shows "chip_neutral a b"
  unfolding chip_neutral_def
  by (rule exI[of _ 0]) (simp add: moves_def stacks_def contributions_def assms)

lemma handleCall_neutral: "chip_neutral st (handleCall i p st)"
  unfolding handleCall_def Let_def
  by (rule chip_neutral_trans[OF executeBet_neutral mark_checked_neutral])

lemma raise_bet_neutral: "chip_neutral st (raise_bet i prev m st)"
proof (cases "seat st i")
  case (Some q)
  have "chip_neutral st (st\<lparr>currentBet := bet q\<rparr>)"
    by (rule field_neutral) simp_all
  moreover have "chip_neutral st (resetChecked st\<lparr>lastRaiseSize := r, currentBet := bet q\<rparr>)" for r
    by (rule chip_neutral_trans[OF resetChecked_neutral]) (rule field_neutral, simp_all)
  ultimately show ?thesis
    using Some by (simp add: raise_bet_def Let_def)
qed (simp add: raise_bet_def)

lemma handleRaise_Inr:
  assumes "handleRaise i p n st = Inr st'"
  shows "st' = mark_checked i
           (raise_bet i (currentBet st) (minRaiseSize st) (executeBet i (min (n - bet p) (stack p)) st))"
    and "\<not> hasChecked p" "currentBet st < n" "bet p < n"
    and "stack p \<le> n - bet p \<or> minRaiseSize st \<le> n - currentBet st"
  using assms by (auto simp: handleRaise_def Let_def split: if_splits)

lemma handleRaise_neutral:
  assumes "handleRaise i p n st = Inr st'"
  shows "chip_neutral st st'"
  unfolding handleRaise_Inr(1)[OF assms]
  by (rule chip_neutral_trans[OF executeBet_neutral
        chip_neutral_trans[OF raise_bet_neutral mark_checked_neutral]])

section \<open>Phases\<close>

lemma calculateSidePots_fields [simp]:
  "players (calculateSidePots st) = players st"
  "pot (calculateSidePots st) = pot st"
  "phase (calculateSidePots st) = phase st"
  "currentBet (calculateSidePots st) = currentBet st"
  "buttonUser (calculateSidePots st) = buttonUser st"
  "smallBlind (calculateSidePots st) = smallBlind st"
  "currentTurnSeatIndex (calculateSidePots st) = currentTurnSeatIndex st"
  "lastRaiseSize (calculateSidePots st) = lastRaiseSize st"
  by (simp_all add: calculateSidePots_def Let_def)

lemma to_showdown_neutral: "chip_neutral st (to_showdown st)"
  by (rule field_neutral) (simp_all add: to_showdown_def)

lemma nextPhase_neutral: "chip_neutral st (nextPhase st)"
proof -
  have clear: "chip_neutral st (st\<lparr>players := map (map_option clear_round) (players st)\<rparr>)"
    by (rule players_map_neutral) (simp_all add: clear_round_def)
  have eq: "players (nextPhase st) = players st \<or>
            players (nextPhase st) = map (map_option clear_round) (players st)"
    and "pot (nextPhase st) = pot st"
    by (simp_all add: nextPhase_def enter_phase_def Let_def)
  then show ?thesis
  proof (elim disjE)
    assume "players (nextPhase st) = players st"
    then show ?thesis using \<open>pot (nextPhase st) = pot st\<close> by (rule field_neutral)
  next
    assume "players (nextPhase st) = map (map_option clear_round) (players st)"
    then show ?thesis using \<open>pot (nextPhase st) = pot st\<close>
      by (intro chip_neutral_trans[OF clear]) (simp add: field_neutral)
  qed
qed

text \<open>What an accepted action leaves behind.\<close>

lemma apply_action_cases:
  assumes "apply_action i p a r st = Inr (Some st')"
  obtains (same) "st' = st"
  | (folded) "st' = mark_folded i st"
  | (checked) "st' = mark_checked i st" "currentBet st \<le> bet p"
  | (called) "st' = handleCall i p st"
  | (raised) n where "handleRaise i p n st = Inr st'"
  using assms
  by (auto simp: apply_action_def
           split: if_splits action_type.splits option.splits js_number.splits sum.splits)

lemma apply_action_neutral: "apply_action i p a r st = Inr (Some st') \<Longrightarrow> chip_neutral st st'"
  by (erule apply_action_cases) (auto simp: handleCall_neutral handleRaise_neutral)

lemma after_action_neutral: "chip_neutral st (after_action b st)"
  by (simp add: after_action_def Let_def to_showdown_neutral nextPhase_neutral field_neutral)

lemma act_neutral: "chip_neutral st (snd (act i a r st))"
proof (cases "act i a r st = (Inl InvalidPlayer, st) \<or> snd (act i a r st) = st")
  case False
  then obtain st' where "apply_action i (the (seat st i)) a r st = Inr (Some st')"
    and "snd (act i a r st) = after_action (currentTurnSeatIndex st = i) st'"
    by (auto simp: act_def split: option.splits if_splits sum.splits)
  then show ?thesis
    using chip_neutral_trans[OF apply_action_neutral after_action_neutral] by metis
qed auto


section \<open>The start of a hand\<close>

lemma clear_bet_neutral: "seat st i = Some q \<Longrightarrow> chip_neutral st (put_seat i (q\<lparr>bet := 0\<rparr>) st)"
  unfolding chip_neutral_def by (rule exI[of _ 0]) (simp add: moves_def chip_simps)

lemma pay_ante_seat_neutral: "chip_neutral st (pay_ante_seat amt i st)"
proof (cases "seat st i")
  case (Some p)
  show ?thesis
  proof (cases "hasFolded p \<or> seat (executeBet i amt st) i = None")
    case False
    then obtain q where q: "seat (executeBet i amt st) i = Some q" by auto
    have "chip_neutral st (put_seat i (q\<lparr>bet := 0\<rparr>) (executeBet i amt st))"
      by (rule chip_neutral_trans[OF executeBet_neutral clear_bet_neutral[OF q]])
    with Some False q show ?thesis by (simp add: pay_ante_seat_def)
  qed (use Some in \<open>auto simp: pay_ante_seat_def\<close>)
qed (simp add: pay_ante_seat_def)

lemma payAnte_neutral: "chip_neutral st (payAnte amt st)"
proof -
  have "chip_neutral s (fold (pay_ante_seat amt) xs s)" for s xs
    by (induction xs arbitrary: s)
       (auto intro: chip_neutral_trans[OF pay_ante_seat_neutral])
  then show ?thesis by (simp add: payAnte_def)
qed

lemma payBlind_neutral: "chip_neutral st (payBlind sb bb amt st)"
  unfolding payBlind_def by (rule chip_neutral_trans[OF executeBet_neutral executeBet_neutral])

lemma deal_hand_neutral: "chip_neutral st (deal_hand btn sb bb st)"
proof -
  have button: "chip_neutral st (st\<lparr>buttonUser := btn\<rparr>)" by (rule field_neutral) simp_all
  have antes: "chip_neutral s (if ante s > 0 then payAnte (ante s) s else s)" for s
    by (simp add: payAnte_neutral)
  have turn: "chip_neutral s (s\<lparr>currentBet := cb, lastRaiseSize := lr\<rparr>
      \<lparr>currentTurnSeatIndex := t, phase := PRE_FLOP\<rparr>)" for s cb lr t
    by (rule field_neutral) simp_all
  have close: "chip_neutral s (if shouldGoToShowdown s then to_showdown s else s)" for s
    by (simp add: to_showdown_neutral)
  show ?thesis unfolding deal_hand_def Let_def
    by (rule chip_neutral_trans[OF button chip_neutral_trans[OF antes
          chip_neutral_trans[OF payBlind_neutral chip_neutral_trans[OF turn close]]]])
qed

lemma startPreFlop_Inr:
  assumes "startPreFlop st = Inr st'"
  obtains btn sb bb where "st' = deal_hand btn sb bb st"
    and "btn = findNextActiveSeat st (next_seat st (buttonUser st))"
    and "btn \<noteq> -1" "sb \<noteq> -1" "bb \<noteq> -1"
    and "sb = btn \<or> sb = findNextActiveSeat st (next_seat st btn)"
    and "bb = findNextActiveSeat st (next_seat st sb)"
    and "2 \<le> length (filter (\<lambda>p. \<not> hasFolded p \<and> stack p > 0) (occupants (players st)))"
  using assms by (auto simp: startPreFlop_def Let_def split: if_splits)

lemma startPreFlop_neutral: "startPreFlop st = Inr st' \<Longrightarrow> chip_neutral st st'"
  by (erule startPreFlop_Inr) (simp add: deal_hand_neutral)

section \<open>Side pots partition the contributions\<close>

text \<open>What one contributor puts into the layers above \<open>lastLevel\<close>.\<close>

fun layered :: "int \<Rightarrow> int \<Rightarrow> int list \<Rightarrow> int" where
  "layered t lastLevel [] = 0"
| "layered t lastLevel (level # rest) =
     max 0 ((if rest = [] then t else min t level) - lastLevel) + layered t level rest"

lemma layered_sum:
  "sorted_wrt (<) (lastLevel # levels) \<Longrightarrow> levels \<noteq> [] \<Longrightarrow>
   layered t lastLevel levels = max 0 (t - lastLevel)"
proof (induction levels arbitrary: lastLevel)
  case (Cons level rest)
  show ?case
  proof (cases "rest = []")
    case False
    then have "layered t level rest = max 0 (t - level)"
      using Cons by simp
    with Cons.prems False show ?thesis by (auto simp: max_def min_def)
  qed simp
qed simp

lemma side_pots_sum:
  "sum_list (map potAmount (side_pots cs lastLevel levels)) =
   sum_list (map (\<lambda>p. layered (totalContributed p) lastLevel levels) cs)"
  by (induction cs lastLevel levels rule: side_pots.induct) (simp_all add: Let_def sum_list_addf)

lemma pot_levels_sorted:
  assumes "\<forall>p\<in>set cs. 0 < totalContributed p"
  shows "sorted_wrt (<) (0 # pot_levels cs)"
proof -
  have "sorted (pot_levels cs)" "distinct (pot_levels cs)"
    by (simp_all add: pot_levels_def)
  then have "sorted_wrt (<) (pot_levels cs)"
    by (simp add: strict_sorted_iff)
  then show ?thesis using assms by (auto simp: pot_levels_def)
qed

lemma pot_levels_empty: "pot_levels cs = [] \<longleftrightarrow> (\<forall>p\<in>set cs. hasFolded p)"
proof -
  have "pot_levels cs = [] \<longleftrightarrow> set (pot_levels cs) = {}" by (simp only: set_empty)
  then show ?thesis by (auto simp: pot_levels_def)
qed

lemma contributors_pos: "\<forall>p\<in>set (contributors st). 0 < totalContributed p"
  by (simp add: contributors_def)

lemma contributors_sum:
  assumes "\<forall>p\<in>set (occupants (players st)). 0 \<le> totalContributed p"
  shows "sum_list (map totalContributed (contributors st)) = contributions st"
  unfolding contributors_def contributions_def sum_slots_def
  by (rule sum_list_filter_zero) (use assms in force)

definition live_contributor :: "table_state \<Rightarrow> bool" where
  "live_contributor st \<longleftrightarrow> (\<exists>p\<in>set (contributors st). \<not> hasFolded p)"

lemma calculateSidePots_sum:
  assumes "\<forall>p\<in>set (occupants (players st)). 0 \<le> totalContributed p" and "live_contributor st"
  shows "sum_list (map potAmount (sidePots (calculateSidePots st))) = contributions st"
proof -
  let ?cs = "contributors st"
  have ne: "pot_levels ?cs \<noteq> []" using assms(2) by (auto simp: pot_levels_empty live_contributor_def)
  have "sum_list (map potAmount (sidePots (calculateSidePots st)))
      = sum_list (map (\<lambda>p. layered (totalContributed p) 0 (pot_levels ?cs)) ?cs)"
    by (simp add: calculateSidePots_def Let_def side_pots_sum)
  also have "\<dots> = sum_list (map (\<lambda>p. max 0 (totalContributed p)) ?cs)"
    using layered_sum[OF pot_levels_sorted[OF contributors_pos] ne] by simp
  also have "\<dots> = sum_list (map totalContributed ?cs)"
    using contributors_pos[of st] by (intro arg_cong[of _ _ sum_list] map_cong) auto
  finally show ?thesis using contributors_sum[OF assms(1)] by simp
qed

lemma calculateSidePots_none:
  assumes "\<not> live_contributor st"
  shows "sidePots (calculateSidePots st) = []"
proof -
  have "pot_levels (contributors st) = []"
    using assms by (auto simp: pot_levels_empty live_contributor_def)
  then show ?thesis by (simp add: calculateSidePots_def)
qed

section \<open>The split of one pot\<close>

lemma give_chips_sums [chip_simps]:
  assumes "seat st i \<noteq> None"
  shows "stacks (give_chips i n st) = stacks st + n"
    and "pot (give_chips i n st) = pot st"
    and "contributions (give_chips i n st) = contributions st"
  using assms by (auto simp: give_chips_def chip_simps)

lemma give_chips_ids [simp]: "ids (give_chips i n st) = ids st"
  by (auto simp: give_chips_def ids_put_seat split: option.splits)

lemma give_chips_pot [simp]: "pot (give_chips i n st) = pot st"
  by (auto simp: give_chips_def split: option.splits)

lemma pay_order_frame [simp, frame_simps]:
  "ids (pay_order share remainder order st) = ids st"
  "pot (pay_order share remainder order st) = pot st"
  by (induction share remainder order st rule: pay_order.induct) (simp_all add: Let_def)

lemma pay_order_stacks:
  assumes "\<forall>s\<in>set order. seat st s \<noteq> None"
    and "0 \<le> remainder" "remainder \<le> int (length order)"
  shows "stacks (pay_order share remainder order st) = stacks st + share * int (length order) + remainder"
  using assms
proof (induction order arbitrary: remainder st)
  case (Cons s ss)
  define e where "e = (if remainder > 0 then 1 else 0 :: int)"
  have "\<forall>x\<in>set ss. seat (give_chips s (share + e) st) x \<noteq> None"
    using Cons.prems(1) by (simp add: seat_ids)
  moreover have "stacks (give_chips s (share + e) st) = stacks st + (share + e)"
    using Cons.prems(1) by (simp add: chip_simps)
  moreover have "0 \<le> remainder - e" "remainder - e \<le> int (length ss)"
    using Cons.prems by (auto simp: e_def)
  ultimately show ?case
    using Cons.IH[of "give_chips s (share + e) st" "remainder - e"]
    by (simp add: Let_def e_def[symmetric] algebra_simps)
qed simp

lemma winner_seats:
  "s \<in> set (filter (\<lambda>s. s \<noteq> -1) (map (\<lambda>u. seat_index_of u st) ws)) \<Longrightarrow> seat st s \<noteq> None"
  by (auto elim: seat_index_of_seat)

lemma splitPot_frame [simp, frame_simps]:
  "ids (splitPot amt ws st) = ids st"
  "pot (splitPot amt ws st) = pot st"
  by (simp_all add: splitPot_def Let_def)

lemma splitPot_stacks:
  assumes "\<exists>u\<in>set ws. seat_index_of u st \<noteq> -1"
  shows "stacks (splitPot amt ws st) = stacks st + amt"
proof -
  define seats where "seats = filter (\<lambda>s. s \<noteq> -1) (map (\<lambda>u. seat_index_of u st) ws)"
  define n where "n = int (length seats)"
  define r where "r = amt - amt div n * n"
  have ne: "seats \<noteq> []" using assms by (auto simp: seats_def filter_empty_conv)
  then have n: "0 < n" by (simp add: n_def)
  have r: "r = amt mod n" by (simp add: r_def minus_div_mult_eq_mod)
  have r_le: "0 \<le> r" "r \<le> int (length (sort_key (clockwise_distance st) seats))"
    using n pos_mod_bound[OF n, of amt] by (simp_all add: r n_def less_imp_le)
  have seated: "\<forall>s\<in>set (sort_key (clockwise_distance st) seats). seat st s \<noteq> None"
    using winner_seats unfolding seats_def by fastforce
  have "splitPot amt ws st = pay_order (amt div n) r (sort_key (clockwise_distance st) seats) st"
    using ne by (simp add: splitPot_def Let_def seats_def[symmetric] n_def r_def)
  then show ?thesis
    using pay_order_stacks[OF seated r_le] by (simp add: r n_def)
qed

section \<open>The settlement of a hand\<close>

lemma refund_moves: "chip_neutral st (refundUncalledBets st)"
proof (cases "refundUncalledBets st = st")
  case False
  then obtain i p d where "seat st i = Some p"
    and "refundUncalledBets st = put_seat i (p\<lparr>stack := stack p + d,
           totalContributed := totalContributed p - d\<rparr>) (st\<lparr>pot := pot st - d\<rparr>)"
    by (auto simp: refundUncalledBets_def Let_def split: list.splits if_splits option.splits)
  then have "moves st (refundUncalledBets st) (- d)"
    by (simp add: moves_def chip_simps)
  then show ?thesis unfolding chip_neutral_def by blast
qed simp

lemma claim_of_Some:
  assumes "claim_of ranked sp = Some ws"
  shows "ws \<noteq> []" and "set ws \<subseteq> set (relevantPlayerIds sp)"
  using assms by (auto simp: claim_of_def find_Some_iff)

lemma side_pots_relevant:
  "sp \<in> set (side_pots cs l levels) \<Longrightarrow>
   set (relevantPlayerIds sp) \<subseteq> player_id ` {p \<in> set cs. \<not> hasFolded p}"
  by (induction cs l levels rule: side_pots.induct) (auto simp: Let_def)

lemma relevant_seated:
  assumes "sp \<in> set (sidePots (calculateSidePots st))" "u \<in> set (relevantPlayerIds sp)"
  shows "\<exists>p\<in>set (occupants (players st)). player_id p = u \<and> \<not> hasFolded p \<and> 0 < totalContributed p"
proof -
  have "sp \<in> set (side_pots (contributors st) 0 (pot_levels (contributors st)))"
    using assms(1) by (simp add: calculateSidePots_def Let_def)
  then have "u \<in> player_id ` {p \<in> set (contributors st). \<not> hasFolded p}"
    using side_pots_relevant assms(2) by blast
  then show ?thesis by (auto simp: contributors_def)
qed

lemma seat_index_of_occupant:
  assumes "p \<in> set (occupants (players st))"
  shows "seat_index_of (player_id p) st \<noteq> -1"
  using assms by (auto simp: seat_index_of_def find_index_none set_occupants split: option.splits)

lemma pay_claims_frame [simp, frame_simps]:
  "ids (pay_claims ranked pots st) = ids st"
  "pot (pay_claims ranked pots st) = pot st"
proof (induction pots arbitrary: st)
  case (Cons sp pots)
  {
    case 1 show ?case using Cons.IH(1) by (simp add: pay_claims_def split: option.splits)
  next
    case 2 show ?case using Cons.IH(2) by (simp add: pay_claims_def split: option.splits)
  }
qed (simp_all add: pay_claims_def)

lemma pay_claims_stacks:
  assumes "\<forall>sp\<in>set pots. claim_of ranked sp \<noteq> None"
    and "\<forall>sp\<in>set pots. \<forall>u\<in>set (relevantPlayerIds sp). seat_index_of u st \<noteq> -1"
  shows "stacks (pay_claims ranked pots st) = stacks st + sum_list (map potAmount pots)"
  using assms
proof (induction pots arbitrary: st)
  case (Cons sp pots)
  then obtain ws where ws: "claim_of ranked sp = Some ws" by auto
  have "\<exists>u\<in>set ws. seat_index_of u st \<noteq> -1"
    using claim_of_Some[OF ws] Cons.prems(2) by (cases ws) auto
  then have "stacks (splitPot (potAmount sp) ws st) = stacks st + potAmount sp"
    by (rule splitPot_stacks)
  moreover have "stacks (pay_claims ranked pots (splitPot (potAmount sp) ws st))
      = stacks (splitPot (potAmount sp) ws st) + sum_list (map potAmount pots)"
    using Cons.prems by (intro Cons.IH) (simp_all add: seat_index_of_ids)
  ultimately show ?case by (simp add: pay_claims_def ws)
qed (simp add: pay_claims_def)

lemma resetStatus_neutral: "chip_neutral st (resetStatus st)"
  unfolding resetStatus_def by (rule players_map_neutral) simp_all

lemma resetStatus_sums [simp]: "stacks (resetStatus st) = stacks st" "pot (resetStatus st) = pot st"
  by (simp_all add: resetStatus_def stacks_def sum_slots_map)

text \<open>Everything a settlement does to the chips, on the success branch.\<close>

lemma resolveWinner_ok:
  assumes "resolveWinner ranked st = (Inr (), st')"
  defines "st1 \<equiv> refundUncalledBets st"
  shows "phase st = SHOWDOWN" and "phase st' = HAND_END" and "pot st' = 0"
    and "stacks st' = stacks st1 + sum_list (map potAmount (sidePots (calculateSidePots st1)))"
proof -
  define st2 where "st2 = calculateSidePots st1"
  have all: "\<forall>sp\<in>set (sidePots st2). claim_of ranked sp \<noteq> None"
    and st': "st' = resetStatus (pay_claims ranked (sidePots st2) st2
                      \<lparr>pot := 0, sidePots := [], phase := HAND_END\<rparr>)"
    and ph: "phase st = SHOWDOWN"
    using assms by (auto simp: resolveWinner_def Let_def st2_def filter_empty_conv split: if_splits)
  have seated: "\<forall>sp\<in>set (sidePots st2). \<forall>u\<in>set (relevantPlayerIds sp). seat_index_of u st2 \<noteq> -1"
  proof (intro ballI)
    fix sp u assume "sp \<in> set (sidePots st2)" "u \<in> set (relevantPlayerIds sp)"
    then obtain p where "p \<in> set (occupants (players st2))" "player_id p = u"
      using relevant_seated unfolding st2_def by (metis calculateSidePots_fields(1))
    then show "seat_index_of u st2 \<noteq> -1" using seat_index_of_occupant by blast
  qed
  show "phase st = SHOWDOWN" by (rule ph)
  show "phase st' = HAND_END" "pot st' = 0" by (simp_all add: st' resetStatus_def)
  have "stacks st2 = stacks st1" by (simp add: st2_def stacks_def)
  then show "stacks st' = stacks st1 + sum_list (map potAmount (sidePots (calculateSidePots st1)))"
    using pay_claims_stacks[OF all seated] by (simp add: st' st2_def)
qed

lemma resolveWinner_error:
  assumes "resolveWinner ranked st = (Inl e, st')"
  shows "chip_neutral st st'"
proof (cases "phase st = SHOWDOWN")
  case True
  then have "st' = calculateSidePots (refundUncalledBets st)"
    using assms by (auto simp: resolveWinner_def Let_def split: if_splits)
  then show ?thesis
    using chip_neutral_trans[OF refund_moves field_neutral] by (metis calculateSidePots_fields(1,2))
qed (use assms in \<open>simp add: resolveWinner_def\<close>)

end
