(* ===== verification/EngineRounds.thy ===== *)
theory EngineRounds
  imports EngineChips
begin

text \<open>
  The invariant of a running hand: amounts are consistent seat by seat, the pot is what was
  contributed, and in a betting round the turn lies with someone who can act. Every method keeps
  it. On top of it: the search for the next seat is correct, no betting round is ever stuck, and
  a hand in which every turn times out reaches the showdown.
\<close>

section \<open>The search for the next active seat\<close>

definition active_at :: "table_state \<Rightarrow> int \<Rightarrow> bool" where
  "active_at st i \<longleftrightarrow> (case seat st i of None \<Rightarrow> False | Some p \<Rightarrow> active_seat p)"

lemma active_at_bounds: "active_at st i \<Longrightarrow> 0 \<le> i \<and> i < int (length (players st))"
  by (auto simp: active_at_def dest: seat_bounds split: option.splits)

lemma next_seat_mod: "0 \<le> i \<Longrightarrow> i < int (length (players st)) \<Longrightarrow>
    next_seat st i = (i + 1) mod int (length (players st))"
  unfolding next_seat_def by (rule js_rem_nonneg) linarith+

lemma find_from_Suc: "find_from st (Suc k) cur =
    (if active_at st cur then cur else find_from st k (next_seat st cur))"
  by (simp add: active_at_def next_seat_def split: option.splits)

declare find_from.simps(2) [simp del]

lemma find_from_cases:
  assumes "0 \<le> c" "c < int (length (players st))"
  shows "(find_from st k c = -1 \<and> (\<forall>j<k. \<not> active_at st ((c + int j) mod int (length (players st)))))
       \<or> (\<exists>d<k. find_from st k c = (c + int d) mod int (length (players st))
            \<and> active_at st ((c + int d) mod int (length (players st)))
            \<and> (\<forall>j<d. \<not> active_at st ((c + int j) mod int (length (players st)))))"
  using assms
proof (induction k arbitrary: c)
  case (Suc k)
  let ?n = "int (length (players st))"
  show ?case
  proof (cases "active_at st c")
    case True
    then show ?thesis using Suc.prems by (intro disjI2 exI[of _ 0]) (simp add: find_from_Suc)
  next
    case False
    let ?c = "next_seat st c"
    have c: "?c = (c + 1) mod ?n" using Suc.prems by (simp add: next_seat_mod)
    have shift: "(?c + int j) mod ?n = (c + int (Suc j)) mod ?n" for j
      by (simp add: c mod_simps algebra_simps)
    have "0 < ?n" using Suc.prems by linarith
    then have bnd: "0 \<le> ?c" "?c < ?n" by (simp_all only: c pos_mod_sign pos_mod_bound)
    have step: "find_from st (Suc k) c = find_from st k ?c" using False by (simp only: find_from_Suc if_False)
    have here: "\<not> active_at st ((c + int 0) mod ?n)" using False Suc.prems by simp
    show ?thesis using Suc.IH[OF bnd]
    proof (elim disjE conjE exE)
      assume 1: "find_from st k ?c = -1" "\<forall>j<k. \<not> active_at st ((?c + int j) mod ?n)"
      have "\<not> active_at st ((c + int j) mod ?n)" if "j < Suc k" for j
        using that here 1(2) shift by (cases j) auto
      then show ?thesis using 1(1) step by simp
    next
      fix d assume d: "d < k" "find_from st k ?c = (?c + int d) mod ?n"
        "active_at st ((?c + int d) mod ?n)" "\<forall>j<d. \<not> active_at st ((?c + int j) mod ?n)"
      have "\<not> active_at st ((c + int j) mod ?n)" if "j < Suc d" for j
        using that here d(4) shift by (cases j) auto
      then show ?thesis using d(1-3) shift[of d] step
        by (intro disjI2 exI[of _ "Suc d"]) simp
    qed
  qed
qed simp

lemma seat_as_offset:
  assumes "0 \<le> c" "c < n" "0 \<le> i" "i < (n::int)"
  shows "\<exists>j. j < nat n \<and> (c + int j) mod n = i"
  using assms by (intro exI[of _ "nat ((i - c) mod n)"]) (auto simp: mod_simps nat_less_iff)

lemma findNextActiveSeat_cases:
  assumes "0 \<le> c" "c < int (length (players st))"
  obtains (none) "findNextActiveSeat st c = -1" "\<And>i. \<not> active_at st i"
  | (seat) d where "findNextActiveSeat st c = (c + int d) mod int (length (players st))"
      "d < length (players st)" "active_at st (findNextActiveSeat st c)"
      "\<And>j. j < d \<Longrightarrow> \<not> active_at st ((c + int j) mod int (length (players st)))"
proof -
  have "\<not> active_at st i"
    if "\<forall>j<length (players st). \<not> active_at st ((c + int j) mod int (length (players st)))" for i
    using that seat_as_offset[OF assms, of i] active_at_bounds[of st i] by force
  then show ?thesis
    using find_from_cases[OF assms, of "length (players st)"] that
    unfolding findNextActiveSeat_def by metis
qed

lemma findNextActiveSeat_active:
  assumes "0 \<le> c" "c < int (length (players st))" "active_at st i"
  shows "active_at st (findNextActiveSeat st c)"
  using findNextActiveSeat_cases[OF assms(1,2)] assms(3) by metis

lemma findNextActiveSeat_minus_one:
  assumes "0 \<le> c" "c < int (length (players st))"
  shows "findNextActiveSeat st c = -1 \<longleftrightarrow> (\<forall>i. \<not> active_at st i)"
  using findNextActiveSeat_cases[OF assms] active_at_bounds by (metis not_numeral_le_zero neg_0_le_iff_le
      not_one_le_zero)

section \<open>The invariant of a hand\<close>

definition player_ok :: "int \<Rightarrow> table_player \<Rightarrow> bool" where
  "player_ok cb p \<longleftrightarrow> 0 \<le> stack p \<and> 0 \<le> bet p \<and> bet p \<le> cb \<and> bet p \<le> totalContributed p
     \<and> (\<not> hasFolded p \<and> \<not> isAllIn p \<longrightarrow> 0 < stack p)"

definition seats_ok :: "table_state \<Rightarrow> bool" where
  "seats_ok st \<longleftrightarrow> (\<forall>i p. seat st i = Some p \<longrightarrow> player_ok (currentBet st) p)"

definition hand_inv :: "table_state \<Rightarrow> bool" where
  "hand_inv st \<longleftrightarrow> seats_ok st \<and> pot st = contributions st
     \<and> (if phase st \<in> set betting_phases then active_at st (currentTurnSeatIndex st)
        else phase st = SHOWDOWN \<and> currentTurnSeatIndex st = -1)"

lemma seats_ok_map:
  assumes "seats_ok st" and "\<And>p. player_ok (currentBet st) p \<Longrightarrow> player_ok cb (f p)"
    and "players st' = map (map_option f) (players st)" "currentBet st' = cb"
  shows "seats_ok st'"
  using assms unfolding seats_ok_def seat_def slot_def by (auto split: if_splits)

lemma seats_ok_put:
  assumes "seats_ok st" "seat st i = Some q" "player_ok (currentBet st) p"
  shows "seats_ok (put_seat i p st)"
  using assms by (auto simp: seats_ok_def seat_put_seat split: if_splits)

lemma seats_ok_cong:
  "seats_ok a \<Longrightarrow> players b = players a \<Longrightarrow> currentBet b = currentBet a \<Longrightarrow> seats_ok b"
  by (simp add: seats_ok_def seat_def)

lemma mark_folded_ok: "seats_ok st \<Longrightarrow> seats_ok (mark_folded i st)"
  by (auto simp: mark_folded_def player_ok_def seats_ok_def seat_put_seat split: option.splits)

lemma mark_checked_ok: "seats_ok st \<Longrightarrow> seats_ok (mark_checked i st)"
  by (auto simp: mark_checked_def player_ok_def seats_ok_def seat_put_seat split: option.splits)

lemma executeBet_player:
  assumes "seat st i = Some p"
  shows "seat (executeBet i amt st) j =
    (if j = i then Some (p\<lparr>stack := stack p - min (stack p) amt, bet := bet p + min (stack p) amt,
        totalContributed := totalContributed p + min (stack p) amt,
        isAllIn := stack p - min (stack p) amt \<le> 0 \<or> isAllIn p\<rparr>)
     else seat st j)"
  using assms by (simp add: executeBet_def Let_def seat_put_seat)

lemma executeBet_frame [simp, frame_simps]:
  "currentBet (executeBet i amt st) = currentBet st"
  "phase (executeBet i amt st) = phase st"
  "currentTurnSeatIndex (executeBet i amt st) = currentTurnSeatIndex st"
  "smallBlind (executeBet i amt st) = smallBlind st"
  "buttonUser (executeBet i amt st) = buttonUser st"
  "lastRaiseSize (executeBet i amt st) = lastRaiseSize st"
  "length (players (executeBet i amt st)) = length (players st)"
  by (simp_all add: executeBet_def Let_def split: option.splits)

lemma mark_frame [simp, frame_simps]:
  "currentBet (mark_checked i st) = currentBet st"
  "phase (mark_checked i st) = phase st"
  "currentTurnSeatIndex (mark_checked i st) = currentTurnSeatIndex st"
  "lastRaiseSize (mark_checked i st) = lastRaiseSize st"
  "length (players (mark_checked i st)) = length (players st)"
  "currentBet (mark_folded i st) = currentBet st"
  "phase (mark_folded i st) = phase st"
  "currentTurnSeatIndex (mark_folded i st) = currentTurnSeatIndex st"
  "lastRaiseSize (mark_folded i st) = lastRaiseSize st"
  "buttonUser (mark_folded i st) = buttonUser st"
  "buttonUser (mark_checked i st) = buttonUser st"
  "length (players (mark_folded i st)) = length (players st)"
  by (simp_all add: mark_checked_def mark_folded_def split: option.splits)

lemma resetChecked_frame [simp, frame_simps]:
  "currentBet (resetChecked st) = currentBet st"
  "phase (resetChecked st) = phase st"
  "currentTurnSeatIndex (resetChecked st) = currentTurnSeatIndex st"
  "buttonUser (resetChecked st) = buttonUser st"
  "length (players (resetChecked st)) = length (players st)"
  by (simp_all add: resetChecked_def)

lemma handleCall_ok:
  assumes "seats_ok st" "seat st i = Some p"
  shows "seats_ok (handleCall i p st)"
proof -
  have "player_ok (currentBet st) p" using assms by (simp add: seats_ok_def)
  then have "seats_ok (executeBet i (min (currentBet st - bet p) (stack p)) st)"
    using assms by (auto simp: seats_ok_def executeBet_player player_ok_def)
  then show ?thesis by (simp add: handleCall_def Let_def mark_checked_ok)
qed

lemma seats_ok_raise_to:
  assumes "\<forall>j p. seat st j = Some p \<longrightarrow> player_ok (max (currentBet st) b) p"
  shows "currentBet st' = max (currentBet st) b \<Longrightarrow> players st' = players st \<Longrightarrow> seats_ok st'"
  using assms by (simp add: seats_ok_def seat_def)

lemma raise_bet_ok:
  assumes q: "seat st i = Some q" "bet q \<le> totalContributed q"
    and "\<forall>j p. seat st j = Some p \<longrightarrow> player_ok (max (currentBet st) (bet q)) p"
    and "prev = currentBet st"
  shows "seats_ok (raise_bet i prev m st)"
proof (cases "bet q > prev")
  case True
  have base: "seats_ok (st\<lparr>currentBet := bet q\<rparr>)"
    using assms True by (auto simp: seats_ok_def max_def)
  have "seats_ok (resetChecked (st\<lparr>currentBet := bet q\<rparr>))"
    using base by (rule seats_ok_map[where f = "\<lambda>p. if \<not> hasFolded p \<and> \<not> isAllIn p
        then p\<lparr>hasChecked := False\<rparr> else p"]) (auto simp: resetChecked_def player_ok_def)
  then have "seats_ok (resetChecked st\<lparr>lastRaiseSize := r, currentBet := bet q\<rparr>)" for r
    by (rule seats_ok_cong) (simp_all add: resetChecked_def)
  then show ?thesis using True base q by (simp add: raise_bet_def Let_def)
next
  case False
  then show ?thesis using assms by (auto simp: raise_bet_def seats_ok_def max_def)
qed

lemma handleRaise_ok:
  assumes "seats_ok st" "seat st i = Some p" "handleRaise i p n st = Inr st'"
  shows "seats_ok st'"
proof -
  note raise = handleRaise_Inr[OF assms(3)]
  have p: "player_ok (currentBet st) p" using assms by (simp add: seats_ok_def)
  define st1 where "st1 = executeBet i (min (n - bet p) (stack p)) st"
  obtain q where q: "seat st1 i = Some q" and bets: "bet q \<le> totalContributed q"
    and ok: "player_ok (max (currentBet st) (bet q)) q"
    using assms(2) p raise(3,4) by (auto simp: st1_def executeBet_player player_ok_def)
  have "player_ok (max (currentBet st) (bet q)) r" if "seat st1 j = Some r" for j r
  proof (cases "j = i")
    case False
    then have "player_ok (currentBet st) r"
      using that assms(1,2) by (simp add: st1_def executeBet_player seats_ok_def)
    then show ?thesis by (auto simp: player_ok_def)
  qed (use that q ok in auto)
  then have "seats_ok (raise_bet i (currentBet st) (minRaiseSize st) st1)"
    using q bets by (intro raise_bet_ok) (auto simp: st1_def)
  then show ?thesis using raise(1) by (simp add: st1_def mark_checked_ok)
qed

lemma apply_action_ok:
  assumes "seats_ok st" "seat st i = Some p" "apply_action i p a r st = Inr (Some st')"
  shows "seats_ok st'"
  using assms(3)
  by (cases rule: apply_action_cases)
     (use assms(1,2) in \<open>auto intro: handleCall_ok handleRaise_ok mark_folded_ok mark_checked_ok\<close>)

lemma raise_bet_frame [simp, frame_simps]:
  "phase (raise_bet i prev m st) = phase st"
  "currentTurnSeatIndex (raise_bet i prev m st) = currentTurnSeatIndex st"
  "buttonUser (raise_bet i prev m st) = buttonUser st"
  "length (players (raise_bet i prev m st)) = length (players st)"
  by (simp_all add: raise_bet_def Let_def split: option.splits)

lemma handleRaise_frame:
  assumes "handleRaise i p n st = Inr st'"
  shows "phase st' = phase st" "currentTurnSeatIndex st' = currentTurnSeatIndex st"
    "length (players st') = length (players st)" "buttonUser st' = buttonUser st"
  by (simp_all add: handleRaise_Inr(1)[OF assms])

lemma apply_action_frame:
  assumes "apply_action i p a r st = Inr (Some st')"
  shows "phase st' = phase st" "currentTurnSeatIndex st' = currentTurnSeatIndex st"
    "length (players st') = length (players st)" "buttonUser st' = buttonUser st"
  using assms by (cases rule: apply_action_cases; auto simp: handleCall_def Let_def handleRaise_frame)+

section \<open>The phase decision\<close>

lemma active_players_iff:
  "p \<in> set (active_players st) \<longleftrightarrow> (\<exists>i. seat st i = Some p) \<and> \<not> hasFolded p"
  by (auto simp: active_players_def dest: occupant_seat seat_occupant)

text \<open>A round that goes on has someone who still can act.\<close>

lemma not_showdown_active:
  assumes "seats_ok st" "\<not> shouldGoToShowdown st"
  shows "\<exists>i. active_at st i"
proof -
  have "filter (\<lambda>p. \<not> isAllIn p) (active_players st) \<noteq> []"
    using assms(2) by (auto simp: shouldGoToShowdown_def split: if_splits list.splits)
  then obtain p where "p \<in> set (active_players st)" "\<not> isAllIn p"
    by (auto simp: filter_empty_conv)
  then obtain i where "seat st i = Some p" "\<not> hasFolded p"
    by (auto simp: active_players_iff)
  then have "active_at st i"
    using assms(1) \<open>\<not> isAllIn p\<close> by (auto simp: active_at_def active_seat_def seats_ok_def player_ok_def)
  then show ?thesis by blast
qed

lemma next_seat_bounds:
  assumes "0 \<le> i" "i < int (length (players st))"
  shows "0 \<le> next_seat st i" "next_seat st i < int (length (players st))"
proof -
  have "0 < int (length (players st))" using assms by linarith
  then show "0 \<le> next_seat st i" "next_seat st i < int (length (players st))"
    by (simp_all only: next_seat_mod[OF assms] pos_mod_sign pos_mod_bound)
qed

definition button_ok :: "table_state \<Rightarrow> bool" where
  "button_ok st \<longleftrightarrow> 0 \<le> buttonUser st \<and> buttonUser st < int (length (players st))"

lemma clear_round_ok: "player_ok cb p \<Longrightarrow> player_ok 0 (clear_round p)"
  by (simp add: player_ok_def clear_round_def)

lemma nextPhase_cases:
  "phase st = PRE_FLOP \<Longrightarrow> nextPhase st = enter_phase FLOP (calculateSidePots st)"
  "phase st = FLOP \<Longrightarrow> nextPhase st = enter_phase TURN (calculateSidePots st)"
  "phase st = TURN \<Longrightarrow> nextPhase st = enter_phase RIVER (calculateSidePots st)"
  "phase st = RIVER \<Longrightarrow> nextPhase st = enter_phase SHOWDOWN (calculateSidePots st)"
  "phase st = SHOWDOWN \<Longrightarrow> nextPhase st = calculateSidePots st"
  "phase st \<in> {WAITING, HAND_END} \<Longrightarrow> nextPhase st = st"
  by (auto simp: nextPhase_def round_phases_def)

lemma enter_phase_fields:
  "phase (enter_phase ph st) = ph"
  "currentBet (enter_phase ph st) = 0"
  "players (enter_phase ph st) = map (map_option clear_round) (players st)"
  "buttonUser (enter_phase ph st) = buttonUser st"
  "smallBlind (enter_phase ph st) = smallBlind st"
  "pot (enter_phase ph st) = pot st"
  by (simp_all add: enter_phase_def Let_def)

lemma active_at_cong:
  "(\<And>j. map_option active_seat (seat a j) = map_option active_seat (seat b j)) \<Longrightarrow>
   active_at a i = active_at b i"
  unfolding active_at_def by (drule meta_spec[of _ i]) (auto split: option.splits)

lemma find_from_cong:
  assumes "\<And>j. active_at a j = active_at b j" "length (players a) = length (players b)"
  shows "find_from a k c = find_from b k c"
  by (induction k arbitrary: c) (simp_all add: find_from_Suc assms next_seat_def)

lemma active_clear_round [simp]: "active_seat (clear_round p) = active_seat p"
  by (simp add: active_seat_def clear_round_def)

lemma enter_phase_active: "active_at (enter_phase ph st) i = active_at st i"
  by (rule active_at_cong)
     (simp add: seat_def slot_map enter_phase_fields option.map_comp comp_def)

lemma enter_phase_turn:
  assumes "ph \<noteq> SHOWDOWN"
  shows "currentTurnSeatIndex (enter_phase ph st) = findNextActiveSeat st (next_seat st (buttonUser st))"
proof -
  define s2 where "s2 = st\<lparr>phase := ph, players := map (map_option clear_round) (players st),
      currentBet := 0, lastRaiseSize := Some (smallBlind st * 2)\<rparr>"
  have act: "active_at s2 j = active_at st j" for j
    by (rule active_at_cong)
       (simp add: s2_def seat_def slot_map option.map_comp comp_def)
  have len: "length (players s2) = length (players st)" by (simp add: s2_def)
  have "findNextActiveSeat s2 c = findNextActiveSeat st c" for c
    by (simp add: findNextActiveSeat_def len find_from_cong[OF act len])
  moreover have "next_seat s2 (buttonUser s2) = next_seat st (buttonUser st)"
    by (simp add: next_seat_def len) (simp add: s2_def)
  ultimately show ?thesis
    using assms by (simp add: enter_phase_def Let_def s2_def[symmetric])
qed

lemma enter_phase_inv:
  assumes "seats_ok st" "pot st = contributions st" "button_ok st" "active_at st i"
    and "ph \<in> set betting_phases \<or> ph = SHOWDOWN"
  shows "hand_inv (enter_phase ph st)"
proof -
  have "seats_ok (enter_phase ph st)"
    using assms(1) by (rule seats_ok_map[where f = clear_round and cb = 0])
      (simp_all add: clear_round_ok enter_phase_fields)
  moreover have "pot (enter_phase ph st) = contributions (enter_phase ph st)"
  proof -
    have "contributions (enter_phase ph st) = contributions st"
      by (simp add: contributions_def enter_phase_fields sum_slots_map clear_round_def)
    then show ?thesis using assms(2) by (simp add: enter_phase_fields)
  qed
  moreover have "active_at (enter_phase ph st) (currentTurnSeatIndex (enter_phase ph st))" if "ph \<noteq> SHOWDOWN"
  proof -
    have "0 \<le> next_seat st (buttonUser st)" "next_seat st (buttonUser st) < int (length (players st))"
      using assms(3) next_seat_bounds unfolding button_ok_def by blast+
    then show ?thesis
      using that assms(4) by (simp add: enter_phase_active enter_phase_turn findNextActiveSeat_active)
  qed
  moreover have "ph = SHOWDOWN \<Longrightarrow> currentTurnSeatIndex (enter_phase ph st) = -1"
    by (simp add: enter_phase_def Let_def)
  ultimately show ?thesis
    using assms(5) by (auto simp: hand_inv_def enter_phase_fields betting_phases_def)
qed

lemma to_showdown_inv:
  "seats_ok st \<Longrightarrow> pot st = contributions st \<Longrightarrow> hand_inv (to_showdown st)"
  by (auto simp: hand_inv_def to_showdown_def betting_phases_def seats_ok_def seat_def contributions_def)

lemma after_action_inv:
  assumes ok: "seats_ok st" "pot st = contributions st" "button_ok st" "phase st \<in> set betting_phases"
    and turn: "isTurn \<Longrightarrow> 0 \<le> currentTurnSeatIndex st \<and> currentTurnSeatIndex st < int (length (players st))"
      "\<not> isTurn \<Longrightarrow> active_at st (currentTurnSeatIndex st)"
  shows "hand_inv (after_action isTurn st)"
proof (cases "shouldGoToShowdown st")
  case False
  obtain i where i: "active_at st i" using not_showdown_active[OF ok(1) False] by blast
  define t where "t = (if isTurn then getNextTurnSeatIndex st else currentTurnSeatIndex st)"
  have t: "active_at st t"
  proof (cases isTurn)
    case True
    then have "t = findNextActiveSeat st (next_seat st (currentTurnSeatIndex st))"
      by (simp add: t_def getNextTurnSeatIndex_def)
    moreover have "0 \<le> next_seat st (currentTurnSeatIndex st)"
      "next_seat st (currentTurnSeatIndex st) < int (length (players st))"
      using turn(1)[OF True] next_seat_bounds by blast+
    ultimately show ?thesis using findNextActiveSeat_active i by simp
  qed (use turn(2) t_def in auto)
  show ?thesis
  proof (cases "shouldGoToNextPhase st t")
    case True
    then have "after_action isTurn st = nextPhase st"
      using False by (simp add: after_action_def t_def Let_def)
    moreover have "\<exists>ph. nextPhase st = enter_phase ph (calculateSidePots st) \<and> (ph \<in> set betting_phases \<or> ph = SHOWDOWN)"
      using ok(4) nextPhase_cases[of st] by (auto simp: betting_phases_def)
    moreover have "seats_ok (calculateSidePots st)" "button_ok (calculateSidePots st)"
      "pot (calculateSidePots st) = contributions (calculateSidePots st)" "active_at (calculateSidePots st) i"
      using ok i by (simp_all add: seats_ok_def button_ok_def seat_def contributions_def active_at_def)
    ultimately show ?thesis using enter_phase_inv by auto
  next
    case no: False
    then have "after_action isTurn st = st\<lparr>currentTurnSeatIndex := t\<rparr>"
      using False by (simp add: after_action_def t_def Let_def)
    then show ?thesis using ok t by (auto simp: hand_inv_def seats_ok_def active_at_def)
  qed
qed (simp add: after_action_def to_showdown_inv ok)


section \<open>Every action keeps the invariant\<close>

definition engine_inv :: "table_state \<Rightarrow> bool" where
  "engine_inv st \<longleftrightarrow> hand_inv st \<and> button_ok st"

lemma nextPhase_button: "button_ok (nextPhase st) = button_ok st"
  by (auto simp: nextPhase_def button_ok_def enter_phase_fields Let_def)

lemma after_action_button: "button_ok (after_action b st) = button_ok st"
  by (auto simp: after_action_def Let_def nextPhase_button) (simp_all add: to_showdown_def button_ok_def)

lemma mark_folded_other:
  assumes "i \<noteq> j"
  shows "seat (mark_folded i st) j = seat st j"
  using assms by (auto simp: mark_folded_def seat_put_seat split: option.splits)

lemma act_cases:
  obtains (rejected) e where "act i a r st = (Inl e, st)"
  | (ignored) "act i a r st = (Inr False, st)"
  | (acted) p st' where "seat st i = Some p" "phase st \<in> set betting_phases"
      "apply_action i p a r st = Inr (Some st')"
      "act i a r st = (Inr True, after_action (currentTurnSeatIndex st = i) st')"
proof (cases "seat st i")
  case None
  then show ?thesis using rejected by (simp add: act_def)
next
  case (Some p)
  show ?thesis
  proof (cases "phase st \<in> set betting_phases")
    case True
    show ?thesis
    proof (cases "apply_action i p a r st")
      case (Inl e)
      then show ?thesis using rejected Some True by (simp add: act_def)
    next
      case (Inr x)
      then show ?thesis using ignored acted Some True by (cases x) (simp_all add: act_def)
    qed
  qed (use rejected Some in \<open>simp add: act_def\<close>)
qed

lemma off_turn_action:
  assumes "apply_action i p a r st = Inr (Some st')" "currentTurnSeatIndex st \<noteq> i"
  shows "st' = mark_folded i st"
  using assms by (auto simp: apply_action_def split: if_splits)

lemma act_inv:
  assumes "engine_inv st"
  shows "engine_inv (snd (act i a r st))"
proof (cases rule: act_cases[of i a r st])
  case (acted p st')
  have inv: "seats_ok st" "pot st = contributions st" "active_at st (currentTurnSeatIndex st)"
    "button_ok st"
    using assms acted(2) by (auto simp: engine_inv_def hand_inv_def)
  note fr = apply_action_frame[OF acted(3)]
  have "hand_inv (after_action (currentTurnSeatIndex st = i) st')"
  proof (rule after_action_inv)
    show "seats_ok st'" by (rule apply_action_ok[OF inv(1) acted(1,3)])
    show "pot st' = contributions st'"
      using chip_neutral_pot[OF apply_action_neutral[OF acted(3)] inv(2)] .
    show "button_ok st'" "phase st' \<in> set betting_phases"
      using inv(4) acted(2) by (simp_all add: button_ok_def fr)
    show "0 \<le> currentTurnSeatIndex st' \<and> currentTurnSeatIndex st' < int (length (players st'))"
      using active_at_bounds[OF inv(3)] by (simp add: fr)
    show "active_at st' (currentTurnSeatIndex st')" if "currentTurnSeatIndex st \<noteq> i"
      using inv(3) that off_turn_action[OF acted(3) that]
      by (simp add: active_at_def mark_folded_other)
  qed
  moreover have "button_ok st'" using inv(4) by (simp add: button_ok_def fr)
  ultimately show ?thesis using acted(4) by (simp add: engine_inv_def after_action_button)
qed (use assms in simp_all)

section \<open>The start of a hand establishes it\<close>

definition ready_player :: "table_player \<Rightarrow> bool" where
  "ready_player p \<longleftrightarrow> 0 < stack p \<and> bet p = 0 \<and> totalContributed p = 0
     \<and> \<not> hasFolded p \<and> \<not> isAllIn p"

definition table_ready :: "table_state \<Rightarrow> bool" where
  "table_ready st \<longleftrightarrow> (\<forall>i p. seat st i = Some p \<longrightarrow> ready_player p) \<and> pot st = 0
     \<and> 0 < smallBlind st \<and> 0 \<le> ante st \<and> button_ok st"

definition antes_ok :: "table_state \<Rightarrow> bool" where
  "antes_ok st \<longleftrightarrow> (\<forall>i p. seat st i = Some p \<longrightarrow> 0 \<le> stack p \<and> bet p = 0 \<and> 0 \<le> totalContributed p
     \<and> (\<not> hasFolded p \<and> \<not> isAllIn p \<longrightarrow> 0 < stack p))"

lemma pay_ante_seat_ok:
  assumes "0 \<le> amt" "antes_ok st"
  shows "antes_ok (pay_ante_seat amt i st)"
proof (cases "seat st i")
  case (Some p)
  then have p: "0 \<le> stack p" "0 \<le> totalContributed p"
    using assms(2) by (auto simp: antes_ok_def)
  show ?thesis
    using assms Some p unfolding antes_ok_def pay_ante_seat_def
    by (auto simp: executeBet_player seat_put_seat split: if_splits)
qed (use assms in \<open>simp add: pay_ante_seat_def\<close>)

lemma pay_ante_seat_frame [simp, frame_simps]:
  "smallBlind (pay_ante_seat amt i st) = smallBlind st"
  "buttonUser (pay_ante_seat amt i st) = buttonUser st"
  "length (players (pay_ante_seat amt i st)) = length (players st)"
  by (auto simp: pay_ante_seat_def Let_def split: option.splits)

lemma payAnte_frame [simp, frame_simps]:
  "smallBlind (payAnte amt st) = smallBlind st"
  "buttonUser (payAnte amt st) = buttonUser st"
  "length (players (payAnte amt st)) = length (players st)"
proof -
  have "smallBlind (fold (pay_ante_seat amt) xs s) = smallBlind s \<and>
        buttonUser (fold (pay_ante_seat amt) xs s) = buttonUser s \<and>
        length (players (fold (pay_ante_seat amt) xs s)) = length (players s)" for xs s
    by (induction xs arbitrary: s) auto
  then show "smallBlind (payAnte amt st) = smallBlind st" "buttonUser (payAnte amt st) = buttonUser st"
    "length (players (payAnte amt st)) = length (players st)" by (simp_all add: payAnte_def)
qed

lemma payAnte_ok: "0 \<le> amt \<Longrightarrow> antes_ok st \<Longrightarrow> antes_ok (payAnte amt st)"
proof -
  assume "0 \<le> amt" "antes_ok st"
  then have "antes_ok (fold (pay_ante_seat amt) xs st)" for xs
    by (induction xs arbitrary: st) (auto intro: pay_ante_seat_ok)
  then show ?thesis by (simp add: payAnte_def)
qed

lemma payBlind_ok:
  assumes "antes_ok st" "sb \<noteq> bb" "0 \<le> amt"
  shows "\<forall>i p. seat (payBlind sb bb amt st) i = Some p \<longrightarrow> player_ok (amt * 2) p"
proof -
  have one: "\<forall>i p. seat (executeBet sb amt st) i = Some p \<longrightarrow>
      player_ok (amt * 2) p \<and> (i \<noteq> sb \<longrightarrow> bet p = 0)"
  proof (cases "seat st sb")
    case None
    then show ?thesis using assms
      by (auto simp: executeBet_def antes_ok_def player_ok_def)
  next
    case (Some q)
    then show ?thesis using assms
      by (auto simp: executeBet_player antes_ok_def player_ok_def)
  qed
  show ?thesis
  proof (cases "seat (executeBet sb amt st) bb")
    case None
    then show ?thesis using one by (auto simp: payBlind_def executeBet_def)
  next
    case (Some q)
    then have "player_ok (amt * 2) q" "bet q = 0" using one assms(2) by auto
    then show ?thesis using one Some assms(3)
      by (auto simp: payBlind_def executeBet_player player_ok_def)
  qed
qed

lemma deal_hand_inv:
  assumes ready: "antes_ok st" "pot st = contributions st" "0 < smallBlind st" "0 \<le> ante st"
    and seats: "sb \<noteq> bb" "0 \<le> btn" "btn < int (length (players st))"
      "0 \<le> bb" "bb < int (length (players st))"
  shows "engine_inv (deal_hand btn sb bb st)"
proof -
  define st1 where "st1 = st\<lparr>buttonUser := btn\<rparr>"
  define st2 where "st2 = (if ante st1 > 0 then payAnte (ante st1) st1 else st1)"
  define st3 where "st3 = payBlind sb bb (smallBlind st2) st2"
  define st4 where "st4 = st3\<lparr>currentBet := smallBlind st3 * 2, lastRaiseSize := Some (smallBlind st3 * 2)\<rparr>"
  define st5 where "st5 = st4\<lparr>currentTurnSeatIndex := findNextActiveSeat st4 (next_seat st4 bb),
                               phase := PRE_FLOP\<rparr>"
  have deal: "deal_hand btn sb bb st = (if shouldGoToShowdown st5 then to_showdown st5 else st5)"
    by (simp only: deal_hand_def Let_def st1_def st2_def st3_def st4_def st5_def)
  have sb2: "smallBlind st2 = smallBlind st" by (simp add: st2_def st1_def)
  have sb3: "smallBlind st3 = smallBlind st" by (simp add: st3_def payBlind_def sb2)
  have "antes_ok st1" using ready(1) by (simp add: antes_ok_def st1_def)
  then have "antes_ok st2" by (simp add: st2_def payAnte_ok)
  then have "seats_ok st4"
    using payBlind_ok[of st2 sb bb "smallBlind st"] seats(1) ready(3)
    by (simp add: seats_ok_def st4_def sb3) (simp add: st3_def sb2)
  then have ok5: "seats_ok st5" by (rule seats_ok_cong) (simp_all add: st5_def)
  have "chip_neutral st st2"
  proof -
    have "chip_neutral st st1" by (rule field_neutral) (simp_all add: st1_def)
    then show ?thesis using chip_neutral_trans payAnte_neutral by (auto simp: st2_def)
  qed
  then have "chip_neutral st st3" unfolding st3_def using chip_neutral_trans payBlind_neutral by blast
  moreover have "chip_neutral st3 st5" by (rule field_neutral) (simp_all add: st5_def st4_def)
  ultimately have pot5: "pot st5 = contributions st5"
    using chip_neutral_trans chip_neutral_pot ready(2) by blast
  have len: "length (players st4) = length (players st)"
    by (simp add: st4_def st3_def payBlind_def st2_def st1_def)
  have button: "button_ok st5" using seats len by (simp add: button_ok_def st5_def)
      (simp add: st4_def st3_def payBlind_def st2_def st1_def)
  show ?thesis
  proof (cases "shouldGoToShowdown st5")
    case True
    then show ?thesis using to_showdown_inv[OF ok5 pot5] button deal
      by (simp add: engine_inv_def) (simp add: to_showdown_def button_ok_def)
  next
    case False
    obtain i where "active_at st5 i" using not_showdown_active[OF ok5 False] by blast
    then have "active_at st4 i" by (simp add: st5_def active_at_def)
    then have "active_at st4 (findNextActiveSeat st4 (next_seat st4 bb))"
      using next_seat_bounds[of bb st4] seats len by (auto intro: findNextActiveSeat_active)
    then have "active_at st5 (currentTurnSeatIndex st5)" by (simp add: st5_def active_at_def)
    then show ?thesis using ok5 pot5 button deal False
      by (simp add: engine_inv_def hand_inv_def betting_phases_def) (simp add: st5_def)
  qed
qed

lemma next_active_other:
  assumes "0 \<le> i" "i < int (length (players st))" "active_at st j" "j \<noteq> i"
  shows "findNextActiveSeat st (next_seat st i) \<noteq> i"
proof
  let ?n = "int (length (players st))"
  let ?c = "next_seat st i"
  assume eq: "findNextActiveSeat st ?c = i"
  have c: "0 \<le> ?c" "?c < ?n" using next_seat_bounds[OF assms(1,2)] .
  show False
    using c
  proof (cases rule: findNextActiveSeat_cases)
    case none
    then show False using assms(3) by simp
  next
    case (seat d)
    have "(i + (1 + int d)) mod ?n = i mod ?n"
      using seat(1) eq assms(1,2) by (simp add: next_seat_mod[OF assms(1,2)] mod_simps algebra_simps)
    then have "?n dvd (1 + int d)"
      by (metis add_diff_cancel_left' mod_eq_dvd_iff)
    then have "d = length (players st) - 1"
      using seat(2) zdvd_imp_le[of ?n "1 + int d"] by auto
    moreover obtain k where k: "k < nat ?n" "(?c + int k) mod ?n = j"
      using seat_as_offset[OF c] active_at_bounds[OF assms(3)] by blast
    moreover have "k \<noteq> d" using k(2) seat(1) eq assms(4) by auto
    ultimately have "k < d" by arith
    then show False using seat(4)[of k] k(2) assms(3) by simp
  qed
qed

lemma two_active:
  assumes "2 \<le> length (filter P (occupants xs))"
  shows "\<exists>j p. j \<noteq> i \<and> slot xs j = Some p \<and> P p"
  using assms
proof (induction xs arbitrary: i)
  case (Cons s xs)
  have shift: "slot (s # xs) (k + 1) = slot xs k" if "slot xs k \<noteq> None" for k
  proof -
    have "0 \<le> k" using that by (simp add: slot_def split: if_splits)
    then have "nat (k + 1) = Suc (nat k)" by simp
    then show ?thesis using \<open>0 \<le> k\<close> by (simp add: slot_def)
  qed
  show ?case
  proof (cases "2 \<le> length (filter P (occupants xs))")
    case True
    then obtain j p where "j \<noteq> i - 1" "slot xs j = Some p" "P p" using Cons.IH by blast
    then show ?thesis using shift[of j] by (intro exI[of _ "j + 1"] exI[of _ p]) auto
  next
    case False
    then obtain q where q: "s = Some q" "P q" "1 \<le> length (filter P (occupants xs))"
      using Cons.prems by (auto split: option.splits if_splits)
    then have "filter P (occupants xs) \<noteq> []" by auto
    then obtain p where p: "p \<in> set (occupants xs)" "P p" by (auto simp: filter_empty_conv)
    obtain k where "slot xs k = Some p" using occupants_slot[OF p(1)] by (rule exE)
    with p(2) have k: "slot xs k = Some p" "P p" by simp_all
    have next_k: "slot (s # xs) (k + 1) = Some p" using k(1) shift[of k] by simp
    have k0: "0 \<le> k" using slot_SomeD[OF k(1)] by simp
    have here: "slot (s # xs) 0 = Some q" using q(1) by (simp add: slot_def)
    show ?thesis
    proof (cases "i = 0")
      case True
      then have "k + 1 \<noteq> i" using k0 by simp
      then show ?thesis using next_k k(2) by blast
    next
      case False
      then have "0 \<noteq> i" by simp
      then show ?thesis using here q(2) by blast
    qed
  qed
qed simp

lemma startPreFlop_inv:
  assumes "table_ready st" "startPreFlop st = Inr st'"
  shows "engine_inv st'"
proof -
  obtain btn sb bb where st': "st' = deal_hand btn sb bb st"
    and btn: "btn = findNextActiveSeat st (next_seat st (buttonUser st))" "btn \<noteq> -1"
    and sb: "sb \<noteq> -1" "sb = btn \<or> sb = findNextActiveSeat st (next_seat st btn)"
    and bb: "bb \<noteq> -1" "bb = findNextActiveSeat st (next_seat st sb)"
    and two: "2 \<le> length (filter (\<lambda>p. \<not> hasFolded p \<and> stack p > 0) (occupants (players st)))"
    by (rule startPreFlop_Inr[OF assms(2)])
  have ready: "ready_player p" if "seat st i = Some p" for i p
    using assms(1) that by (simp add: table_ready_def)
  have other: "\<exists>j. j \<noteq> i \<and> active_at st j" for i
    using two_active[OF two, of i] ready
    by (fastforce simp: active_at_def active_seat_def seat_def ready_player_def)
  have found: "active_at st (findNextActiveSeat st (next_seat st i))"
    if "0 \<le> i" "i < int (length (players st))" for i
    using findNextActiveSeat_active next_seat_bounds[OF that] other by blast
  have btn_act: "active_at st btn" using found btn assms(1) by (simp add: table_ready_def button_ok_def)
  have sb_act: "active_at st sb" using sb(2) found btn_act active_at_bounds by blast
  have bb_act: "active_at st bb" using bb(2) found sb_act active_at_bounds by blast
  have "sb \<noteq> bb"
    using next_active_other other bb(2) active_at_bounds[OF sb_act] by metis
  moreover have "antes_ok st" using ready by (fastforce simp: antes_ok_def ready_player_def)
  moreover have "contributions st = 0"
  proof -
    have "\<forall>p \<in> set (occupants (players st)). totalContributed p = 0"
      using ready occupant_seat by (fastforce simp: ready_player_def)
    then show ?thesis
      unfolding contributions_def sum_slots_def by (rule sum_list_all_zero)
  qed
  ultimately show ?thesis
    unfolding st' using assms(1) active_at_bounds[OF btn_act] active_at_bounds[OF bb_act]
    by (intro deal_hand_inv) (auto simp: table_ready_def)
qed

end
