(* ===== verification/EngineProgress.thy ===== *)
theory EngineProgress
  imports EngineRounds
begin

text \<open>
  No hand is stuck. \<open>scheduleTurnTimeout\<close> of the service acts \<open>TIME_OUT\<close> for the player on turn
  when the clock runs out; iterating exactly that step reaches the showdown from every state of a
  running hand. The measure is lexicographic: betting rounds left, players still in the hand,
  players that still owe an action, and the seats between the turn and the next of those.
\<close>

definition timeout_step :: "table_state \<Rightarrow> table_state" where
  "timeout_step st = snd (act (currentTurnSeatIndex st) TIME_OUT None st)"

definition owes_action :: "int \<Rightarrow> table_player \<Rightarrow> bool" where
  "owes_action cb p \<longleftrightarrow> \<not> hasFolded p \<and> \<not> isAllIn p \<and> \<not> (hasChecked p \<and> bet p = cb)"

definition live_count :: "table_state \<Rightarrow> nat" where
  "live_count st = nat (sum_slots (\<lambda>p. of_bool (\<not> hasFolded p)) (players st))"

definition owing_count :: "table_state \<Rightarrow> nat" where
  "owing_count st = nat (sum_slots (\<lambda>p. of_bool (owes_action (currentBet st) p)) (players st))"

definition owing_at :: "table_state \<Rightarrow> int \<Rightarrow> bool" where
  "owing_at st i \<longleftrightarrow> (case seat st i of None \<Rightarrow> False | Some p \<Rightarrow> owes_action (currentBet st) p)"

definition turn_gap :: "table_state \<Rightarrow> nat" where
  "turn_gap st = (LEAST k. owing_at st ((currentTurnSeatIndex st + int k) mod int (length (players st))))"

definition rounds_left :: "table_state \<Rightarrow> nat" where
  "rounds_left st = 6 - phase_number (phase st)"

section \<open>Counting players\<close>

lemma of_bool_drop:
  fixes xs :: "'a option list"
  assumes "slot xs i = Some p" "P p" "\<not> P q"
  shows "nat (sum_slots (\<lambda>p. of_bool (P p)) (set_slot xs i q)) < nat (sum_slots (\<lambda>p. of_bool (P p)) xs)"
proof -
  let ?f = "\<lambda>p. of_bool (P p) :: int"
  have "0 \<le> sum_slots ?f (set_slot xs i q)" by (rule sum_slots_nonneg) simp
  moreover have "sum_slots ?f (set_slot xs i q) = sum_slots ?f xs - 1"
    using assms by (simp add: sum_slots_set_slot)
  ultimately show ?thesis by linarith
qed

lemma of_bool_same:
  assumes "slot xs i = Some p" "P p = P q"
  shows "sum_slots (\<lambda>p. of_bool (P p) :: int) (set_slot xs i q) = sum_slots (\<lambda>p. of_bool (P p)) xs"
  using assms by (simp add: sum_slots_set_slot)

lemma mark_folded_live:
  assumes "seat st i = Some p" "\<not> hasFolded p"
  shows "live_count (mark_folded i st) < live_count st"
  using assms of_bool_drop[of "players st" i p "\<lambda>p. \<not> hasFolded p" "p\<lparr>hasFolded := True\<rparr>"]
  by (simp add: live_count_def mark_folded_def put_seat_def seat_def)

lemma mark_checked_live: "live_count (mark_checked i st) = live_count st"
  using of_bool_same[of "players st" i _ "\<lambda>p. \<not> hasFolded p"]
  by (auto simp: live_count_def mark_checked_def put_seat_def seat_def split: option.splits)

lemma mark_checked_owing:
  assumes "seat st i = Some p" "owes_action (currentBet st) p" "bet p = currentBet st"
  shows "owing_count (mark_checked i st) < owing_count st"
  using assms of_bool_drop[of "players st" i p "owes_action (currentBet st)" "p\<lparr>hasChecked := True\<rparr>"]
  by (simp add: owing_count_def mark_checked_def put_seat_def seat_def owes_action_def)

lemma mark_checked_idle:
  assumes "seat st i = Some p" "hasChecked p"
  shows "mark_checked i st = st"
proof -
  have "p\<lparr>hasChecked := True\<rparr> = p" using assms(2) by simp
  moreover have "set_slot (players st) i p = players st"
    using assms(1) by (auto simp: set_slot_def seat_def slot_def split: if_splits)
      (metis list_update_id)
  ultimately show ?thesis using assms(1) by (simp add: mark_checked_def put_seat_def)
qed

section \<open>Who is next\<close>

lemma owing_at_turn [simp]: "owing_at (st\<lparr>currentTurnSeatIndex := t\<rparr>) i = owing_at st i"
  by (simp add: owing_at_def split: option.splits)

lemma owing_active: "seats_ok st \<Longrightarrow> owing_at st i \<Longrightarrow> active_at st i"
  by (auto simp: owing_at_def active_at_def owes_action_def active_seat_def seats_ok_def player_ok_def
           split: option.splits)

lemma round_open_owing:
  assumes "\<not> shouldGoToNextPhase st t" "seats_ok st"
  shows "\<exists>i. owing_at st i"
proof -
  obtain p where "p \<in> set (active_players st)" "owes_action (currentBet st) p"
    using assms(1)
    by (auto simp: shouldGoToNextPhase_def Let_def list_all_iff owes_action_def active_players_def)
  then obtain i where "seat st i = Some p" by (auto simp: active_players_iff)
  with \<open>owes_action (currentBet st) p\<close> show ?thesis by (intro exI[of _ i]) (simp add: owing_at_def)
qed

lemma turn_gap_moves:
  assumes ok: "seats_ok st" "active_at st (currentTurnSeatIndex st)"
    and idle: "\<not> owing_at st (currentTurnSeatIndex st)" and ex_owing: "\<exists>i. owing_at st i"
  shows "turn_gap (st\<lparr>currentTurnSeatIndex := getNextTurnSeatIndex st\<rparr>) < turn_gap st"
proof -
  let ?n = "int (length (players st))" and ?t = "currentTurnSeatIndex st"
  have t: "0 \<le> ?t" "?t < ?n" using active_at_bounds[OF ok(2)] by auto
  obtain j where j: "owing_at st j" using ex_owing by blast
  have "\<exists>k. k < nat ?n \<and> (?t + int k) mod ?n = j"
    using seat_as_offset[OF t] active_at_bounds[OF owing_active[OF ok(1) j]] by blast
  then have ex: "\<exists>k. owing_at st ((?t + int k) mod ?n)" using j by blast
  define g where "g = turn_gap st"
  have g: "owing_at st ((?t + int g) mod ?n)"
    unfolding g_def turn_gap_def by (rule LeastI_ex[OF ex])
  have "g \<noteq> 0" using g idle t by (metis add.right_neutral mod_pos_pos_trivial of_nat_0)
  then obtain h where h: "g = Suc h" by (cases g) auto
  let ?c = "next_seat st ?t"
  have c: "0 \<le> ?c" "?c < ?n" using next_seat_bounds[OF t] .
  have shift: "(?c + int m) mod ?n = (?t + int (Suc m)) mod ?n" for m
    by (simp add: next_seat_mod[OF t] mod_simps algebra_simps)
  have owing_h: "active_at st ((?c + int h) mod ?n)" using g h shift owing_active[OF ok(1)] by metis
  from c show ?thesis
  proof (cases rule: findNextActiveSeat_cases)
    case none
    then show ?thesis using owing_h by blast
  next
    case (seat d)
    have "\<not> h < d" using seat(4) owing_h by blast
    then have "d \<le> h" by simp
    let ?st' = "st\<lparr>currentTurnSeatIndex := getNextTurnSeatIndex st\<rparr>"
    have turn': "getNextTurnSeatIndex st = (?c + int d) mod ?n"
      by (simp add: getNextTurnSeatIndex_def seat(1))
    have "((?c + int d) mod ?n + int (h - d)) mod ?n = (?c + int h) mod ?n"
      using \<open>d \<le> h\<close> by (simp add: mod_simps of_nat_diff)
    then have "owing_at ?st' ((currentTurnSeatIndex ?st' + int (h - d)) mod int (length (players ?st')))"
      using g h shift turn' by simp
    then have "turn_gap ?st' \<le> h - d" unfolding turn_gap_def by (rule Least_le)
    then show ?thesis using h g_def by simp
  qed
qed

section \<open>One timeout\<close>

definition hand_order :: "(table_state \<times> table_state) set" where
  "hand_order = measures [rounds_left, live_count, owing_count, turn_gap]"

lemma timeout_step_acts:
  assumes "engine_inv st" "phase st \<in> set betting_phases"
  obtains p where "seat st (currentTurnSeatIndex st) = Some p" "active_seat p"
    "player_ok (currentBet st) p"
    "timeout_step st = after_action True
       (if bet p < currentBet st then mark_folded (currentTurnSeatIndex st) st
        else mark_checked (currentTurnSeatIndex st) st)"
proof -
  have "active_at st (currentTurnSeatIndex st)"
    using assms by (simp add: engine_inv_def hand_inv_def)
  then obtain p where p: "seat st (currentTurnSeatIndex st) = Some p" "active_seat p"
    by (auto simp: active_at_def split: option.splits)
  moreover have "player_ok (currentBet st) p"
    using assms p(1) by (auto simp: engine_inv_def hand_inv_def seats_ok_def)
  ultimately show ?thesis using assms(2)
    by (intro that) (auto simp: timeout_step_def act_def apply_action_def active_seat_def)
qed

lemma nextPhase_progress:
  assumes "phase st \<in> set betting_phases"
  shows "phase (nextPhase st) = SHOWDOWN \<or> rounds_left (nextPhase st) < rounds_left st"
  using assms by (auto simp: betting_phases_def nextPhase_cases enter_phase_fields rounds_left_def)

lemma after_action_progress:
  assumes "phase st \<in> set betting_phases" "phase (after_action True st) \<noteq> SHOWDOWN"
  shows "rounds_left (after_action True st) < rounds_left st \<or>
    (after_action True st = st\<lparr>currentTurnSeatIndex := getNextTurnSeatIndex st\<rparr>
      \<and> \<not> shouldGoToNextPhase st (getNextTurnSeatIndex st))"
  using assms nextPhase_progress[OF assms(1)]
  by (auto simp: after_action_def Let_def to_showdown_def split: if_splits)

lemma turn_update_counts [simp]:
  "live_count (st\<lparr>currentTurnSeatIndex := t\<rparr>) = live_count st"
  "owing_count (st\<lparr>currentTurnSeatIndex := t\<rparr>) = owing_count st"
  "rounds_left (st\<lparr>currentTurnSeatIndex := t\<rparr>) = rounds_left st"
  by (simp_all add: live_count_def owing_count_def rounds_left_def)

lemma timeout_decreases:
  assumes inv: "engine_inv st" "phase st \<in> set betting_phases" "phase (timeout_step st) \<noteq> SHOWDOWN"
  shows "(timeout_step st, st) \<in> hand_order"
proof -
  let ?t = "currentTurnSeatIndex st"
  obtain p where p: "seat st ?t = Some p" "active_seat p" "player_ok (currentBet st) p"
    and step: "timeout_step st = after_action True
       (if bet p < currentBet st then mark_folded ?t st else mark_checked ?t st)"
    using inv(1,2) by (rule timeout_step_acts)
  define st1 where "st1 = (if bet p < currentBet st then mark_folded ?t st else mark_checked ?t st)"
  have st1: "phase st1 = phase st" "rounds_left st1 = rounds_left st"
    by (simp_all add: st1_def rounds_left_def)
  from after_action_progress[of st1] consider
      "rounds_left (timeout_step st) < rounds_left st"
    | "timeout_step st = st1\<lparr>currentTurnSeatIndex := getNextTurnSeatIndex st1\<rparr>"
      "\<not> shouldGoToNextPhase st1 (getNextTurnSeatIndex st1)"
    using inv st1 step st1_def by auto
  then show ?thesis
  proof cases
    case 1
    then show ?thesis by (simp add: hand_order_def)
  next
    case 2
    show ?thesis
    proof (cases "bet p < currentBet st")
      case True
      then have "live_count st1 < live_count st"
        using mark_folded_live[OF p(1)] p(2) by (simp add: st1_def active_seat_def)
      then show ?thesis using 2 st1 by (simp add: hand_order_def)
    next
      case False
      then have eq: "bet p = currentBet st" using p(3) by (simp add: player_ok_def)
      have st1_c: "st1 = mark_checked ?t st" using False by (simp add: st1_def)
      show ?thesis
      proof (cases "hasChecked p")
        case False
        then have "owing_count st1 < owing_count st"
          using mark_checked_owing[OF p(1) _ eq] p(2) st1_c
          by (simp add: owes_action_def active_seat_def)
        then show ?thesis using 2 st1 st1_c by (simp add: hand_order_def mark_checked_live)
      next
        case True
        have "st1 = st" using mark_checked_idle[OF p(1) True] st1_c by simp
        moreover have "\<not> owing_at st ?t" using p(1) eq True by (simp add: owing_at_def owes_action_def)
        moreover have "seats_ok st" "active_at st ?t"
          using inv by (simp_all add: engine_inv_def hand_inv_def)
        ultimately have "turn_gap (timeout_step st) < turn_gap st"
          using turn_gap_moves round_open_owing 2 by metis
        then show ?thesis using 2 \<open>st1 = st\<close> by (simp add: hand_order_def)
      qed
    qed
  qed
qed

lemma wf_hand_order: "wf hand_order"
  by (simp add: hand_order_def)

end
