(* ===== verification/EngineProps.thy ===== *)
theory EngineProps
  imports EngineProgress
begin

text \<open>
  What the hand engine promises to the services that call it: whole runs of actions keep the
  invariant and the chips, every hand can be finished, the settlement pays out exactly what was
  put in, and nobody wins more than was contributed against them.
\<close>

section \<open>Runs of actions\<close>

type_synonym action_event = "int \<times> action_type \<times> js_number option"

definition act_step :: "table_state \<Rightarrow> action_event \<Rightarrow> table_state" where
  "act_step st e = (case e of (i, a, r) \<Rightarrow> snd (act i a r st))"

interpretation hand_run: conserved_machine act_step engine_inv total_chips
proof
  fix st e assume "engine_inv st"
  then show "engine_inv (act_step st e)" by (cases e) (simp add: act_step_def act_inv)
next
  fix st e show "total_chips (act_step st e) = total_chips st"
    by (cases e) (simp add: act_step_def chip_neutral_total act_neutral)
qed

text \<open>The counterpart of one request is one event, so a timed-out hand is a run too.\<close>

lemma timeout_iterates_inv: "engine_inv st \<Longrightarrow> engine_inv ((timeout_step ^^ n) st)"
  by (induction n) (simp_all add: timeout_step_def act_inv)

lemma engine_inv_phase: "engine_inv st \<Longrightarrow> phase st \<in> set betting_phases \<or> phase st = SHOWDOWN"
  by (auto simp: engine_inv_def hand_inv_def split: if_splits)

lemma timeouts_end: "engine_inv st \<Longrightarrow> \<exists>n. phase ((timeout_step ^^ n) st) = SHOWDOWN"
proof (induction st rule: wf_induct_rule[OF wf_hand_order])
  case (1 st)
  show ?case
  proof (cases "phase st = SHOWDOWN \<or> phase (timeout_step st) = SHOWDOWN")
    case True
    then show ?thesis by (metis funpow_0 funpow_simps_right(1,2) o_apply id_apply)
  next
    case False
    then have "(timeout_step st, st) \<in> hand_order"
      using timeout_decreases 1 engine_inv_phase by blast
    moreover have "engine_inv (timeout_step st)" using 1 by (simp add: timeout_step_def act_inv)
    ultimately obtain n where "phase ((timeout_step ^^ n) (timeout_step st)) = SHOWDOWN"
      using 1 by blast
    then have "phase ((timeout_step ^^ Suc n) st) = SHOWDOWN" by (simp only: funpow_Suc_right o_apply)
    then show ?thesis by blast
  qed
qed

section \<open>Refund of uncalled chips\<close>

definition sorted_contributions :: "table_state \<Rightarrow> int list" where
  "sorted_contributions st = rev (sort (map totalContributed (contributors st)))"

lemma refund_cases:
  obtains (same) "refundUncalledBets st = st"
  | (refund) i p s rest where "seat st i = Some p"
      "totalContributed p > s" "s = 0 \<and> contributors st = [p] \<or> 0 < s"
      "refundUncalledBets st = put_seat i (p\<lparr>stack := stack p + (totalContributed p - s),
           totalContributed := s\<rparr>) (st\<lparr>pot := pot st - (totalContributed p - s)\<rparr>)"
      "sorted_contributions st = totalContributed p # rest" "s = (case rest of [] \<Rightarrow> 0 | x # _ \<Rightarrow> x)"
proof (cases "refundUncalledBets st = st")
  case False
  define cs where "cs = contributors st"
  define sorted_cs where "sorted_cs = rev (sort (map totalContributed cs))"
  obtain h rest where hr: "sorted_cs = h # rest"
    using False by (cases sorted_cs) (simp_all add: refundUncalledBets_def Let_def sorted_cs_def cs_def)
  define s where "s = (case rest of [] \<Rightarrow> 0 | s # _ \<Rightarrow> s)"
  define i where "i = find_index (\<lambda>x. case x of None \<Rightarrow> False
      | Some p \<Rightarrow> totalContributed p > 0 \<and> totalContributed p = h) (players st)"
  have R: "refundUncalledBets st = (if h > s then case seat st i of None \<Rightarrow> st
      | Some p \<Rightarrow> put_seat i (p\<lparr>stack := stack p + (h - s), totalContributed := totalContributed p - (h - s)\<rparr>)
          (st\<lparr>pot := pot st - (h - s)\<rparr>) else st)"
    using hr unfolding refundUncalledBets_def sorted_cs_def cs_def s_def i_def
    by (simp add: Let_def split: option.splits)
  then obtain p where p: "seat st i = Some p" "h > s"
    using False by (auto split: option.splits if_splits)
  have "i \<noteq> -1" using p(1) by (auto simp: seat_def slot_def split: if_splits)
  then have "totalContributed p = h"
    using p(1) find_index_nth[of _ "players st"] unfolding i_def
    by (fastforce simp: seat_def slot_def i_def split: if_splits)
  have sorted_set: "set sorted_cs = totalContributed ` set cs" and len: "length sorted_cs = length cs"
    by (simp_all add: sorted_cs_def)
  have "s = 0 \<and> contributors st = [p] \<or> 0 < s"
  proof (cases rest)
    case Nil
    then obtain q where q: "cs = [q]" using len hr by (cases cs) auto
    have "h \<in> totalContributed ` set cs" using sorted_set hr by auto
    then have "0 < h" using contributors_pos[of st] by (auto simp: cs_def)
    then have "p \<in> set cs"
      using seat_occupant[OF p(1)] \<open>totalContributed p = h\<close> by (simp add: cs_def contributors_def)
    then show ?thesis using q Nil by (simp add: s_def cs_def)
  next
    case (Cons s' xs)
    then have "s' \<in> totalContributed ` set cs" using hr sorted_set by auto
    then show ?thesis using contributors_pos[of st] Cons by (auto simp: s_def cs_def)
  qed
  then show ?thesis using refund[of i p s rest] p R \<open>totalContributed p = h\<close> hr s_def
    by (simp add: sorted_contributions_def sorted_cs_def cs_def)
qed (rule same)

lemma tc_nonneg:
  assumes "engine_inv st"
  shows "\<forall>p\<in>set (occupants (players st)). 0 \<le> totalContributed p"
proof
  fix p assume "p \<in> set (occupants (players st))"
  then obtain i where "seat st i = Some p" using occupant_seat by blast
  then have "player_ok (currentBet st) p"
    using assms by (auto simp: engine_inv_def hand_inv_def seats_ok_def)
  then show "0 \<le> totalContributed p" by (simp add: player_ok_def)
qed

lemma occupant_iff: "p \<in> set (occupants (players st)) \<longleftrightarrow> (\<exists>i. seat st i = Some p)"
  using seat_occupant occupant_seat by blast

lemma refund_tc_nonneg:
  assumes "\<forall>p\<in>set (occupants (players st)). 0 \<le> totalContributed p"
  shows "\<forall>p\<in>set (occupants (players (refundUncalledBets st))). 0 \<le> totalContributed p"
proof (cases rule: refund_cases[of st])
  case (refund i p s rest)
  then have "0 \<le> s" by auto
  show ?thesis
  proof
    fix q assume "q \<in> set (occupants (players (refundUncalledBets st)))"
    then obtain j where "seat (refundUncalledBets st) j = Some q" using occupant_seat by blast
    then have "q = p\<lparr>stack := stack p + (totalContributed p - s), totalContributed := s\<rparr>
        \<or> seat st j = Some q"
      using refund(1,4) by (simp add: seat_put_seat split: if_splits)
    then show "0 \<le> totalContributed q"
      using \<open>0 \<le> s\<close> assms seat_occupant by fastforce
  qed
qed (use assms in simp)

lemma refund_live:
  assumes "\<forall>p\<in>set (occupants (players st)). 0 \<le> totalContributed p" "live_contributor st"
  shows "contributions (refundUncalledBets st) = 0 \<or> live_contributor (refundUncalledBets st)"
proof (cases rule: refund_cases[of st])
  case (refund i p s rest)
  show ?thesis
  proof (cases "s = 0")
    case True
    then have "contributions st = totalContributed p"
      using refund(3) contributors_sum[OF assms(1)] by simp
    then show ?thesis using refund True by (simp add: chip_simps)
  next
    case False
    then have "0 < s" using refund(3) by auto
    obtain q j where q: "seat st j = Some q" "0 < totalContributed q" "\<not> hasFolded q"
      using assms(2) by (auto simp: live_contributor_def contributors_def occupant_iff)
    let ?q = "if j = i then p\<lparr>stack := stack p + (totalContributed p - s), totalContributed := s\<rparr> else q"
    have "seat (refundUncalledBets st) j = Some ?q" "0 < totalContributed ?q" "\<not> hasFolded ?q"
      using refund q \<open>0 < s\<close> by (auto simp: seat_put_seat)
    then show ?thesis unfolding live_contributor_def contributors_def
      using seat_occupant by fastforce
  qed
qed (use assms in simp)

lemma no_contributions:
  assumes "\<forall>p\<in>set (occupants (players st)). 0 \<le> totalContributed p" "contributions st = 0"
  shows "\<not> live_contributor st"
proof
  assume "live_contributor st"
  then obtain p where p: "p \<in> set (occupants (players st))" "0 < totalContributed p"
    by (auto simp: live_contributor_def contributors_def)
  then have "totalContributed p \<le> contributions st"
    unfolding contributions_def sum_slots_def using assms(1) by (intro sum_list_member_le) auto
  then show False using p assms(2) by simp
qed

lemma settled_pots:
  assumes "\<forall>p\<in>set (occupants (players st)). 0 \<le> totalContributed p" "live_contributor st"
  shows "sum_list (map potAmount (sidePots (calculateSidePots (refundUncalledBets st))))
       = contributions (refundUncalledBets st)"
  using refund_live[OF assms] refund_tc_nonneg[OF assms(1)]
proof (elim disjE)
  assume zero: "contributions (refundUncalledBets st) = 0"
  then show ?thesis
    using calculateSidePots_none no_contributions[OF refund_tc_nonneg[OF assms(1)] zero] by simp
qed (rule calculateSidePots_sum)

lemma settlement_total:
  assumes "engine_inv st" "live_contributor st" "resolveWinner ranked st = (Inr (), st')"
  shows "stacks st' = total_chips st"
proof -
  have "pot st = contributions st" using assms(1) by (simp add: engine_inv_def hand_inv_def)
  then have "pot (refundUncalledBets st) = contributions (refundUncalledBets st)"
    using chip_neutral_pot refund_moves by blast
  then have "stacks st' = total_chips (refundUncalledBets st)"
    using resolveWinner_ok(4)[OF assms(3)] settled_pots[OF tc_nonneg[OF assms(1)] assms(2)]
    by (simp add: total_chips_def)
  then show ?thesis using chip_neutral_total refund_moves by metis
qed

lemma settlement_loss:
  assumes "\<not> live_contributor st" "resolveWinner ranked st = (Inr (), st')"
  shows "stacks st' = stacks (refundUncalledBets st)"
proof -
  have "\<not> live_contributor (refundUncalledBets st)"
  proof (cases rule: refund_cases[of st])
    case (refund i p s rest)
    then show ?thesis using assms(1)
      by (auto simp: live_contributor_def contributors_def occupant_iff seat_put_seat
               split: if_splits) force+
  qed (use assms in simp)
  then show ?thesis using resolveWinner_ok(4)[OF assms(2)] calculateSidePots_none by simp
qed


section \<open>What a player can win\<close>

text \<open>The pots a player with contribution \<open>t\<close> is eligible for, layer by layer.\<close>

definition eligible_total :: "string \<Rightarrow> side_pot list \<Rightarrow> int" where
  "eligible_total u pots = sum_list (map potAmount (filter (\<lambda>sp. u \<in> set (relevantPlayerIds sp)) pots))"

lemma relevant_iff:
  assumes "p \<in> set cs" "\<not> hasFolded p" "distinct (map player_id cs)"
  shows "player_id p \<in> set (map player_id (filter (\<lambda>q. \<not> hasFolded q \<and> level \<le> totalContributed q) cs))
     \<longleftrightarrow> level \<le> totalContributed p"
proof -
  have "q = p" if "q \<in> set cs" "player_id q = player_id p" for q
    using that assms(1,3) by (auto simp: distinct_map dest: inj_onD)
  then show ?thesis using assms(1,2) by auto
qed

lemma eligible_none:
  assumes "p \<in> set cs" "\<not> hasFolded p" "distinct (map player_id cs)"
    and "sorted_wrt (<) (totalContributed p # levels)"
  shows "eligible_total (player_id p) (side_pots cs l levels) = 0"
  using assms(4)
proof (induction levels arbitrary: l)
  case (Cons level rest)
  have "player_id p \<notin> set (map player_id (filter (\<lambda>q. \<not> hasFolded q \<and> level \<le> totalContributed q) cs))"
    using relevant_iff[OF assms(1-3)] Cons.prems by simp
  then show ?case using Cons by (simp add: eligible_total_def Let_def)
qed (simp add: eligible_total_def)

lemma eligible_layers:
  assumes p: "p \<in> set cs" "\<not> hasFolded p" "distinct (map player_id cs)"
    and "sorted_wrt (<) (l # levels)" "totalContributed p \<in> set levels"
  shows "eligible_total (player_id p) (side_pots cs l levels) =
    sum_list (map (\<lambda>q. max 0 ((if totalContributed p = last levels then totalContributed q
                               else min (totalContributed q) (totalContributed p)) - l)) cs)"
  using assms(4,5)
proof (induction levels arbitrary: l)
  case (Cons level rest)
  let ?t = "totalContributed p"
  let ?layer = "\<lambda>q. max 0 ((if rest = [] then totalContributed q else min (totalContributed q) level) - l)"
  have "level \<le> ?t" using Cons.prems by auto
  then have "player_id p \<in> set (map player_id (filter (\<lambda>q. \<not> hasFolded q \<and> level \<le> totalContributed q) cs))"
    using relevant_iff[OF p] by simp
  then have step: "eligible_total (player_id p) (side_pots cs l (level # rest)) =
      sum_list (map ?layer cs) + eligible_total (player_id p) (side_pots cs level rest)"
    by (simp add: eligible_total_def Let_def)
  show ?case
  proof (cases "?t = level")
    case True
    have "eligible_total (player_id p) (side_pots cs level rest) = 0"
      using eligible_none[OF p] Cons.prems(1) True by simp
    moreover have "rest = [] \<longleftrightarrow> ?t = last (level # rest)"
      using Cons.prems(1) True by (cases "rest = []") (auto dest!: last_in_set)
    ultimately show ?thesis using step True by (auto intro!: arg_cong[of _ _ sum_list] map_cong)
  next
    case False
    then have mem: "?t \<in> set rest" using Cons.prems(2) by auto
    then have ne: "rest \<noteq> []" by auto
    have IH: "eligible_total (player_id p) (side_pots cs level rest) =
      sum_list (map (\<lambda>q. max 0 ((if ?t = last rest then totalContributed q
                               else min (totalContributed q) ?t) - level)) cs)"
      using Cons.IH Cons.prems(1) mem by simp
    have "level < ?t" "l < level" using Cons.prems(1) mem by auto
    then show ?thesis
      unfolding step IH sum_list_addf[symmetric] using ne
      by (intro arg_cong[of _ _ sum_list] map_cong) auto
  qed
qed simp

lemma contributor_level:
  "p \<in> set (contributors st) \<Longrightarrow> \<not> hasFolded p \<Longrightarrow> totalContributed p \<in> set (pot_levels (contributors st))"
  by (simp add: pot_levels_def)

lemma contributors_distinct:
  assumes "distinct (map player_id (occupants (players st)))"
  shows "distinct (map player_id (contributors st))"
  using assms unfolding contributors_def by (rule distinct_map_filter)

text \<open>A short all-in player is eligible for what every other player matched of it, no more.\<close>

lemma eligible_cap:
  assumes "p \<in> set (contributors st)" "\<not> hasFolded p" "distinct (map player_id (occupants (players st)))"
  shows "eligible_total (player_id p) (sidePots (calculateSidePots st)) =
    sum_list (map (\<lambda>q. if totalContributed p = last (pot_levels (contributors st)) then totalContributed q
                      else min (totalContributed q) (totalContributed p)) (contributors st))"
proof -
  have "eligible_total (player_id p) (sidePots (calculateSidePots st)) =
    sum_list (map (\<lambda>q. max 0 ((if totalContributed p = last (pot_levels (contributors st)) then totalContributed q
                      else min (totalContributed q) (totalContributed p)) - 0)) (contributors st))"
    using eligible_layers[OF assms(1,2) contributors_distinct[OF assms(3)]
        pot_levels_sorted[OF contributors_pos] contributor_level[OF assms(1,2)]]
    by (simp add: calculateSidePots_def Let_def)
  also have "\<dots> = sum_list (map (\<lambda>q. if totalContributed p = last (pot_levels (contributors st)) then totalContributed q
                      else min (totalContributed q) (totalContributed p)) (contributors st))"
    using contributors_pos[of st] assms(1)
    by (intro arg_cong[of _ _ sum_list] map_cong refl) force
  finally show ?thesis .
qed


section \<open>A settlement can be tried again\<close>

lemma occupants_set_slot:
  assumes "slot xs i = Some p"
  obtains before after where "occupants xs = before @ p # after"
    and "\<And>q. occupants (set_slot xs i q) = before @ q # after"
proof -
  have i: "nat i < length xs" "xs ! nat i = Some p" using slot_SomeD[OF assms] by auto
  then have split: "xs = take (nat i) xs @ Some p # drop (Suc (nat i)) xs"
    by (metis id_take_nth_drop)
  have "occupants xs = occupants (take (nat i) xs) @ p # occupants (drop (Suc (nat i)) xs)"
    by (subst split) simp
  moreover have "occupants (set_slot xs i q) = occupants (take (nat i) xs) @ q # occupants (drop (Suc (nat i)) xs)" for q
    using i(1) assms by (auto simp: set_slot_def upd_conv_take_nth_drop dest!: slot_SomeD)
  ultimately show ?thesis by (rule that)
qed

lemma rev_sort_eq:
  "mset xs = mset ys \<Longrightarrow> sorted (rev ys) \<Longrightarrow> rev (sort xs) = (ys :: int list)"
  by (metis mset_rev properties_for_sort rev_rev_ident)

lemma refund_same:
  "(case sorted_contributions st of h # s # _ \<Rightarrow> h \<le> s | [h] \<Rightarrow> h \<le> 0 | [] \<Rightarrow> True) \<Longrightarrow>
   refundUncalledBets st = st"
  unfolding refundUncalledBets_def sorted_contributions_def Let_def by (auto split: list.splits)

lemma refund_sorted:
  assumes "refundUncalledBets st \<noteq> st"
  shows "case sorted_contributions (refundUncalledBets st) of
           h # s # _ \<Rightarrow> h \<le> s | [h] \<Rightarrow> h \<le> 0 | [] \<Rightarrow> True"
proof (cases rule: refund_cases[of st])
  case (refund i p s rest)
  obtain before after where occ: "occupants (players st) = before @ p # after"
    and occ': "\<And>q. occupants (set_slot (players st) i q) = before @ q # after"
    using refund(1) occupants_set_slot unfolding seat_def by metis
  let ?P = "\<lambda>q. totalContributed q > 0"
  let ?rest = "map totalContributed (filter ?P (before @ after))"
  have p: "0 < totalContributed p" using refund by auto
  have ctr: "mset (map totalContributed (contributors st)) = add_mset (totalContributed p) (mset ?rest)"
    using p by (simp add: contributors_def occ)
  have ctr': "mset (map totalContributed (contributors (refundUncalledBets st))) =
      (if s > 0 then add_mset s (mset ?rest) else mset ?rest)"
    using refund(4) by (simp add: contributors_def put_seat_def occ')
  have "mset rest = mset ?rest"
  proof -
    have "mset (sorted_contributions st) = mset (map totalContributed (contributors st))"
      by (simp add: sorted_contributions_def)
    then show ?thesis using ctr refund(5) by simp
  qed
  then have m: "mset (map totalContributed (contributors (refundUncalledBets st))) =
      (if s > 0 then add_mset s (mset rest) else mset rest)"
    using ctr' by simp
  have "sorted (rev (sorted_contributions st))" by (simp add: sorted_contributions_def)
  then have sorted_rest: "sorted (rev rest)" using refund(5) by (simp add: sorted_append)
  show ?thesis
  proof (cases rest)
    case Nil
    then show ?thesis using refund(6) m by (simp add: sorted_contributions_def)
  next
    case (Cons x xs)
    then have "s = x" "0 < s" using refund(3,5,6) m ctr by (auto simp: sorted_contributions_def)
    then have "sorted_contributions (refundUncalledBets st) = s # s # xs"
      unfolding sorted_contributions_def using m Cons sorted_rest
      by (intro rev_sort_eq) (simp_all add: sorted_append)
    then show ?thesis by simp
  qed
qed (use assms in simp)

lemma refund_idem: "refundUncalledBets (refundUncalledBets st) = refundUncalledBets st"
  using refund_same refund_sorted by (metis (no_types, lifting))

lemma contributors_frame [simp]: "contributors (st\<lparr>sidePots := sp\<rparr>) = contributors st"
  by (simp add: contributors_def)

lemma put_seat_sidePots:
  "put_seat i p (st\<lparr>sidePots := sp, pot := x\<rparr>) = (put_seat i p (st\<lparr>pot := x\<rparr>))\<lparr>sidePots := sp\<rparr>"
  by (simp add: put_seat_def)

lemma refund_sidePots: "refundUncalledBets (st\<lparr>sidePots := sp\<rparr>) = (refundUncalledBets st)\<lparr>sidePots := sp\<rparr>"
  unfolding refundUncalledBets_def Let_def
  by (auto simp: put_seat_sidePots split: list.splits option.splits)

lemma calculateSidePots_idem: "calculateSidePots (calculateSidePots st) = calculateSidePots st"
  by (simp add: calculateSidePots_def Let_def)

lemma settle_prepare_idem:
  "calculateSidePots (refundUncalledBets (calculateSidePots (refundUncalledBets st)))
   = calculateSidePots (refundUncalledBets st)"
proof -
  have "refundUncalledBets (calculateSidePots (refundUncalledBets st)) = calculateSidePots (refundUncalledBets st)"
    by (simp add: calculateSidePots_def Let_def refund_sidePots refund_idem)
  then show ?thesis by (simp add: calculateSidePots_idem)
qed

lemma refund_phase [simp]: "phase (refundUncalledBets st) = phase st"
  by (cases rule: refund_cases[of st]) simp_all

lemma resolveWinner_after_error:
  assumes "fst (resolveWinner ranked st) = Inl e"
  shows "resolveWinner ranked' (snd (resolveWinner ranked st)) = resolveWinner ranked' st"
proof (cases "phase st = SHOWDOWN")
  case True
  then have s: "snd (resolveWinner ranked st) = calculateSidePots (refundUncalledBets st)"
    using assms by (auto simp: resolveWinner_def Let_def split: if_splits)
  show ?thesis unfolding s unfolding resolveWinner_def[of ranked'] Let_def settle_prepare_idem using True by simp
qed (simp add: resolveWinner_def)

section \<open>Raising\<close>

lemma mark_checked_seat: "seat (mark_checked i st) j =
    (if j = i then map_option (\<lambda>p. p\<lparr>hasChecked := True\<rparr>) (seat st i) else seat st j)"
  by (auto simp: mark_checked_def seat_put_seat split: option.splits)

lemma resetChecked_seat: "seat (resetChecked st) j =
    map_option (\<lambda>p. if \<not> hasFolded p \<and> \<not> isAllIn p then p\<lparr>hasChecked := False\<rparr> else p) (seat st j)"
  by (simp add: resetChecked_def seat_def slot_map)

lemma mark_checked_minRaise [simp]: "minRaiseSize (mark_checked i st) = minRaiseSize st"
  by (auto simp: minRaiseSize_def mark_checked_def put_seat_def split: option.splits)

text \<open>What a raise does, for the raiser's new bet \<open>b\<close> over the previous bet to call.\<close>

lemma handleRaise_effect:
  assumes p: "seat st i = Some p" and ok: "handleRaise i p n st = Inr st'"
  defines "b \<equiv> bet p + min (n - bet p) (stack p)"
  shows "currentBet st' = max (currentBet st) b"
    and "minRaiseSize st \<le> b - currentBet st \<Longrightarrow> 0 < b - currentBet st \<Longrightarrow>
         lastRaiseSize st' = Some (b - currentBet st)
         \<and> (\<forall>j q. j \<noteq> i \<and> seat st' j = Some q \<and> \<not> hasFolded q \<and> \<not> isAllIn q \<longrightarrow> \<not> hasChecked q)"
    and "b - currentBet st < minRaiseSize st \<or> b \<le> currentBet st \<Longrightarrow>
         lastRaiseSize st' = lastRaiseSize st \<and> (\<forall>j. j \<noteq> i \<longrightarrow> seat st' j = seat st j)
         \<and> isAllIn (the (seat st' i))"
proof -
  define st1 where "st1 = executeBet i (min (n - bet p) (stack p)) st"
  have q: "seat st1 i = Some (p\<lparr>stack := stack p - (b - bet p), bet := b,
      totalContributed := totalContributed p + (b - bet p),
      isAllIn := stack p - (b - bet p) \<le> 0 \<or> isAllIn p\<rparr>)"
    using p by (simp add: st1_def executeBet_player b_def)
  have other: "j \<noteq> i \<Longrightarrow> seat st1 j = seat st j" for j using p by (simp add: st1_def executeBet_player)
  have st': "st' = mark_checked i (raise_bet i (currentBet st) (minRaiseSize st) st1)"
    using handleRaise_Inr(1)[OF ok] by (simp add: st1_def)
  have frame: "currentBet st1 = currentBet st" "lastRaiseSize st1 = lastRaiseSize st"
    by (simp_all add: st1_def)
  show "currentBet st' = max (currentBet st) b"
    using q frame by (auto simp: st' raise_bet_def Let_def)
  show "lastRaiseSize st' = Some (b - currentBet st)
         \<and> (\<forall>j q. j \<noteq> i \<and> seat st' j = Some q \<and> \<not> hasFolded q \<and> \<not> isAllIn q \<longrightarrow> \<not> hasChecked q)"
    if "minRaiseSize st \<le> b - currentBet st" "0 < b - currentBet st"
  proof -
    have R: "raise_bet i (currentBet st) (minRaiseSize st) st1 =
        resetChecked st1\<lparr>lastRaiseSize := Some (b - currentBet st), currentBet := b\<rparr>"
      using that q by (simp add: raise_bet_def Let_def)
    have "\<not> hasChecked q'" if "j \<noteq> i" "seat st' j = Some q'" "\<not> hasFolded q'" "\<not> isAllIn q'" for j q'
    proof -
      note h = that
      obtain q0 where "q' = (if \<not> hasFolded q0 \<and> \<not> isAllIn q0 then q0\<lparr>hasChecked := False\<rparr> else q0)"
        using h(1,2) by (auto simp: st' R mark_checked_seat resetChecked_seat)
      then show ?thesis using h(3,4) by (auto split: if_splits)
    qed
    then show ?thesis by (auto simp: st' R)
  qed
  show "lastRaiseSize st' = lastRaiseSize st \<and> (\<forall>j. j \<noteq> i \<longrightarrow> seat st' j = seat st j)
         \<and> isAllIn (the (seat st' i))"
    if c: "b - currentBet st < minRaiseSize st \<or> b \<le> currentBet st"
  proof -
    have "stack p \<le> n - bet p"
      using handleRaise_Inr(3,5)[OF ok] c by (auto simp: b_def min_def split: if_splits)
    then have "stack p - (b - bet p) \<le> 0" by (simp add: b_def)
    then show ?thesis
      using c q frame other by (auto simp: st' raise_bet_def Let_def mark_checked_seat)
  qed
qed

section \<open>A cleared table\<close>

lemma initTable_ready:
  assumes "button_ok st" "0 < smallBlind st" "0 \<le> ante st"
  shows "table_ready (initTable st)"
proof -
  have "ready_player p" if "seat (initTable st) i = Some p" for i p
    using that
    by (auto simp: initTable_def seat_def slot_def init_seat_def ready_player_def split: option.splits if_splits)
  then show ?thesis using assms by (auto simp: table_ready_def initTable_def button_ok_def)
qed

lemma initTable_stacks:
  assumes "\<forall>p \<in> set (occupants (players st)). 0 \<le> stack p"
  shows "total_chips (initTable st) = stacks st"
proof -
  have "\<forall>p \<in> set (occupants xs). 0 \<le> stack p \<Longrightarrow> sum_slots stack (map init_seat xs) = sum_slots stack xs" for xs
    by (induction xs) (auto simp: init_seat_def split: option.splits)
  then show ?thesis using assms by (simp add: total_chips_def stacks_def initTable_def)
qed

end
