(* ===== verification/EngineContest.thy ===== *)
theory EngineContest
  imports EngineProps
begin

text \<open>
  Who is left to be paid. While a round is open at least two players are in the hand and at the
  showdown at least one is; when the hand was dealt with antes every one of them has put chips in,
  so that the settlement of such a hand can never find its pots without an owner.
\<close>

definition folds :: "table_state \<Rightarrow> bool option list" where
  "folds st = map (map_option hasFolded) (players st)"

lemma live_count_folds: "live_count st = length (filter Not (occupants (folds st)))"
proof -
  have eq: "sum_slots (\<lambda>p. of_bool (\<not> hasFolded p)) xs
      = int (length (filter Not (occupants (map (map_option hasFolded) xs))))" for xs
    by (induction xs) (auto split: option.splits)
  show ?thesis unfolding live_count_def folds_def eq nat_int ..
qed

lemma live_count_active: "live_count st = length (active_players st)"
  by (simp add: live_count_folds folds_def active_players_def comp_def filter_map)

lemma folds_put_seat:
  "seat st i = Some q \<Longrightarrow> hasFolded p = hasFolded q \<Longrightarrow> folds (put_seat i p st) = folds st"
  unfolding folds_def by (rule map_put_seat)

lemma folds_frame [simp]:
  "folds (st\<lparr>pot := x\<rparr>) = folds st" "folds (st\<lparr>currentBet := x\<rparr>) = folds st"
  "folds (st\<lparr>lastRaiseSize := l\<rparr>) = folds st" "folds (st\<lparr>phase := ph\<rparr>) = folds st"
  "folds (st\<lparr>currentTurnSeatIndex := x\<rparr>) = folds st" "folds (st\<lparr>sidePots := sp\<rparr>) = folds st"
  by (simp_all add: folds_def)

lemma folds_executeBet [simp]: "folds (executeBet i amt st) = folds st"
  by (auto simp: executeBet_def Let_def intro!: folds_put_seat[THEN trans] split: option.splits)

lemma folds_mark_checked [simp]: "folds (mark_checked i st) = folds st"
  by (auto simp: mark_checked_def folds_put_seat split: option.splits)

lemma folds_map:
  "(\<And>p. hasFolded (f p) = hasFolded p) \<Longrightarrow>
   folds (st\<lparr>players := map (map_option f) (players st)\<rparr>) = folds st"
  by (simp add: folds_def option.map_comp comp_def)

lemma folds_resetChecked [simp]: "folds (resetChecked st) = folds st"
  unfolding resetChecked_def by (rule folds_map) simp

lemma folds_raise_bet [simp]: "folds (raise_bet i prev m st) = folds st"
  by (auto simp: raise_bet_def Let_def split: option.splits)

lemma folds_handleRaise: "handleRaise i p n st = Inr st' \<Longrightarrow> folds st' = folds st"
  by (drule handleRaise_Inr(1)) simp

lemma mark_folded_drops: "live_count st \<le> live_count (mark_folded i st) + 1"
proof (cases "seat st i")
  case (Some p)
  then have "slot (players st) i = Some p" by (simp add: seat_def)
  then have "sum_slots (\<lambda>p. of_bool (\<not> hasFolded p) :: int) (players (mark_folded i st))
      = sum_slots (\<lambda>p. of_bool (\<not> hasFolded p)) (players st) - of_bool (\<not> hasFolded p)"
    using Some by (simp add: mark_folded_def put_seat_def sum_slots_set_slot)
  then show ?thesis by (simp add: live_count_def of_bool_def) linarith
qed (simp add: mark_folded_def)

lemma apply_action_drops:
  assumes "apply_action i p a r st = Inr (Some st')"
  shows "live_count st \<le> live_count st' + 1"
  using assms
proof (cases rule: apply_action_cases)
  case folded
  then show ?thesis using mark_folded_drops by simp
qed (auto simp: live_count_folds handleCall_def Let_def folds_handleRaise)

lemma folds_nextPhase [simp]: "folds (nextPhase st) = folds st"
proof -
  have "folds (enter_phase ph (calculateSidePots st)) = folds st" for ph
    by (simp add: folds_def enter_phase_fields option.map_comp comp_def clear_round_def)
  then show ?thesis by (cases "phase st") (simp_all add: nextPhase_cases, simp add: folds_def)
qed

lemma folds_after_action [simp]: "folds (after_action b st) = folds st"
  by (auto simp: after_action_def Let_def to_showdown_def folds_def calculateSidePots_def)
     (simp_all add: folds_def[symmetric])

definition contested :: "table_state \<Rightarrow> bool" where
  "contested st \<longleftrightarrow> 1 \<le> live_count st \<and> (phase st \<in> set betting_phases \<longrightarrow> 2 \<le> live_count st)"

lemma showdown_or_two: "\<not> shouldGoToShowdown st \<Longrightarrow> 2 \<le> live_count st"
  by (auto simp: shouldGoToShowdown_def live_count_active split: if_splits)

lemma after_action_contested: "1 \<le> live_count st \<Longrightarrow> contested (after_action b st)"
proof (cases "shouldGoToShowdown st")
  case True
  assume "1 \<le> live_count st"
  then show ?thesis using True folds_after_action[of b st]
    by (simp add: contested_def live_count_folds after_action_def to_showdown_def betting_phases_def)
next
  case False
  then show ?thesis using showdown_or_two[OF False] folds_after_action[of b st]
    by (simp add: contested_def live_count_folds)
qed

lemma act_contested:
  assumes "contested st"
  shows "contested (snd (act i a r st))"
proof (cases rule: act_cases[of i a r st])
  case (acted p st')
  then have "2 \<le> live_count st" using assms by (simp add: contested_def)
  then have "1 \<le> live_count st'" using apply_action_drops[OF acted(3)] by linarith
  then show ?thesis using acted(4) by (simp add: after_action_contested)
qed (use assms in simp_all)

section \<open>Everyone has paid\<close>

definition all_paid :: "table_state \<Rightarrow> bool" where
  "all_paid st \<longleftrightarrow> (\<forall>i p. seat st i = Some p \<longrightarrow> 0 < totalContributed p)"

lemma contested_paid_live: "contested st \<Longrightarrow> all_paid st \<Longrightarrow> live_contributor st"
proof -
  assume c: "contested st" and paid: "all_paid st"
  then have "active_players st \<noteq> []" by (auto simp: contested_def live_count_active)
  then obtain p where "p \<in> set (active_players st)" by (cases "active_players st") auto
  then obtain i where "seat st i = Some p" "\<not> hasFolded p" by (auto simp: active_players_iff)
  moreover have "0 < totalContributed p" using paid calculation by (auto simp: all_paid_def)
  ultimately show ?thesis using seat_occupant
    by (fastforce simp: live_contributor_def contributors_def)
qed

lemma all_paid_put:
  "all_paid st \<Longrightarrow> seat st i = Some q \<Longrightarrow> totalContributed q \<le> totalContributed p \<Longrightarrow> all_paid (put_seat i p st)"
  by (fastforce simp: all_paid_def seat_put_seat)

lemma all_paid_executeBet:
  assumes "all_paid st" "\<And>p. seat st i = Some p \<Longrightarrow> 0 \<le> stack p" "0 \<le> amt"
  shows "all_paid (executeBet i amt st)"
proof (cases "seat st i")
  case (Some p)
  then have "0 \<le> min (stack p) amt" using assms by simp
  then show ?thesis using assms(1) Some
    by (fastforce simp: all_paid_def executeBet_player)
qed (use assms in \<open>simp add: executeBet_def\<close>)

lemma all_paid_map:
  assumes "all_paid st" "players st' = map (map_option f) (players st)"
    and "\<And>p. totalContributed (f p) = totalContributed p"
  shows "all_paid st'"
  using assms by (auto simp: all_paid_def seat_def slot_map)

lemma all_paid_cong: "all_paid st \<Longrightarrow> players st' = players st \<Longrightarrow> all_paid st'"
  by (simp add: all_paid_def seat_def)

lemma all_paid_marks: "all_paid st \<Longrightarrow> all_paid (mark_checked i st)" "all_paid st \<Longrightarrow> all_paid (mark_folded i st)"
  by (auto simp: mark_checked_def mark_folded_def intro: all_paid_put split: option.splits)

lemma all_paid_raise_bet:
  assumes "all_paid st"
  shows "all_paid (raise_bet i prev m st)"
proof -
  have "all_paid (resetChecked st)"
    by (rule all_paid_map[OF assms, where f = "\<lambda>p. if \<not> hasFolded p \<and> \<not> isAllIn p then p\<lparr>hasChecked := False\<rparr> else p"])
       (simp_all add: resetChecked_def)
  then show ?thesis using assms
    by (auto simp: raise_bet_def Let_def intro: all_paid_cong split: option.splits)
qed

lemma apply_action_paid:
  assumes "seats_ok st" "seat st i = Some p" "all_paid st" "apply_action i p a r st = Inr (Some st')"
  shows "all_paid st'"
  using assms(4)
proof (cases rule: apply_action_cases)
  case called
  have "player_ok (currentBet st) p" using assms(1,2) by (auto simp: seats_ok_def)
  then show ?thesis using called assms
    by (auto simp: handleCall_def Let_def player_ok_def intro!: all_paid_marks all_paid_executeBet)
next
  case (raised n)
  have "player_ok (currentBet st) p" using assms(1,2) by (auto simp: seats_ok_def)
  then show ?thesis unfolding handleRaise_Inr(1)[OF raised] using assms handleRaise_Inr(4)[OF raised]
    by (auto simp: player_ok_def intro!: all_paid_marks all_paid_raise_bet all_paid_executeBet)
qed (use assms in \<open>auto intro: all_paid_marks\<close>)

lemma all_paid_after_action: "all_paid st \<Longrightarrow> all_paid (after_action b st)"
proof -
  assume paid: "all_paid st"
  have "all_paid (nextPhase st)"
  proof (cases "players (nextPhase st) = players st")
    case True
    then show ?thesis using paid all_paid_cong by blast
  next
    case False
    then have "players (nextPhase st) = map (map_option clear_round) (players st)"
      by (simp add: nextPhase_def enter_phase_def Let_def split: if_splits)
    then show ?thesis by (rule all_paid_map[OF paid]) (simp add: clear_round_def)
  qed
  then show ?thesis using paid
    by (auto simp: after_action_def Let_def to_showdown_def intro: all_paid_cong)
qed

lemma act_paid:
  assumes "engine_inv st" "all_paid st"
  shows "all_paid (snd (act i a r st))"
proof (cases rule: act_cases[of i a r st])
  case (acted p st')
  have "seats_ok st" using assms(1) by (simp add: engine_inv_def hand_inv_def)
  then show ?thesis using apply_action_paid acted assms(2) all_paid_after_action by simp
qed (use assms in simp_all)

section \<open>Antes\<close>

definition ante_state :: "nat \<Rightarrow> table_state \<Rightarrow> bool" where
  "ante_state k st \<longleftrightarrow> (\<forall>i p. seat st i = Some p \<longrightarrow> \<not> hasFolded p \<and> 0 \<le> stack p \<and>
     (if i < int k then 0 < totalContributed p else 0 < stack p \<and> 0 \<le> totalContributed p))"

lemma pay_ante_seat_state:
  assumes "0 < amt" "ante_state k st"
  shows "ante_state (Suc k) (pay_ante_seat amt (int k) st)"
proof (cases "seat st (int k)")
  case None
  have "i < int (Suc k) \<longleftrightarrow> i < int k \<or> i = int k" for i by auto
  then show ?thesis using assms(2) None by (auto simp: ante_state_def pay_ante_seat_def)
next
  case (Some p)
  then have p: "\<not> hasFolded p" "0 < stack p" "0 \<le> totalContributed p"
    using assms(2) by (auto simp: ante_state_def)
  have less: "i < int (Suc k) \<longleftrightarrow> i < int k \<or> i = int k" for i by auto
  have "seat (pay_ante_seat amt (int k) st) j =
      (if j = int k then Some (p\<lparr>stack := stack p - min (stack p) amt, bet := 0,
          totalContributed := totalContributed p + min (stack p) amt,
          isAllIn := stack p - min (stack p) amt \<le> 0 \<or> isAllIn p\<rparr>) else seat st j)" for j
    using Some p(1) by (simp add: pay_ante_seat_def Let_def executeBet_player seat_put_seat)
  then show ?thesis using assms p unfolding ante_state_def less by auto
qed

lemma payAnte_paid:
  assumes "0 < amt" "ante_state 0 st"
  shows "ante_state (length (players st)) (payAnte amt st)"
proof -
  have "ante_state n (fold (pay_ante_seat amt) (map int [0..<n]) st)" for n
    using assms by (induction n) (simp_all add: pay_ante_seat_state)
  then show ?thesis by (simp add: payAnte_def)
qed

definition open_seats :: "table_state \<Rightarrow> bool" where
  "open_seats st \<longleftrightarrow> (\<forall>i p. seat st i = Some p \<longrightarrow> 0 \<le> stack p \<and> \<not> hasFolded p)"

lemma open_seats_executeBet: "open_seats st \<Longrightarrow> open_seats (executeBet i amt st)"
  using executeBet_player[of st i]
  by (cases "seat st i") (auto simp: open_seats_def executeBet_def)

lemma deal_hand_paid:
  assumes "table_ready st" "0 < ante st"
  shows "all_paid (deal_hand btn sb bb st) \<and> (\<forall>i p. seat (deal_hand btn sb bb st) i = Some p \<longrightarrow> \<not> hasFolded p)"
proof -
  define st1 where "st1 = st\<lparr>buttonUser := btn\<rparr>"
  define st2 where "st2 = payAnte (ante st1) st1"
  have "ante_state 0 st1" using assms(1)
    by (fastforce simp: ante_state_def st1_def table_ready_def ready_player_def dest: seat_bounds)
  then have s2: "ante_state (length (players st1)) st2"
    unfolding st2_def using assms(2) by (intro payAnte_paid) (simp_all add: st1_def)
  have len: "length (players st2) = length (players st1)"
  proof -
    have "length (players (fold (pay_ante_seat amt) xs s)) = length (players s)" for amt xs s
      by (induction xs arbitrary: s) (auto simp: pay_ante_seat_def Let_def split: option.splits)
    then show ?thesis by (simp add: st2_def payAnte_def)
  qed
  have paid2: "all_paid st2" and nonneg2: "\<And>i p. seat st2 i = Some p \<Longrightarrow> 0 \<le> stack p \<and> \<not> hasFolded p"
    using s2 len seat_bounds by (fastforce simp: ante_state_def all_paid_def)+
  define st3 where "st3 = payBlind sb bb (smallBlind st2) st2"
  have "0 \<le> smallBlind st2" using assms(1) by (simp add: st2_def st1_def table_ready_def)
  then have paid3: "all_paid st3" unfolding st3_def payBlind_def
    by (intro all_paid_executeBet) (use paid2 nonneg2 open_seats_executeBet[of st2] in
          \<open>auto simp: open_seats_def\<close>)
  have "open_seats st2" using nonneg2 by (simp add: open_seats_def)
  then have open3: "open_seats st3" by (simp add: st3_def payBlind_def open_seats_executeBet)
  have "players (deal_hand btn sb bb st) = players st3"
    using assms(2) by (simp add: deal_hand_def Let_def st3_def st2_def st1_def to_showdown_def)
  then show ?thesis using paid3 open3 by (simp add: all_paid_def open_seats_def seat_def)
qed

lemma folds_payAnte [simp]: "folds (payAnte amt st) = folds st"
proof -
  have one: "folds (pay_ante_seat amt i s) = folds s" for i s
  proof (cases "seat (executeBet i amt s) i")
    case (Some q)
    then have "folds (put_seat i (q\<lparr>bet := 0\<rparr>) (executeBet i amt s)) = folds s"
      by (simp add: folds_put_seat)
    then show ?thesis using Some by (simp add: pay_ante_seat_def Let_def split: option.splits)
  qed (simp add: pay_ante_seat_def Let_def split: option.splits)
  have "folds (fold (pay_ante_seat amt) xs s) = folds s" for xs s
    by (induction xs arbitrary: s) (simp_all add: one)
  then show ?thesis by (simp add: payAnte_def)
qed

lemma folds_deal_hand: "folds (deal_hand btn sb bb st) = folds st"
proof -
  have "folds (st\<lparr>buttonUser := btn\<rparr>) = folds st" by (simp add: folds_def)
  moreover have "folds (to_showdown s) = folds s" for s by (simp add: folds_def to_showdown_def)
  ultimately show ?thesis by (simp add: deal_hand_def Let_def payBlind_def)
qed

lemma startPreFlop_contested:
  assumes "startPreFlop st = Inr st'"
  shows "contested st'"
proof -
  obtain btn sb bb where st': "st' = deal_hand btn sb bb st"
    and two: "2 \<le> length (filter (\<lambda>p. \<not> hasFolded p \<and> stack p > 0) (occupants (players st)))"
    by (rule startPreFlop_Inr[OF assms])
  have "length (filter (\<lambda>p. \<not> hasFolded p \<and> stack p > 0) xs) \<le> length (filter (\<lambda>p. \<not> hasFolded p) xs)"
    for xs :: "table_player list" by (induction xs) auto
  then have "2 \<le> live_count st" using two unfolding live_count_active active_players_def
    by (meson order_trans)
  then show ?thesis unfolding st' contested_def live_count_folds folds_deal_hand by simp
qed

lemma startPreFlop_paid:
  assumes "table_ready st" "0 < ante st" "startPreFlop st = Inr st'"
  shows "all_paid st'"
  using startPreFlop_Inr[OF assms(3)] deal_hand_paid[OF assms(1,2)] by metis

text \<open>A hand in play: the invariant, and who is left to be paid.\<close>

definition paid_hand :: "table_state \<Rightarrow> bool" where
  "paid_hand st \<longleftrightarrow> engine_inv st \<and> contested st \<and> all_paid st"

interpretation paid_run: invariant_machine act_step paid_hand
proof
  fix st e assume "paid_hand st"
  then show "paid_hand (act_step st e)"
    by (cases e) (simp add: act_step_def paid_hand_def act_inv act_contested act_paid)
qed

interpretation contested_run: invariant_machine act_step contested
  by unfold_locales (auto simp: act_step_def act_contested)

end
