(* ===== verification/EngineClaims.thy ===== *)
theory EngineClaims
  imports EngineContest
begin

text \<open>
  The properties of the hand engine, each with a witness on a concrete table: three players with
  1000 chips, small blind 100, dealt by \<open>startPreFlop\<close>.
\<close>

section \<open>A table to evaluate on\<close>

definition sample_player :: "string \<Rightarrow> int \<Rightarrow> int \<Rightarrow> table_player" where
  "sample_player u i s = \<lparr>player_id = u, tableId = ''t'', nickname = u, seatIndex = i, stack = s,
     bet = 0, hasFolded = False, hasChecked = False, isAllIn = False, totalContributed = 0\<rparr>"

definition three_handed :: table_state where
  "three_handed = (createEmptyTableState ''T'')\<lparr>players :=
     [Some (sample_player ''a'' 0 1000), Some (sample_player ''b'' 1 1000),
      Some (sample_player ''c'' 2 1000), None, None, None, None, None, None]\<rparr>"

definition dealt :: table_state where
  "dealt = (case startPreFlop three_handed of Inr st \<Rightarrow> st | Inl _ \<Rightarrow> three_handed)"

lemma all_seats_list: "(\<forall>i p. seat st i = Some p \<longrightarrow> P p) \<longleftrightarrow> list_all P (occupants (players st))"
  using occupant_iff by (force simp: list_all_iff)

lemma table_ready_list: "table_ready st \<longleftrightarrow> list_all ready_player (occupants (players st)) \<and> pot st = 0
     \<and> 0 < smallBlind st \<and> 0 \<le> ante st \<and> button_ok st"
  unfolding table_ready_def all_seats_list ..

lemma three_handed_ready: "table_ready three_handed"
  unfolding table_ready_list by code_simp

lemma dealt_Inr: "startPreFlop three_handed = Inr dealt"
  by code_simp

lemma dealt_inv: "engine_inv dealt"
  using startPreFlop_inv[OF three_handed_ready dealt_Inr] .

section \<open>Chips and the invariant\<close>

text \<open>No action, accepted or rejected, by whomever and on whatever state, creates or destroys a
  chip: what leaves a stack lies in the pot.\<close>

theorem act_conserves_chips: "total_chips (snd (act i a r st)) = total_chips st"
  by (rule chip_neutral_total[OF act_neutral])



text \<open>C2. Whatever sequence of actions arrives, in whatever order and from whatever seats, the invariant
  of the running hand holds after it and the chips on the table are the same.\<close>

theorem action_runs_safe:
  assumes "engine_inv st"
  shows "engine_inv (foldl act_step st es) \<and> total_chips (foldl act_step st es) = total_chips st"
  using assms by (simp add: hand_run.run_inv hand_run.run_val)

definition sample_run :: "action_event list" where
  "sample_run = [(1, RAISE, Some (IntNum 500)), (2, TIME_OUT, None), (0, CHECK, None), (0, CALL, None)]"

theorem action_runs_safe_witness:
  "engine_inv (foldl act_step dealt sample_run) \<and> total_chips (foldl act_step dealt sample_run) = 3000
   \<and> phase (foldl act_step dealt sample_run) = FLOP"
proof -
  have "total_chips dealt = 3000" "phase (foldl act_step dealt sample_run) = FLOP"
    by (code_simp, code_simp)
  then show ?thesis using action_runs_safe[OF dealt_inv, of sample_run] by simp
qed



text \<open>Every hand can be finished by the clock alone: timing out the player on turn again and again
  reaches the showdown after finitely many steps, from every state of a running hand.\<close>

theorem timeouts_reach_showdown:
  assumes "engine_inv st"
  shows "\<exists>n. phase ((timeout_step ^^ n) st) = SHOWDOWN"
  using assms by (rule timeouts_end)

theorem timeouts_reach_showdown_witness:
  "\<exists>n. phase ((timeout_step ^^ n) (foldl act_step dealt sample_run)) = SHOWDOWN"
  by (rule timeouts_reach_showdown) (simp add: hand_run.run_inv dealt_inv)

text \<open>A rejected action and an action out of turn change nothing at all; an action by a seat that is not
  on turn is ignored unless it comes from the dealer; and outside a betting round every action is
  rejected.\<close>

theorem act_rejects_cleanly:
  "(fst (act i a r st) \<noteq> Inr True \<longrightarrow> snd (act i a r st) = st)
   \<and> (i \<noteq> currentTurnSeatIndex st \<and> a \<notin> {DEALER_FOLD, DEALER_KICK} \<longrightarrow> snd (act i a r st) = st)
   \<and> (phase st \<notin> set betting_phases \<longrightarrow> (\<exists>e. fst (act i a r st) = Inl e) \<and> snd (act i a r st) = st)"
proof (intro conjI impI)
  assume "fst (act i a r st) \<noteq> Inr True"
  then show "snd (act i a r st) = st" by (cases rule: act_cases[of i a r st]) auto
next
  assume off: "i \<noteq> currentTurnSeatIndex st \<and> a \<notin> {DEALER_FOLD, DEALER_KICK}"
  then have "apply_action i p a r st = Inr None" for p by (auto simp: apply_action_def)
  then show "snd (act i a r st) = st" by (auto simp: act_def split: option.splits)
next
  assume "phase st \<notin> set betting_phases"
  then show "\<exists>e. fst (act i a r st) = Inl e" "snd (act i a r st) = st"
    by (auto simp: act_def split: option.splits)
qed

theorem act_rejects_cleanly_witness:
  "snd (act 2 FOLD None dealt) = dealt \<and> snd (act 1 CHECK None dealt) = dealt"
proof -
  have "currentTurnSeatIndex dealt = 1" "fst (act 1 CHECK None dealt) \<noteq> Inr True"
    by (code_simp, code_simp)
  then show ?thesis using act_rejects_cleanly[of 2 FOLD None dealt] act_rejects_cleanly[of 1 CHECK None dealt]
    by simp
qed


section \<open>The settlement\<close>

text \<open>C4. The side pots are a partition of what was contributed as long as someone who put chips in is
  still in the hand, and a player still in the hand can win at most, from each opponent, as much as
  that player put in; only the largest contribution also collects what nobody else could match.\<close>

theorem side_pots_fair:
  assumes "\<forall>p\<in>set (occupants (players st)). 0 \<le> totalContributed p"
    and "distinct (map player_id (occupants (players st)))"
    and "p \<in> set (contributors st)" "\<not> hasFolded p"
  shows "sum_list (map potAmount (sidePots (calculateSidePots st))) = contributions st
    \<and> eligible_total (player_id p) (sidePots (calculateSidePots st)) =
        sum_list (map (\<lambda>q. if totalContributed p = last (pot_levels (contributors st)) then totalContributed q
                          else min (totalContributed q) (totalContributed p)) (contributors st))"
  using calculateSidePots_sum[OF assms(1)] eligible_cap[OF assms(3,4,2)] assms(3,4)
  by (auto simp: live_contributor_def)

definition all_in_three :: table_state where
  "all_in_three = three_handed\<lparr>phase := SHOWDOWN, currentTurnSeatIndex := -1, pot := 1000, players :=
     [Some ((sample_player ''a'' 0 0)\<lparr>isAllIn := True, totalContributed := 100\<rparr>),
      Some ((sample_player ''b'' 1 0)\<lparr>isAllIn := True, totalContributed := 300\<rparr>),
      Some ((sample_player ''c'' 2 400)\<lparr>totalContributed := 600\<rparr>)]\<rparr>"

theorem side_pots_fair_witness:
  "sum_list (map potAmount (sidePots (calculateSidePots all_in_three))) = 1000
   \<and> eligible_total ''b'' (sidePots (calculateSidePots all_in_three)) = 700"
proof -
  let ?b = "(sample_player ''b'' 1 0)\<lparr>isAllIn := True, totalContributed := 300\<rparr>"
  have "\<forall>p\<in>set (occupants (players all_in_three)). 0 \<le> totalContributed p"
    "distinct (map player_id (occupants (players all_in_three)))"
    "?b \<in> set (contributors all_in_three)" "\<not> hasFolded ?b" "player_id ?b = ''b''"
    "contributions all_in_three = 1000"
    "sum_list (map (\<lambda>q. if totalContributed ?b = last (pot_levels (contributors all_in_three)) then totalContributed q
          else min (totalContributed q) (totalContributed ?b)) (contributors all_in_three)) = 700"
    by (code_simp, code_simp, code_simp, code_simp, code_simp, code_simp, code_simp)
  then show ?thesis using side_pots_fair[of all_in_three ?b] by simp
qed

text \<open>C5. A settlement that succeeds pays out every chip on the table to stacks, empties the pot and ends the
  hand, provided someone who put chips in is still in the hand when it is reached.\<close>

theorem settlement_conserves:
  assumes "engine_inv st" "live_contributor st" "resolveWinner ranked st = (Inr (), st')"
  shows "stacks st' = total_chips st \<and> pot st' = 0 \<and> phase st' = HAND_END"
  using settlement_total[OF assms] resolveWinner_ok(2,3)[OF assms(3)] by simp

definition timed_out :: table_state where
  "timed_out = (timeout_step ^^ 2) dealt"

theorem settlement_conserves_witness:
  "stacks (snd (resolveWinner [[''a'']] timed_out)) = 3000"
proof -
  have "engine_inv timed_out" unfolding timed_out_def by (rule timeout_iterates_inv[OF dealt_inv])
  moreover have "live_contributor timed_out" "total_chips timed_out = 3000"
    "fst (resolveWinner [[''a'']] timed_out) = Inr ()" by (code_simp, code_simp, code_simp)
  ultimately show ?thesis
    using settlement_conserves[of timed_out "[[''a'']]" "snd (resolveWinner [[''a'']] timed_out)"]
    by (simp add: prod_eq_iff)
qed

text \<open>C6. Without such a player the settlement still reports success, empties the pot and ends the hand, and
  every chip left in the pot after the refund is gone: \<open>calculateSidePots\<close> makes no pot at all, so no pot
  is found unclaimed. The comment on \<open>resolveWinner\<close> holds that a pot without an eligible player
  cannot arise.\<close>

theorem settlement_without_contributor_loses:
  assumes "\<not> live_contributor st" "resolveWinner ranked st = (Inr (), st')"
  shows "total_chips st' = total_chips st - pot (refundUncalledBets st) \<and> phase st' = HAND_END"
proof -
  have "total_chips (refundUncalledBets st) = total_chips st"
    using chip_neutral_total refund_moves by blast
  then show ?thesis
    using settlement_loss[OF assms] resolveWinner_ok(2,3)[OF assms(2)] by (simp add: total_chips_def)
qed

definition blinds_folded :: table_state where
  "blinds_folded = foldl act_step dealt [(2, DEALER_FOLD, None), (0, DEALER_FOLD, None)]"

theorem settlement_without_contributor_loses_witness:
  "total_chips blinds_folded = 3000 \<and> engine_inv blinds_folded
   \<and> total_chips (snd (resolveWinner [[''b'']] blinds_folded)) = 2800"
proof -
  have "engine_inv blinds_folded" unfolding blinds_folded_def by (rule hand_run.run_inv[OF dealt_inv])
  moreover have "\<not> live_contributor blinds_folded" "total_chips blinds_folded = 3000"
    "fst (resolveWinner [[''b'']] blinds_folded) = Inr ()" "pot (refundUncalledBets blinds_folded) = 200"
    by (code_simp, code_simp, code_simp, code_simp)
  ultimately show ?thesis
    using settlement_without_contributor_loses[of blinds_folded "[[''b'']]"
        "snd (resolveWinner [[''b'']] blinds_folded)"]
    by (simp add: prod_eq_iff)
qed

text \<open>C7. A settlement that is refused loses nothing and blocks nothing: chips and phase are unchanged, and
  settling again with another ranking gives exactly what it would have given the first time.\<close>

theorem settlement_retry:
  assumes "fst (resolveWinner ranked st) = Inl e"
  shows "total_chips (snd (resolveWinner ranked st)) = total_chips st
    \<and> phase (snd (resolveWinner ranked st)) = phase st
    \<and> resolveWinner ranked' (snd (resolveWinner ranked st)) = resolveWinner ranked' st"
proof (intro conjI)
  have eq: "resolveWinner ranked st = (Inl e, snd (resolveWinner ranked st))"
    using assms by (simp add: prod_eq_iff)
  show "total_chips (snd (resolveWinner ranked st)) = total_chips st"
    using resolveWinner_error[OF eq] chip_neutral_total by blast
  show "phase (snd (resolveWinner ranked st)) = phase st"
    using assms by (auto simp: resolveWinner_def Let_def split: if_splits)
  show "resolveWinner ranked' (snd (resolveWinner ranked st)) = resolveWinner ranked' st"
    by (rule resolveWinner_after_error[OF assms])
qed

theorem settlement_retry_witness:
  "resolveWinner [[''c''], [''b''], [''a'']] (snd (resolveWinner [[''a'']] all_in_three))
   = resolveWinner [[''c''], [''b''], [''a'']] all_in_three"
proof -
  have "isl (fst (resolveWinner [[''a'']] all_in_three))" by code_simp
  then obtain e where "fst (resolveWinner [[''a'']] all_in_three) = Inl e" by (auto simp: isl_def)
  then show ?thesis using settlement_retry by blast
qed

text \<open>A hand dealt with antes loses no chip from the deal to the payout: after any sequence of actions
  at least one player is still in the hand (two while a round is open), all of them have paid, and the
  settlement pays the chips of the whole table back to the stacks.\<close>

theorem ante_hand_conserves:
  assumes "table_ready st" "0 < ante st" "startPreFlop st = Inr st1"
    and "resolveWinner ranked (foldl act_step st1 es) = (Inr (), st2)"
  shows "stacks st2 = stacks st \<and> pot st2 = 0"
proof -
  let ?s = "foldl act_step st1 es"
  have "paid_hand st1" using startPreFlop_inv startPreFlop_contested startPreFlop_paid assms(1-3)
    by (simp add: paid_hand_def)
  then have run: "paid_hand ?s" by (rule paid_run.run_inv)
  have "total_chips ?s = total_chips st"
    using startPreFlop_inv[OF assms(1,3)] hand_run.run_val chip_neutral_total[OF startPreFlop_neutral[OF assms(3)]]
    by simp
  moreover have "total_chips st = stacks st" using assms(1) by (simp add: total_chips_def table_ready_def)
  ultimately show ?thesis
    using settlement_total[of ?s] contested_paid_live[of ?s] resolveWinner_ok(3)[OF assms(4)] run assms(4)
    by (simp add: paid_hand_def)
qed

definition ante_table :: table_state where "ante_table = three_handed\<lparr>ante := 25\<rparr>"

definition ante_dealt :: table_state where
  "ante_dealt = (case startPreFlop ante_table of Inr st \<Rightarrow> st | Inl _ \<Rightarrow> ante_table)"

theorem ante_hand_conserves_witness:
  "stacks (snd (resolveWinner [[''b'']]
     (foldl act_step ante_dealt [(2, DEALER_FOLD, None), (0, DEALER_FOLD, None)]))) = 3000"
proof -
  let ?s = "foldl act_step ante_dealt [(2, DEALER_FOLD, None), (0, DEALER_FOLD, None)]"
  have "table_ready ante_table" unfolding table_ready_list by code_simp
  moreover have "0 < ante ante_table" "startPreFlop ante_table = Inr ante_dealt" "stacks ante_table = 3000"
    "fst (resolveWinner [[''b'']] ?s) = Inr ()" by (code_simp, code_simp, code_simp, code_simp)
  ultimately show ?thesis
    using ante_hand_conserves[of ante_table ante_dealt "[[''b'']]"
        "[(2, DEALER_FOLD, None), (0, DEALER_FOLD, None)]" "snd (resolveWinner [[''b'']] ?s)"]
    by (simp add: prod_eq_iff)
qed

section \<open>Raising\<close>

text \<open>A raise sets the bet to call to the raiser's total bet. A full raise becomes the new minimum and
  reopens the betting for everybody else who can act; an all-in for less leaves the minimum and
  everybody else's action as they were, so a player who has already acted cannot raise again.\<close>

theorem raise_rules:
  assumes "seat st i = Some p" "handleRaise i p n st = Inr st'"
  defines "b \<equiv> bet p + min (n - bet p) (stack p)"
  shows "currentBet st' = max (currentBet st) b
    \<and> (if minRaiseSize st \<le> b - currentBet st \<and> 0 < b - currentBet st
       then lastRaiseSize st' = Some (b - currentBet st)
         \<and> (\<forall>j q. j \<noteq> i \<and> seat st' j = Some q \<and> \<not> hasFolded q \<and> \<not> isAllIn q \<longrightarrow> \<not> hasChecked q)
       else lastRaiseSize st' = lastRaiseSize st \<and> (\<forall>j. j \<noteq> i \<longrightarrow> seat st' j = seat st j)
         \<and> isAllIn (the (seat st' i)))"
  using handleRaise_effect[OF assms(1,2)] unfolding b_def[symmetric] by auto

theorem raise_rules_witness:
  "case handleRaise 1 (sample_player ''b'' 1 300) 300
          (dealt\<lparr>players := (players dealt)[1 := Some (sample_player ''b'' 1 300)]\<rparr>) of
     Inr st' \<Rightarrow> currentBet st' = 300 \<and> lastRaiseSize st' = Some 200 | Inl _ \<Rightarrow> False"
proof -
  let ?st = "dealt\<lparr>players := (players dealt)[1 := Some (sample_player ''b'' 1 300)]\<rparr>"
  let ?p = "sample_player ''b'' 1 300"
  have "\<not> isl (handleRaise 1 ?p 300 ?st)" by code_simp
  then obtain st' where ok: "handleRaise 1 ?p 300 ?st = Inr st'" by (cases "handleRaise 1 ?p 300 ?st") auto
  have "seat ?st 1 = Some ?p" "currentBet ?st = 200" "minRaiseSize ?st = 200" "lastRaiseSize ?st = Some 200"
    "bet ?p = 0" "stack ?p = 300" by (code_simp, code_simp, code_simp, code_simp, code_simp, code_simp)
  then show ?thesis using raise_rules[of ?st 1 ?p 300 st'] ok by simp
qed

end
