(* ===== verification/JsNumber.thy ===== *)
theory JsNumber
  imports Prelude
begin

text \<open>
  The part of JavaScript arithmetic the money code relies on: the quotient of two integers is an
  IEEE double, that is the rational quotient rounded to 53 significant bits (ties to even), and
  \<open>Math.floor\<close> is taken of that. \<open>js_div\<close> is the rounded quotient, \<open>js_floor_div\<close> the floor; for a
  numerator below \<open>2 ^ 53\<close> the rounding never reaches the next integer, so the floor is \<open>div\<close>.
\<close>

definition max_safe :: int where
  "max_safe = 2 ^ 53"

text \<open>The number of doublings that bring the quotient into the range of a 53-bit significand.\<close>

primrec quot_scale :: "nat \<Rightarrow> int \<Rightarrow> int \<Rightarrow> nat" where
  "quot_scale 0 a b = 0"
| "quot_scale (Suc k) a b = (if 2 ^ 52 * b \<le> a then 0 else Suc (quot_scale k (2 * a) b))"

definition round_half_even :: "int \<Rightarrow> int \<Rightarrow> int" where
  "round_half_even n d =
     (let q = n div d; r = n mod d
      in if 2 * r < d then q else if 2 * r > d then q + 1 else if even q then q else q + 1)"

text \<open>Significand and exponent of \<open>a / b\<close>: the double is \<open>m / 2 ^ k\<close>.\<close>

definition js_scale :: "int \<Rightarrow> int \<Rightarrow> nat" where
  "js_scale a b = quot_scale 106 a b"

definition js_mantissa :: "int \<Rightarrow> int \<Rightarrow> int" where
  "js_mantissa a b = round_half_even (a * 2 ^ js_scale a b) b"

definition js_floor_div :: "int \<Rightarrow> int \<Rightarrow> int" where
  "js_floor_div a b = (if a \<le> 0 then a div b else js_mantissa a b div 2 ^ js_scale a b)"

text \<open>The part of the double behind the point, as a multiple of \<open>1 / 2 ^ 106\<close>.\<close>

definition js_fraction :: "int \<Rightarrow> int \<Rightarrow> int" where
  "js_fraction a b =
     (if a \<le> 0 then 0 else (js_mantissa a b mod 2 ^ js_scale a b) * 2 ^ (106 - js_scale a b))"

lemma quot_scale_le: "quot_scale k a b \<le> k"
  by (induction k arbitrary: a) auto

lemma quot_scale_reaches:
  "2 ^ 52 * b \<le> 2 ^ k * a \<Longrightarrow> 2 ^ 52 * b \<le> 2 ^ quot_scale k a b * a"
proof (induction k arbitrary: a)
  case (Suc k)
  then have "2 ^ 52 * b \<le> 2 ^ k * (2 * a)" by (simp add: ac_simps)
  then have "2 ^ 52 * b \<le> 2 ^ quot_scale k (2 * a) b * (2 * a)" by (rule Suc.IH)
  then show ?case by (simp add: ac_simps)
qed simp

lemma round_half_even_bounds:
  assumes "0 < d"
  shows "2 * n - d \<le> 2 * d * round_half_even n d" "2 * d * round_half_even n d \<le> 2 * n + d"
proof -
  define q r where "q = n div d" and "r = n mod d"
  have n: "n = d * q + r" by (simp add: q_def r_def)
  have r: "0 \<le> r" "r < d" using assms by (simp_all add: r_def)
  consider "round_half_even n d = q" "2 * r \<le> d" | "round_half_even n d = q + 1" "d \<le> 2 * r"
    unfolding round_half_even_def Let_def q_def[symmetric] r_def[symmetric]
    by (cases "2 * r < d"; cases "2 * r > d"; cases "even q") auto
  then show "2 * n - d \<le> 2 * d * round_half_even n d" "2 * d * round_half_even n d \<le> 2 * n + d"
    using r by (cases; simp add: n distrib_left)+
qed

lemma round_half_even_ge:
  assumes "0 < d" "d * c \<le> n"
  shows "c \<le> round_half_even n d"
proof -
  have "d * c div d \<le> n div d" using assms by (intro zdiv_mono1)
  then have "c \<le> n div d" using assms(1) by simp
  then show ?thesis by (simp add: round_half_even_def Let_def)
qed

lemma js_scale_big:
  assumes "0 < a" "0 < b" "b < max_safe"
  shows "2 ^ 52 * b \<le> 2 ^ js_scale a b * a"
proof -
  have "2 ^ 52 * b \<le> 2 ^ 106 * 1" using assms(3) by (simp add: max_safe_def)
  also have "\<dots> \<le> 2 ^ 106 * a" using assms(1) by simp
  finally show ?thesis unfolding js_scale_def by (rule quot_scale_reaches)
qed

theorem js_floor_div_exact:
  assumes "0 \<le> a" "a < max_safe" "0 < b" "b < max_safe"
  shows "js_floor_div a b = a div b"
proof (cases "a = 0")
  case False
  then have a: "0 < a" using assms(1) by simp
  define s :: int where "s = 2 ^ js_scale a b"
  define m where "m = js_mantissa a b"
  define q where "q = a div b"
  have s: "0 < s" by (simp add: s_def)
  have m_def': "m = round_half_even (a * s) b" by (simp add: m_def js_mantissa_def s_def)
  have q_b: "b * q \<le> a" "a \<le> b * (q + 1) - 1"
    using assms(3) by (simp_all add: q_def minus_mod_eq_mult_div[symmetric] algebra_simps)
      (smt (verit, best) pos_mod_bound)
  have "b * (q * s) \<le> a * s" using q_b(1) s by (simp add: mult.assoc[symmetric])
  then have low: "q * s \<le> m" unfolding m_def' using assms(3) by (intro round_half_even_ge)
  have "2 ^ 52 * b \<le> s * a" using js_scale_big[OF a assms(3,4)] by (simp add: s_def)
  also have "s * a < s * 2 ^ 53" using s assms(2) by (simp add: max_safe_def)
  finally have "b < 2 * s" by simp
  have "2 * b * m \<le> 2 * (a * s) + b" unfolding m_def' using round_half_even_bounds(2)[OF assms(3)] .
  also have "\<dots> < 2 * (a * s) + 2 * s" using \<open>b < 2 * s\<close> by simp
  also have "\<dots> = 2 * ((a + 1) * s)" by (simp add: algebra_simps)
  also have "\<dots> \<le> 2 * (b * (q + 1) * s)" using q_b(2) s by simp
  finally have "b * m < b * ((q + 1) * s)" by (simp add: mult.assoc)
  then have high: "m < (q + 1) * s" using assms(3) by simp
  have "m div s = q"
    using low high by (intro int_div_pos_eq[of _ _ _ "m - q * s"]) (simp_all add: algebra_simps)
  then show ?thesis using a by (simp add: js_floor_div_def s_def m_def q_def)
qed (use assms in \<open>simp add: js_floor_div_def\<close>)


text \<open>The fraction is zero exactly when the division is exact, and it is what \<open>Math.floor\<close> drops.\<close>

lemma js_fraction_zero:
  assumes "0 \<le> a" "a < max_safe" "0 < b" "b < max_safe"
  shows "0 \<le> js_fraction a b" "js_fraction a b = 0 \<longleftrightarrow> a mod b = 0"
proof -
  show "0 \<le> js_fraction a b" by (simp add: js_fraction_def)
  show "js_fraction a b = 0 \<longleftrightarrow> a mod b = 0"
  proof (cases "a = 0")
    case False
    then have a: "0 < a" using assms(1) by simp
    define s :: int where "s = 2 ^ js_scale a b"
    define m where "m = js_mantissa a b"
    define q where "q = a div b"
    define r where "r = a mod b"
    have s: "0 < s" by (simp add: s_def)
    have m_def': "m = round_half_even (a * s) b" by (simp add: m_def js_mantissa_def s_def)
    have ar: "a = b * q + r" by (simp add: q_def r_def)
    have r: "0 \<le> r" "r < b" using assms(3) by (simp_all add: r_def)
    have "2 ^ 52 * b \<le> s * a" using js_scale_big[OF a assms(3,4)] by (simp add: s_def)
    also have "s * a < s * 2 ^ 53" using s assms(2) by (simp add: max_safe_def)
    finally have bs: "b < 2 * s" by simp
    have "m div s = q"
      using js_floor_div_exact[OF assms] a by (simp add: js_floor_div_def m_def s_def q_def)
    have "m mod s = 0 \<longleftrightarrow> r = 0"
    proof
      assume "r = 0"
      then have "m = q * s" using ar assms(3)
        by (simp add: m_def' round_half_even_def Let_def mult.assoc)
      then show "m mod s = 0" by simp
    next
      assume "m mod s = 0"
      then have m: "m = q * s" using \<open>m div s = q\<close> by (metis div_mult_mod_eq add.right_neutral)
      have "2 * (a * s) - b \<le> 2 * b * (q * s)"
        using round_half_even_bounds(1)[OF assms(3), of "a * s"] m m_def' by simp
      then have "2 * (r * s) \<le> b" by (simp add: ar algebra_simps)
      then have "r * (2 * s) < 1 * (2 * s)" using bs by (simp add: ac_simps)
      then show "r = 0" using r s by simp
    qed
    then show ?thesis using a by (simp add: js_fraction_def m_def s_def r_def)
  qed (simp add: js_fraction_def)
qed

end
