(* ===== verification/Prize.thy ===== *)
theory Prize
  imports JsNumber "HOL-Library.Multiset"
begin

text \<open>
  Prize money: \<open>backend/src/playsync/prize.ts\<close> (payout shares, rake, pool, the prizes of the places,
  the ranking of players busted in one hand) and \<open>backend/src/playsync/payout-table.ts\<close> (which payout
  shares apply to how many entries). Percentages and places are integers (the DTO admits no others).
\<close>

section \<open>Data\<close>

record prize_payout =
  place :: int
  percent :: int

datatype payout_error =
    NoPaidPlace
  | PercentNotPositive
  | PlacesNotContiguous
  | PercentSum int
  | TableEmpty
  | FirstTierNotZero
  | TiersNotAscending
  | BadPayoutTable payout_error

text \<open>A JSON column as it is read: null, something that is no array, or an array.\<close>

datatype 'a json = JNull | JOther | JArray "'a list"

record payout_tier =
  minEntries :: int
  payouts :: "prize_payout list"

section \<open>Payout shares\<close>

definition contiguous_from :: "int \<Rightarrow> prize_payout list \<Rightarrow> bool" where
  "contiguous_from start ps \<longleftrightarrow> map place ps = map (\<lambda>i. start + int i) [0..<length ps]"

definition parsePayouts :: "prize_payout list \<Rightarrow> payout_error + prize_payout list" where
  "parsePayouts ps =
     (if ps = [] then Inl NoPaidPlace
      else if list_ex (\<lambda>p. percent p \<le> 0) ps then Inl PercentNotPositive
      else
        let sorted_ps = sort_key place ps in
        if \<not> contiguous_from 1 sorted_ps then Inl PlacesNotContiguous
        else
          let total = sum_list (map percent sorted_ps) in
          if total \<noteq> 100 then Inl (PercentSum total) else Inr sorted_ps)"

section \<open>The pool\<close>

definition rakeOf :: "int \<Rightarrow> int \<Rightarrow> int" where
  "rakeOf totalBuyinAmount rakePercent =
     (if rakePercent \<le> 0 \<or> totalBuyinAmount \<le> 0 then 0
      else js_floor_div (totalBuyinAmount * rakePercent) 100)"

definition prizePoolOf :: "int \<Rightarrow> int \<Rightarrow> int" where
  "prizePoolOf totalBuyinAmount rakePercent = totalBuyinAmount - rakeOf totalBuyinAmount rakePercent"

section \<open>The prize of a place\<close>

definition lower_prizes :: "int \<Rightarrow> prize_payout list \<Rightarrow> (int \<times> int) list" where
  "lower_prizes pool ps = map (\<lambda>p. (place p, js_floor_div (pool * percent p) 100)) ps"

text \<open>\<open>None\<close> is the exception that \<open>sorted[0].place\<close> raises on an empty list.\<close>

definition calculatePrizes :: "int \<Rightarrow> prize_payout list \<Rightarrow> (int \<rightharpoonup> int) option" where
  "calculatePrizes pool ps =
     (case sort_key place ps of
        [] \<Rightarrow> None
      | fst_place # others \<Rightarrow>
          let rest = sum_list (map snd (lower_prizes pool others));
              prizes = fold (\<lambda>(k, v) m. m(k \<mapsto> v)) (lower_prizes pool others) Map.empty
          in Some (prizes(place fst_place \<mapsto> pool - rest)))"

definition prizeFor :: "int \<Rightarrow> prize_payout json \<Rightarrow> int \<Rightarrow> int" where
  "prizeFor pool raw k =
     (case raw of
        JArray ps \<Rightarrow>
          if ps = [] then 0
          else (case calculatePrizes pool ps of
                  None \<Rightarrow> 0
                | Some prizes \<Rightarrow> (case prizes k of None \<Rightarrow> 0 | Some v \<Rightarrow> v))
      | _ \<Rightarrow> 0)"

section \<open>Players busted in one hand\<close>

record busted_player =
  bustedId :: string
  bustedSeat :: int
  handStartStack :: int

record award =
  awardUser :: string
  awardPlace :: int
  awardAmount :: int

text \<open>One group of equal stacks shares its places; odd chips go to the lower seats.\<close>

fun share_group :: "int \<Rightarrow> int \<Rightarrow> int \<Rightarrow> busted_player list \<Rightarrow> award list" where
  "share_group k each rest [] = []"
| "share_group k each rest (m # ms) =
     (let extra = (if rest > 0 then 1 else 0)
      in \<lparr>awardUser = bustedId m, awardPlace = k, awardAmount = each + extra\<rparr>
         # share_group k each (rest - extra) ms)"

definition interval_total :: "int \<Rightarrow> prize_payout json \<Rightarrow> int \<Rightarrow> nat \<Rightarrow> int" where
  "interval_total pool raw k n = sum_list (map (\<lambda>i. prizeFor pool raw (k + int i)) [0..<n])"

function rank_groups :: "int \<Rightarrow> prize_payout json \<Rightarrow> int \<Rightarrow> busted_player list \<Rightarrow> award list" where
  "rank_groups pool raw k [] = []"
| "rank_groups pool raw k (b # bs) =
     (let same = (\<lambda>x. handStartStack x = handStartStack b);
          grp = b # takeWhile same bs;
          total = interval_total pool raw k (length grp);
          each = js_floor_div total (int (length grp))
      in share_group k each (total - each * int (length grp)) grp
         @ rank_groups pool raw (k + int (length grp)) (dropWhile same bs))"
  by pat_completeness auto
termination
  by (relation "measure (\<lambda>(_, _, _, bs). length bs)") (auto simp: less_Suc_eq_le length_dropWhile_le)

definition busted_order :: "busted_player list \<Rightarrow> busted_player list" where
  "busted_order bs = sort_key (\<lambda>b. - handStartStack b) (sort_key bustedSeat bs)"

definition splitBustedRanks ::
  "busted_player list \<Rightarrow> int \<Rightarrow> int \<Rightarrow> prize_payout json \<Rightarrow> award list" where
  "splitBustedRanks busted lastPlace pool raw =
     (let firstPlace = lastPlace - int (length busted) + 1
      in rank_groups pool raw firstPlace (busted_order busted))"

section \<open>The payout table\<close>

definition payout :: "int \<Rightarrow> int \<Rightarrow> prize_payout" where
  "payout k pc = \<lparr>place = k, percent = pc\<rparr>"

definition tier :: "int \<Rightarrow> int list \<Rightarrow> payout_tier" where
  "tier n pcs = \<lparr>minEntries = n, payouts = map2 payout (map int [1..<Suc (length pcs)]) pcs\<rparr>"

definition DEFAULT_PAYOUT_TABLE :: "payout_tier list" where
  "DEFAULT_PAYOUT_TABLE =
     [tier 0 [100], tier 6 [65, 35], tier 10 [50, 30, 20], tier 16 [40, 30, 20, 10],
      tier 25 [40, 25, 17, 11, 7], tier 36 [38, 23, 15, 10, 8, 6],
      tier 50 [35, 21, 14, 10, 8, 7, 5], tier 70 [30, 20, 14, 10, 8, 6, 5, 4, 3]]"

definition entryCountOf :: "int \<Rightarrow> int \<Rightarrow> int" where
  "entryCountOf totalBuyinAmount entryFee =
     (if entryFee \<le> 0 \<or> totalBuyinAmount \<le> 0 then 0 else js_floor_div totalBuyinAmount entryFee)"

text \<open>The loop over the tiers, with its early exit.\<close>

fun choose_tier :: "int \<Rightarrow> payout_tier \<Rightarrow> payout_tier list \<Rightarrow> payout_tier" where
  "choose_tier n chosen [] = chosen"
| "choose_tier n chosen (t # ts) = (if minEntries t > n then chosen else choose_tier n t ts)"

text \<open>\<open>None\<close> is the exception of reading \<open>table[0].payouts\<close> from an empty table.\<close>

definition payoutsFor :: "int \<Rightarrow> payout_tier list \<Rightarrow> prize_payout list option" where
  "payoutsFor entryCount table =
     (case table of [] \<Rightarrow> None | t # _ \<Rightarrow> Some (payouts (choose_tier entryCount t table)))"

fun parse_tiers :: "payout_tier list \<Rightarrow> payout_error + payout_tier list" where
  "parse_tiers [] = Inr []"
| "parse_tiers (t # ts) =
     (case parsePayouts (payouts t) of
        Inl e \<Rightarrow> Inl e
      | Inr ps \<Rightarrow> (case parse_tiers ts of
                     Inl e \<Rightarrow> Inl e
                   | Inr ts' \<Rightarrow> Inr (\<lparr>minEntries = minEntries t, payouts = ps\<rparr> # ts')))"

definition parsePayoutTable :: "payout_tier json \<Rightarrow> payout_error + payout_tier list" where
  "parsePayoutTable raw =
     (case raw of
        JArray (t # ts) \<Rightarrow>
          if minEntries t \<noteq> 0 then Inl FirstTierNotZero
          else if \<not> sorted_wrt (<) (map minEntries (t # ts)) then Inl TiersNotAscending
          else parse_tiers (t # ts)
      | _ \<Rightarrow> Inl TableEmpty)"

definition startablePayoutTable :: "payout_tier json \<Rightarrow> payout_error + payout_tier list" where
  "startablePayoutTable raw =
     (case parsePayoutTable raw of Inl e \<Rightarrow> Inl (BadPayoutTable e) | Inr ts \<Rightarrow> Inr ts)"

definition payoutsForRaw :: "int \<Rightarrow> payout_tier json \<Rightarrow> prize_payout list option" where
  "payoutsForRaw entryCount raw =
     (case raw of
        JArray ts \<Rightarrow> if ts = [] then Some [] else payoutsFor entryCount ts
      | _ \<Rightarrow> Some [])"

end
