(* ===== verification/PrizeProps.thy ===== *)
theory PrizeProps
  imports Prize
begin

text \<open>
  What the prize code promises: parsed payout shares always give out the pool to the last chip,
  players busted together share exactly the prizes of the places they take, and the payout tiers
  are chosen by the number of entries.
\<close>

section \<open>Parsed payout shares\<close>

lemma parsePayouts_Inr:
  assumes "parsePayouts ps = Inr qs"
  shows "qs = sort_key place ps" "qs \<noteq> []" "\<forall>p\<in>set qs. 0 < percent p" "contiguous_from 1 qs"
    "sum_list (map percent qs) = 100"
proof -
  show qs: "qs = sort_key place ps" "contiguous_from 1 qs" "sum_list (map percent qs) = 100"
    using assms by (auto simp: parsePayouts_def Let_def split: if_splits)
  show "qs \<noteq> []" using assms qs(3) by auto
  have "\<forall>p\<in>set ps. 0 < percent p" using assms
    by (auto simp: parsePayouts_def list_ex_iff not_le split: if_splits)
  then show "\<forall>p\<in>set qs. 0 < percent p" by (simp add: qs(1))
qed

lemma contiguous_place:
  assumes "contiguous_from s qs" "i < length qs"
  shows "place (qs ! i) = s + int i"
proof -
  have "map place qs ! i = map (\<lambda>i. s + int i) [0..<length qs] ! i"
    using assms(1) by (simp add: contiguous_from_def)
  then show ?thesis using assms(2) by simp
qed

lemma contiguous_sorted:
  assumes "contiguous_from s qs"
  shows "sort_key place qs = qs" "distinct (map place qs)"
proof -
  have m: "map place qs = map (\<lambda>i. s + int i) [0..<length qs]"
    using assms by (simp add: contiguous_from_def)
  have "sorted (map place qs)" unfolding m by (simp add: sorted_map sorted_wrt_iff_nth_less)
  then show "sort_key place qs = qs" by (intro properties_for_sort_key) simp_all
  show "distinct (map place qs)" unfolding m by (simp add: distinct_map inj_on_def)
qed

lemma fold_updates_notin:
  "k \<notin> fst ` set kvs \<Longrightarrow> fold (\<lambda>(k, v) m. m(k \<mapsto> v)) kvs m k = m k"
  by (induction kvs arbitrary: m) auto

lemma fold_updates_in:
  "distinct (map fst kvs) \<Longrightarrow> (k, v) \<in> set kvs \<Longrightarrow> fold (\<lambda>(k, v) m. m(k \<mapsto> v)) kvs m k = Some v"
proof (induction kvs arbitrary: m)
  case (Cons kv kvs)
  show ?case
  proof (cases "kv = (k, v)")
    case True
    then have "k \<notin> fst ` set kvs" using Cons.prems(1) by simp
    then show ?thesis using fold_updates_notin[of k kvs "m(k \<mapsto> v)"]
      by (simp add: True del: fun_upd_apply) simp
  next
    case False
    then have "(k, v) \<in> set kvs" using Cons.prems(2) by auto
    then show ?thesis using Cons.IH Cons.prems(1) by simp
  qed
qed simp

definition share_of :: "int \<Rightarrow> prize_payout \<Rightarrow> int" where
  "share_of pool p = js_floor_div (pool * percent p) 100"

text \<open>The prizes of a parsed table, place by place.\<close>

lemma calculatePrizes_parsed:
  assumes "contiguous_from 1 (q # qs)"
  obtains prizes where "calculatePrizes pool (q # qs) = Some prizes"
    and "prizes 1 = Some (pool - sum_list (map (share_of pool) qs))"
    and "\<forall>i < length qs. prizes (2 + int i) = Some (share_of pool (qs ! i))"
    and "\<forall>k. k < 1 \<or> int (length (q # qs)) < k \<longrightarrow> prizes k = None"
proof -
  define low where "low = lower_prizes pool qs"
  define prizes where "prizes = (fold (\<lambda>(k, v) m. m(k \<mapsto> v)) low Map.empty)
      (place q \<mapsto> pool - sum_list (map snd low))"
  have q: "place q = 1" using contiguous_place[OF assms, of 0] by simp
  have low: "low = map (\<lambda>p. (place p, share_of pool p)) qs"
    by (simp add: low_def lower_prizes_def share_of_def)
  have keys: "map fst low = map place qs" by (simp add: low comp_def)
  have dist: "distinct (map fst low)" using contiguous_sorted(2)[OF assms] by (simp add: keys)
  have place_i: "place (qs ! i) = 2 + int i" if "i < length qs" for i
    using contiguous_place[OF assms, of "Suc i"] that by simp
  have "calculatePrizes pool (q # qs) = Some prizes"
    unfolding calculatePrizes_def contiguous_sorted(1)[OF assms] by (simp add: prizes_def low_def Let_def)
  moreover have "prizes 1 = Some (pool - sum_list (map (share_of pool) qs))"
    by (simp add: prizes_def q low comp_def)
  moreover have "prizes (2 + int i) = Some (share_of pool (qs ! i))" if "i < length qs" for i
  proof -
    have "(2 + int i, share_of pool (qs ! i)) \<in> set low"
      using that place_i by (force simp: low)
    then show ?thesis using fold_updates_in[OF dist] by (simp add: prizes_def q)
  qed
  moreover have "prizes k = None" if out: "k < 1 \<or> int (length (q # qs)) < k" for k
  proof -
    have "k \<notin> fst ` set low"
    proof
      assume "k \<in> fst ` set low"
      then obtain p where "p \<in> set qs" "k = place p" by (auto simp: low)
      then obtain i where "i < length qs" "k = 2 + int i" using place_i by (metis in_set_conv_nth)
      then show False using out by auto
    qed
    then show ?thesis using out by (auto simp: prizes_def q fold_updates_notin)
  qed
  ultimately show ?thesis using that by blast
qed

lemma prizeFor_parsed:
  assumes "contiguous_from 1 (q # qs)"
  shows "prizeFor pool (JArray (q # qs)) 1 = pool - sum_list (map (share_of pool) qs)"
    and "i < length qs \<Longrightarrow> prizeFor pool (JArray (q # qs)) (2 + int i) = share_of pool (qs ! i)"
    and "k < 1 \<or> int (length (q # qs)) < k \<Longrightarrow> prizeFor pool (JArray (q # qs)) k = 0"
proof -
  obtain prizes where prizes: "calculatePrizes pool (q # qs) = Some prizes"
    "prizes 1 = Some (pool - sum_list (map (share_of pool) qs))"
    "\<forall>i < length qs. prizes (2 + int i) = Some (share_of pool (qs ! i))"
    "\<forall>k. k < 1 \<or> int (length (q # qs)) < k \<longrightarrow> prizes k = None"
    by (rule calculatePrizes_parsed[OF assms, where pool = pool])
  have P: "prizeFor pool (JArray (q # qs)) k = (case prizes k of None \<Rightarrow> 0 | Some v \<Rightarrow> v)" for k
    by (simp add: prizeFor_def prizes(1))
  show "prizeFor pool (JArray (q # qs)) 1 = pool - sum_list (map (share_of pool) qs)"
    by (simp add: P prizes(2))
  show "i < length qs \<Longrightarrow> prizeFor pool (JArray (q # qs)) (2 + int i) = share_of pool (qs ! i)"
    by (simp add: P prizes(3))
  show "k < 1 \<or> int (length (q # qs)) < k \<Longrightarrow> prizeFor pool (JArray (q # qs)) k = 0"
    using prizes(4) by (auto simp: P)
qed

lemma share_of_exact:
  assumes "0 \<le> pool" "pool * 100 < max_safe" "0 < percent p" "percent p \<le> 100"
  shows "share_of pool p = pool * percent p div 100" "0 \<le> share_of pool p"
proof -
  have "pool * percent p \<le> pool * 100" using assms by (intro mult_left_mono) auto
  then show "share_of pool p = pool * percent p div 100"
    using assms unfolding share_of_def by (intro js_floor_div_exact) (auto simp: max_safe_def)
  then show "0 \<le> share_of pool p" using assms by (simp add: pos_imp_zdiv_nonneg_iff)
qed

lemma sum_div_le: "(\<Sum>x\<leftarrow>xs. f x div 100) \<le> (\<Sum>x\<leftarrow>xs. f x) div (100::int)"
proof (induction xs)
  case (Cons x xs)
  have "f x div 100 + sum_list (map f xs) div 100 \<le> (f x + sum_list (map f xs)) div 100" by simp
  then show ?case using Cons by simp
qed simp

text \<open>The rest that goes to the first place is at least its own share.\<close>

lemma first_prize_ge:
  assumes "0 \<le> pool" "pool * 100 < max_safe" "\<forall>p\<in>set (q # qs). 0 < percent p"
    and "sum_list (map percent (q # qs)) = 100"
  shows "pool * percent q div 100 \<le> pool - sum_list (map (share_of pool) qs)"
    and "\<forall>p\<in>set qs. share_of pool p = pool * percent p div 100"
proof -
  have le: "percent p \<le> 100" if "p \<in> set (q # qs)" for p
  proof -
    have "percent p \<le> sum_list (map percent (q # qs))"
      using assms(3) that by (intro sum_list_member_le) (auto simp: less_imp_le)
    then show ?thesis using assms(4) by simp
  qed
  show ex: "\<forall>p\<in>set qs. share_of pool p = pool * percent p div 100"
    using share_of_exact(1)[OF assms(1,2)] le assms(3) by simp
  have "map (share_of pool) qs = map (\<lambda>p. pool * percent p div 100) qs" using ex by simp
  then have "sum_list (map (share_of pool) qs) = (\<Sum>p\<leftarrow>qs. pool * percent p div 100)" by (rule arg_cong)
  then have "pool * percent q div 100 + sum_list (map (share_of pool) qs)
      = (\<Sum>p\<leftarrow>(q # qs). pool * percent p div 100)" by simp
  also have "\<dots> \<le> (\<Sum>p\<leftarrow>(q # qs). pool * percent p) div 100" by (rule sum_div_le)
  also have "\<dots> = pool" using assms(4) by (simp add: sum_list_const_mult distrib_left[symmetric])
  finally show "pool * percent q div 100 \<le> pool - sum_list (map (share_of pool) qs)" by simp
qed


section \<open>Sums of prizes over places\<close>

text \<open>A payout table that has been parsed, and a pool small enough for exact doubles.\<close>

definition sound_prizes :: "int \<Rightarrow> prize_payout list \<Rightarrow> bool" where
  "sound_prizes pool ps \<longleftrightarrow> ps \<noteq> [] \<and> contiguous_from 1 ps \<and> list_all (\<lambda>p. 0 < percent p) ps
     \<and> sum_list (map percent ps) = 100 \<and> 0 \<le> pool \<and> pool * 100 < max_safe"

lemma sound_prizes_parsed:
  "parsePayouts ps = Inr qs \<Longrightarrow> 0 \<le> pool \<Longrightarrow> pool * 100 < max_safe \<Longrightarrow> sound_prizes pool qs"
  using parsePayouts_Inr[of ps qs] by (simp add: sound_prizes_def list_all_iff)

lemma interval_total_sum: "interval_total pool raw k n = (\<Sum>j\<in>{k..<k + int n}. prizeFor pool raw j)"
proof (induction n)
  case (Suc n)
  have "{k..<k + int (Suc n)} = insert (k + int n) {k..<k + int n}" by auto
  then show ?case using Suc by (simp add: interval_total_def)
qed (simp add: interval_total_def)

lemma prizeFor_nonneg:
  assumes "sound_prizes pool ps"
  shows "0 \<le> prizeFor pool (JArray ps) k"
proof -
  obtain q qs where ps: "ps = q # qs" using assms by (cases ps) (auto simp: sound_prizes_def)
  have c: "contiguous_from 1 (q # qs)" using assms ps by (simp add: sound_prizes_def)
  have pos: "\<forall>p\<in>set (q # qs). 0 < percent p" "sum_list (map percent (q # qs)) = 100"
    "0 \<le> pool" "pool * 100 < max_safe"
    using assms ps by (auto simp: sound_prizes_def list_all_iff)
  have first: "0 \<le> pool * percent q div 100" using pos by (simp add: pos_imp_zdiv_nonneg_iff)
  consider "k < 1 \<or> int (length (q # qs)) < k" | "k = 1" | i where "i < length qs" "k = 2 + int i"
  proof -
    assume a: "k < 1 \<or> int (length (q # qs)) < k \<Longrightarrow> thesis" "k = 1 \<Longrightarrow> thesis"
      and b: "\<And>i. i < length qs \<Longrightarrow> k = 2 + int i \<Longrightarrow> thesis"
    show thesis
    proof (cases "k < 1 \<or> int (length (q # qs)) < k \<or> k = 1")
      case False
      then show thesis by (intro b[of "nat (k - 2)"]) auto
    qed (use a in blast)
  qed
  then show ?thesis
  proof cases
    case 2
    then show ?thesis using prizeFor_parsed(1)[OF c] first_prize_ge(1)[OF pos(3,4,1,2)] first ps by simp
  next
    case (3 i)
    then have "qs ! i \<in> set qs" by simp
    then have "share_of pool (qs ! i) = pool * percent (qs ! i) div 100" "0 < percent (qs ! i)"
      using first_prize_ge(2)[OF pos(3,4,1,2)] pos(1) by auto
    then have "0 \<le> share_of pool (qs ! i)" using pos(3) by (simp add: pos_imp_zdiv_nonneg_iff)
    then show ?thesis using prizeFor_parsed(2)[OF c] 3 ps by simp
  qed (use prizeFor_parsed(3)[OF c] ps in simp)
qed

lemma prize_sum:
  assumes "contiguous_from 1 (q # qs)"
  shows "(\<Sum>j\<in>{1..int (length (q # qs))}. prizeFor pool (JArray (q # qs)) j) = pool"
proof -
  let ?f = "prizeFor pool (JArray (q # qs))"
  have "{1..int (length (q # qs))} = insert 1 ((\<lambda>i. 2 + int i) ` {..<length qs})"
  proof -
    let ?S = "(\<lambda>i. 2 + int i) ` {..<length qs}"
    have "j \<in> insert 1 ?S" if "j \<in> {1..int (length (q # qs))}" for j
    proof (cases "j = 1")
      case False
      then show ?thesis using that by (intro insertI2 image_eqI[of _ _ "nat (j - 2)"]) auto
    qed simp
    moreover have "insert 1 ?S \<subseteq> {1..int (length (q # qs))}" by auto
    ultimately show ?thesis by blast
  qed
  moreover have "1 \<notin> (\<lambda>i. 2 + int i) ` {..<length qs}" by auto
  ultimately have "(\<Sum>j\<in>{1..int (length (q # qs))}. ?f j) = ?f 1 + (\<Sum>i<length qs. ?f (2 + int i))"
    by (simp add: sum.reindex inj_on_def)
  also have "(\<Sum>i<length qs. ?f (2 + int i)) = (\<Sum>i<length qs. share_of pool (qs ! i))"
    using prizeFor_parsed(2)[OF assms] by (intro sum.cong) auto
  also have "\<dots> = sum_list (map (share_of pool) qs)"
    by (simp add: sum_list_sum_nth atLeast0LessThan)
  finally show ?thesis using prizeFor_parsed(1)[OF assms] by simp
qed

lemma interval_total_bounds:
  assumes "sound_prizes pool ps"
  shows "0 \<le> interval_total pool (JArray ps) k n" "interval_total pool (JArray ps) k n \<le> pool"
proof -
  obtain q qs where ps: "ps = q # qs" using assms by (cases ps) (auto simp: sound_prizes_def)
  have c: "contiguous_from 1 (q # qs)" using assms ps by (simp add: sound_prizes_def)
  let ?f = "prizeFor pool (JArray ps)"
  have nonneg: "0 \<le> ?f j" for j by (rule prizeFor_nonneg[OF assms])
  have out: "?f j = 0" if "j \<notin> {1..int (length ps)}" for j
    using prizeFor_parsed(3)[OF c, of j] that ps by auto
  show "0 \<le> interval_total pool (JArray ps) k n"
    unfolding interval_total_sum using nonneg by (simp add: sum_nonneg)
  have "(\<Sum>j\<in>{k..<k + int n}. ?f j) = (\<Sum>j\<in>{k..<k + int n} \<inter> {1..int (length ps)}. ?f j)"
    using out by (intro sum.mono_neutral_right) auto
  also have "\<dots> \<le> (\<Sum>j\<in>{1..int (length ps)}. ?f j)" using nonneg by (intro sum_mono2) auto
  also have "\<dots> = pool" using prize_sum[OF c] ps by simp
  finally show "interval_total pool (JArray ps) k n \<le> pool" unfolding interval_total_sum .
qed

section \<open>Players busted together\<close>

lemma share_group_sum:
  "0 \<le> rest \<Longrightarrow> rest \<le> int (length grp) \<Longrightarrow>
   sum_list (map awardAmount (share_group k each rest grp)) = each * int (length grp) + rest"
  by (induction k each rest grp rule: share_group.induct) (auto simp: Let_def algebra_simps)

lemma share_group_users:
  "map (\<lambda>a. (awardUser a, awardPlace a)) (share_group k each rest grp) = map (\<lambda>b. (bustedId b, k)) grp"
  by (induction k each rest grp rule: share_group.induct) (simp_all add: Let_def)

lemma share_group_amounts:
  "a \<in> set (share_group k each rest grp) \<Longrightarrow> awardPlace a = k \<and> awardAmount a \<in> {each, each + 1}"
  by (induction k each rest grp rule: share_group.induct) (auto simp: Let_def split: if_splits)

lemma interval_total_append:
  "interval_total pool raw k (m + n) = interval_total pool raw k m + interval_total pool raw (k + int m) n"
proof -
  have "{k..<k + int (m + n)} = {k..<k + int m} \<union> {k + int m..<k + int m + int n}" by auto
  then show ?thesis unfolding interval_total_sum by (simp add: sum.union_disjoint)
qed

lemma group_share:
  fixes k :: int
  assumes "sound_prizes pool ps" "0 < n" "int n < max_safe"
  defines "tot \<equiv> interval_total pool (JArray ps) k n"
  shows "js_floor_div tot (int n) = tot div int n"
proof -
  have "tot * 1 \<le> pool * 100" using interval_total_bounds[OF assms(1), of k n] by (simp add: tot_def)
  then have "tot < max_safe" using assms(1) by (simp add: sound_prizes_def)
  then show ?thesis using assms(2,3) interval_total_bounds(1)[OF assms(1)]
    by (intro js_floor_div_exact) (simp_all add: tot_def)
qed

lemma rank_groups_sum:
  assumes "sound_prizes pool ps" "int (length bs) < max_safe"
  shows "sum_list (map awardAmount (rank_groups pool (JArray ps) k bs))
       = interval_total pool (JArray ps) k (length bs)"
  using assms(2)
proof (induction "length bs" arbitrary: bs k rule: less_induct)
  case (less xs)
  show ?case
  proof (cases xs)
    case (Cons b bs)
    let ?same = "\<lambda>x. handStartStack x = handStartStack b"
    define grp where "grp = b # takeWhile ?same bs"
    define tot where "tot = interval_total pool (JArray ps) k (length grp)"
    let ?n = "int (length grp)"
    have len: "length xs = length grp + length (dropWhile ?same bs)"
      unfolding Cons grp_def by (simp flip: length_append)
    have n: "0 < ?n" by (simp add: grp_def)
    have each: "js_floor_div tot ?n = tot div ?n"
      unfolding tot_def using n len less.prems by (intro group_share[OF assms(1)]) auto
    have rest: "tot - tot div ?n * ?n = tot mod ?n" by (simp add: minus_div_mult_eq_mod)
    have "sum_list (map awardAmount (share_group k (tot div ?n) (tot mod ?n) grp)) = tot"
      using n by (subst share_group_sum) (simp_all add: less_imp_le)
    moreover have "sum_list (map awardAmount (rank_groups pool (JArray ps) (k + ?n) (dropWhile ?same bs)))
        = interval_total pool (JArray ps) (k + ?n) (length (dropWhile ?same bs))"
      using less.prems len n by (intro less.hyps) auto
    moreover have "rank_groups pool (JArray ps) k xs = share_group k (tot div ?n) (tot mod ?n) grp
        @ rank_groups pool (JArray ps) (k + ?n) (dropWhile ?same bs)"
      unfolding Cons rank_groups.simps Let_def grp_def[symmetric] tot_def[symmetric] each rest ..
    ultimately show ?thesis
      unfolding len interval_total_append by (simp add: tot_def)
  qed (simp add: interval_total_def)
qed

text \<open>Places: as in a competition, one more than the number of busted players with a larger stack.\<close>

lemma sorted_group:
  fixes b :: busted_player
  assumes "sorted_wrt (\<ge>) (map handStartStack (b # bs))"
  defines "same \<equiv> \<lambda>x. handStartStack x = handStartStack b"
  shows "\<forall>x\<in>set (takeWhile same bs). handStartStack x = handStartStack b"
    and "\<forall>x\<in>set (dropWhile same bs). handStartStack x < handStartStack b"
proof -
  show "\<forall>x\<in>set (takeWhile same bs). handStartStack x = handStartStack b"
    by (auto simp: same_def dest: set_takeWhileD)
  show "\<forall>x\<in>set (dropWhile same bs). handStartStack x < handStartStack b"
    using assms(1) unfolding same_def
  proof (induction bs)
    case (Cons a bs)
    show ?case
    proof (cases "handStartStack a = handStartStack b")
      case True
      then show ?thesis using Cons by simp
    next
      case False
      then have "handStartStack a < handStartStack b" using Cons.prems by simp
      then show ?thesis using Cons.prems False by fastforce
    qed
  qed simp
qed

lemma rank_groups_places:
  assumes "sorted_wrt (\<ge>) (map handStartStack bs)"
  shows "map (\<lambda>a. (awardUser a, awardPlace a)) (rank_groups pool raw k bs)
       = map (\<lambda>b. (bustedId b, k + int (length (filter (\<lambda>c. handStartStack b < handStartStack c) bs)))) bs"
  using assms
proof (induction "length bs" arbitrary: bs k rule: less_induct)
  case (less xs)
  show ?case
  proof (cases xs)
    case (Cons b bs)
    let ?same = "\<lambda>x. handStartStack x = handStartStack b"
    let ?gt = "\<lambda>x zs. int (length (filter (\<lambda>c. handStartStack x < handStartStack c) zs))"
    define grp where "grp = b # takeWhile ?same bs"
    define rst where "rst = dropWhile ?same bs"
    have xs: "xs = grp @ rst" by (simp add: Cons grp_def rst_def)
    have so: "sorted_wrt (\<ge>) (map handStartStack (b # bs))" using less.prems unfolding Cons .
    have eq: "\<forall>x\<in>set grp. handStartStack x = handStartStack b"
      using sorted_group(1)[OF so] unfolding grp_def list.set by blast
    have lt: "\<forall>x\<in>set rst. handStartStack x < handStartStack b"
      using sorted_group(2)[OF so] unfolding rst_def .
    have "sorted_wrt (\<ge>) (map handStartStack rst)" "length rst < length xs"
      using less.prems unfolding xs map_append sorted_wrt_append by (simp_all add: grp_def)
    then have IH: "map (\<lambda>a. (awardUser a, awardPlace a)) (rank_groups pool raw (k + int (length grp)) rst)
        = map (\<lambda>x. (bustedId x, k + int (length grp) + ?gt x rst)) rst"
      using less.hyps by blast
    have g0: "?gt x xs = 0" if "x \<in> set grp" for x
      using that eq lt by (auto simp: xs filter_empty_conv)
    have "filter (\<lambda>c. handStartStack x < handStartStack c) grp = grp" if "x \<in> set rst" for x
      using that eq lt by (auto simp: filter_id_conv)
    then have g1: "?gt x xs = int (length grp) + ?gt x rst" if "x \<in> set rst" for x
      using that by (simp add: xs)
    have "rank_groups pool raw k xs = share_group k
        (js_floor_div (interval_total pool raw k (length grp)) (int (length grp)))
        (interval_total pool raw k (length grp) -
          js_floor_div (interval_total pool raw k (length grp)) (int (length grp)) * int (length grp)) grp
        @ rank_groups pool raw (k + int (length grp)) rst"
      unfolding Cons rank_groups.simps Let_def grp_def[symmetric] rst_def[symmetric] ..
    then have "map (\<lambda>a. (awardUser a, awardPlace a)) (rank_groups pool raw k xs)
        = map (\<lambda>x. (bustedId x, k)) grp @ map (\<lambda>x. (bustedId x, k + int (length grp) + ?gt x rst)) rst"
      by (simp add: share_group_users IH)
    also have "\<dots> = map (\<lambda>x. (bustedId x, k + ?gt x xs)) (grp @ rst)"
      using g0 g1 by simp
    finally show ?thesis by (simp add: xs)
  qed simp
qed

lemma rank_groups_place_ge: "a \<in> set (rank_groups pool raw k bs) \<Longrightarrow> k \<le> awardPlace a"
proof (induction pool raw k bs rule: rank_groups.induct)
  case (2 pool raw k b bs)
  then show ?case by (fastforce simp: Let_def simp del: share_group.simps dest: share_group_amounts)
qed simp

lemma rank_groups_even:
  "a \<in> set (rank_groups pool raw k bs) \<Longrightarrow> a' \<in> set (rank_groups pool raw k bs) \<Longrightarrow>
   awardPlace a = awardPlace a' \<Longrightarrow> \<bar>awardAmount a - awardAmount a'\<bar> \<le> 1"
proof (induction pool raw k bs rule: rank_groups.induct)
  case (2 pool raw k b bs)
  let ?same = "\<lambda>x. handStartStack x = handStartStack b"
  define grp where "grp = b # takeWhile ?same bs"
  define tot where "tot = interval_total pool raw k (length grp)"
  define each where "each = js_floor_div tot (int (length grp))"
  let ?rest = "rank_groups pool raw (k + int (length grp)) (dropWhile ?same bs)"
  have split: "set (rank_groups pool raw k (b # bs))
      = set (share_group k each (tot - each * int (length grp)) grp) \<union> set ?rest"
    unfolding rank_groups.simps Let_def grp_def[symmetric] tot_def[symmetric] each_def[symmetric] by simp
  have later: "k < awardPlace x" if "x \<in> set ?rest" for x
    using rank_groups_place_ge[OF that] by (simp add: grp_def)
  have group: "awardPlace x = k \<and> awardAmount x \<in> {each, each + 1}"
    if "x \<in> set (share_group k each (tot - each * int (length grp)) grp)" for x
    using share_group_amounts[OF that] .
  have IH: "x \<in> set ?rest \<Longrightarrow> x' \<in> set ?rest \<Longrightarrow> awardPlace x = awardPlace x' \<Longrightarrow>
      \<bar>awardAmount x - awardAmount x'\<bar> \<le> 1" if "x = a" "x' = a'" for x x'
    using 2(1)[OF refl grp_def tot_def each_def] that 2(4) by simp
  show ?case using 2(2-4) unfolding split
    using group[of a] group[of a'] later[of a] later[of a'] IH by auto
qed simp

lemma busted_order_sorted: "sorted_wrt (\<ge>) (map handStartStack (busted_order bs))"
proof -
  have "sorted (map (\<lambda>b. - handStartStack b) (busted_order bs))" by (simp add: busted_order_def)
  then show ?thesis by (simp add: sorted_wrt_map)
qed

lemma busted_order_mset: "mset (busted_order bs) = mset bs"
  by (simp add: busted_order_def)

lemma filter_length_mset: "mset xs = mset ys \<Longrightarrow> length (filter P xs) = length (filter P ys)"
  by (metis mset_filter size_mset)


lemma parse_tiers_Inr:
  "parse_tiers ts = Inr us \<Longrightarrow> map minEntries us = map minEntries ts
     \<and> (\<forall>u\<in>set us. \<exists>ps. parsePayouts ps = Inr (payouts u))"
proof (induction ts arbitrary: us)
  case (Cons t ts)
  then obtain ps vs where "parsePayouts (payouts t) = Inr ps" "parse_tiers ts = Inr vs"
    "us = \<lparr>minEntries = minEntries t, payouts = ps\<rparr> # vs"
    by (auto split: sum.splits)
  then show ?case using Cons.IH[of vs] by auto
qed simp

lemma parsePayoutTable_Inr:
  assumes "parsePayoutTable raw = Inr us"
  obtains u us' where "us = u # us'" "minEntries u = 0" "sorted_wrt (<) (map minEntries us)"
    "\<forall>u\<in>set us. \<exists>ps. parsePayouts ps = Inr (payouts u)"
proof -
  obtain t ts where ts: "raw = JArray (t # ts)" "minEntries t = 0"
    "sorted_wrt (<) (map minEntries (t # ts))" "parse_tiers (t # ts) = Inr us"
    using assms unfolding parsePayoutTable_def by (auto split: json.splits list.splits if_splits)
  have m: "map minEntries us = map minEntries (t # ts)" "\<forall>u\<in>set us. \<exists>ps. parsePayouts ps = Inr (payouts u)"
    using parse_tiers_Inr[OF ts(4)] by auto
  then obtain u us' where us: "us = u # us'" by (cases us) auto
  show ?thesis
  proof (rule that[OF us])
    show "minEntries u = 0" using m(1) us ts(2) by simp
    show "sorted_wrt (<) (map minEntries us)" using ts(3) unfolding m(1) .
  qed (rule m(2))
qed

lemma choose_tier_spec:
  assumes "sorted_wrt (<) (map minEntries (c # ts))" "minEntries c \<le> n"
  shows "choose_tier n c ts \<in> set (c # ts) \<and> minEntries (choose_tier n c ts) \<le> n
    \<and> (\<forall>t\<in>set (c # ts). minEntries t \<le> n \<longrightarrow> minEntries t \<le> minEntries (choose_tier n c ts))"
  using assms
proof (induction n c ts rule: choose_tier.induct)
  case (2 n chosen t ts)
  show ?case
  proof (cases "minEntries t > n")
    case True
    then show ?thesis using 2(2,3) by force
  next
    case False
    then have IH: "choose_tier n t ts \<in> set (t # ts) \<and> minEntries (choose_tier n t ts) \<le> n
      \<and> (\<forall>x\<in>set (t # ts). minEntries x \<le> n \<longrightarrow> minEntries x \<le> minEntries (choose_tier n t ts))"
      using 2(1,2) by simp
    have "minEntries chosen < minEntries t" using 2(2) by simp
    moreover have "minEntries t \<le> minEntries (choose_tier n t ts)" using IH False by simp
    ultimately have "minEntries chosen \<le> minEntries (choose_tier n t ts)" by linarith
    then show ?thesis using IH False by simp
  qed
qed simp

section \<open>Properties\<close>

text \<open>C26. For a payout list that passes \<open>parsePayouts\<close> the prizes of the places 1 to n add up to the pool to
  the last chip, every place below the first gets the floor of its share, the first gets at least
  its share, and no other place has a prize.\<close>

theorem prizes_exact:
  assumes "parsePayouts ps = Inr qs" "0 \<le> pool" "pool * 100 < max_safe"
  shows "(\<Sum>j\<in>{1..int (length qs)}. prizeFor pool (JArray qs) j) = pool
    \<and> (\<forall>i<length qs. pool * percent (qs ! i) div 100 \<le> prizeFor pool (JArray qs) (1 + int i)
         \<and> (i \<noteq> 0 \<longrightarrow> prizeFor pool (JArray qs) (1 + int i) = pool * percent (qs ! i) div 100))
    \<and> (\<forall>k. k < 1 \<or> int (length qs) < k \<longrightarrow> prizeFor pool (JArray qs) k = 0)"
proof -
  note parsed = parsePayouts_Inr[OF assms(1)]
  obtain q rest where qs: "qs = q # rest" using parsed(2) by (cases qs) auto
  have c: "contiguous_from 1 (q # rest)" using parsed(4) qs by simp
  have first: "pool * percent q div 100 \<le> prizeFor pool (JArray qs) 1"
    and others: "\<forall>p\<in>set rest. share_of pool p = pool * percent p div 100"
    using first_prize_ge[OF assms(2,3), of q rest] parsed(3,5) prizeFor_parsed(1)[OF c]
    unfolding qs by simp_all
  have "pool * percent (qs ! i) div 100 \<le> prizeFor pool (JArray qs) (1 + int i)
         \<and> (i \<noteq> 0 \<longrightarrow> prizeFor pool (JArray qs) (1 + int i) = pool * percent (qs ! i) div 100)"
    if "i < length qs" for i
  proof (cases i)
    case (Suc j)
    then have "prizeFor pool (JArray qs) (1 + int i) = share_of pool (rest ! j)"
      using prizeFor_parsed(2)[OF c, of j] that qs by simp
    then show ?thesis using others that Suc qs by simp
  qed (use first qs in simp)
  then show ?thesis using prize_sum[OF c] prizeFor_parsed(3)[OF c] qs by blast
qed

theorem prizes_exact_witness:
  "(\<Sum>j\<in>{1..3}. prizeFor 1001 (JArray [payout 1 50, payout 2 30, payout 3 20]) j) = 1001"
proof -
  have "parsePayouts [payout 3 20, payout 1 50, payout 2 30] = Inr [payout 1 50, payout 2 30, payout 3 20]"
    by code_simp
  from prizes_exact[OF this, of 1001] show ?thesis by (simp add: max_safe_def)
qed

text \<open>Whatever payout table a tournament can be started with, and for every number of entries, the tier
  chosen is the one with the largest minimum that the entries reach, and its prizes are nonnegative
  and add up to the whole pool.\<close>

theorem startable_table_pays_pool:
  assumes "startablePayoutTable raw = Inr ts" "0 \<le> entries" "0 \<le> pool" "pool * 100 < max_safe"
  shows "\<exists>t\<in>set ts. payoutsFor entries ts = Some (payouts t) \<and> minEntries t \<le> entries
    \<and> (\<forall>t'\<in>set ts. minEntries t' \<le> entries \<longrightarrow> minEntries t' \<le> minEntries t)
    \<and> (\<forall>k. 0 \<le> prizeFor pool (JArray (payouts t)) k)
    \<and> (\<Sum>j\<in>{1..int (length (payouts t))}. prizeFor pool (JArray (payouts t)) j) = pool"
proof -
  have "parsePayoutTable raw = Inr ts"
    using assms(1) by (auto simp: startablePayoutTable_def split: sum.splits)
  then obtain u us where ts: "ts = u # us" "minEntries u = 0" "sorted_wrt (<) (map minEntries ts)"
    "\<forall>u\<in>set ts. \<exists>ps. parsePayouts ps = Inr (payouts u)"
    by (rule parsePayoutTable_Inr)
  define t where "t = choose_tier entries u us"
  have t: "t \<in> set ts" "minEntries t \<le> entries"
    "\<forall>t'\<in>set ts. minEntries t' \<le> entries \<longrightarrow> minEntries t' \<le> minEntries t"
    using choose_tier_spec[of u us entries] ts(1-3) assms(2) by (simp_all add: t_def)
  then obtain ps where ps: "parsePayouts ps = Inr (payouts t)" using ts(4) by blast
  have "payoutsFor entries ts = Some (payouts t)" using ts(2) assms(2) by (simp add: payoutsFor_def ts(1) t_def)
  moreover have "\<forall>k. 0 \<le> prizeFor pool (JArray (payouts t)) k"
    using prizeFor_nonneg[OF sound_prizes_parsed[OF ps assms(3,4)]] by blast
  moreover have "(\<Sum>j\<in>{1..int (length (payouts t))}. prizeFor pool (JArray (payouts t)) j) = pool"
  proof -
    obtain q rest where "payouts t = q # rest" using parsePayouts_Inr(2)[OF ps] by (cases "payouts t") auto
    then show ?thesis using prize_sum parsePayouts_Inr(4)[OF ps] by metis
  qed
  ultimately show ?thesis using t by blast
qed

theorem startable_table_pays_pool_witness:
  "\<exists>t\<in>set DEFAULT_PAYOUT_TABLE. payoutsFor 12 DEFAULT_PAYOUT_TABLE = Some (payouts t)
    \<and> (\<Sum>j\<in>{1..int (length (payouts t))}. prizeFor 120000 (JArray (payouts t)) j) = 120000"
proof -
  have "startablePayoutTable (JArray DEFAULT_PAYOUT_TABLE) = Inr DEFAULT_PAYOUT_TABLE" by code_simp
  from startable_table_pays_pool[OF this, of 12 120000] show ?thesis
    unfolding max_safe_def by (auto intro: bexI)
qed

text \<open>C27. Players busted in the same hand receive together exactly the prizes of the places they take: each is
  placed one behind the number of busted players who had more chips at the start of the hand, and
  players level on chips receive amounts that differ by at most one.\<close>

theorem busted_split_exact:
  fixes lastPlace :: int
  assumes "parsePayouts ps = Inr qs" "0 \<le> pool" "pool * 100 < max_safe" "int (length busted) < max_safe"
  defines "firstPlace \<equiv> lastPlace - int (length busted) + 1"
  shows "sum_list (map awardAmount (splitBustedRanks busted lastPlace pool (JArray qs)))
        = (\<Sum>j\<in>{firstPlace..lastPlace}. prizeFor pool (JArray qs) j)
    \<and> mset (map (\<lambda>a. (awardUser a, awardPlace a)) (splitBustedRanks busted lastPlace pool (JArray qs)))
        = mset (map (\<lambda>b. (bustedId b, firstPlace +
            int (length (filter (\<lambda>c. handStartStack b < handStartStack c) busted)))) busted)
    \<and> (\<forall>a\<in>set (splitBustedRanks busted lastPlace pool (JArray qs)).
         \<forall>a'\<in>set (splitBustedRanks busted lastPlace pool (JArray qs)).
           awardPlace a = awardPlace a' \<longrightarrow> \<bar>awardAmount a - awardAmount a'\<bar> \<le> 1)"
proof -
  have sound: "sound_prizes pool qs" using sound_prizes_parsed assms(1-3) .
  have len: "length (busted_order busted) = length busted"
    using busted_order_mset mset_eq_length by blast
  have "{firstPlace..<firstPlace + int (length busted)} = {firstPlace..lastPlace}"
    by (auto simp: firstPlace_def)
  then have "sum_list (map awardAmount (splitBustedRanks busted lastPlace pool (JArray qs)))
        = (\<Sum>j\<in>{firstPlace..lastPlace}. prizeFor pool (JArray qs) j)"
    using rank_groups_sum[OF sound, of "busted_order busted" firstPlace] assms(4) len
    by (simp add: splitBustedRanks_def Let_def firstPlace_def[symmetric] interval_total_sum)
  moreover have places: "map (\<lambda>a. (awardUser a, awardPlace a)) (splitBustedRanks busted lastPlace pool (JArray qs))
      = map (\<lambda>b. (bustedId b, firstPlace +
            int (length (filter (\<lambda>c. handStartStack b < handStartStack c) busted)))) (busted_order busted)"
    using rank_groups_places[OF busted_order_sorted] filter_length_mset[OF busted_order_mset]
    by (simp add: splitBustedRanks_def Let_def firstPlace_def[symmetric])
  moreover have "\<forall>a\<in>set (splitBustedRanks busted lastPlace pool (JArray qs)).
         \<forall>a'\<in>set (splitBustedRanks busted lastPlace pool (JArray qs)).
           awardPlace a = awardPlace a' \<longrightarrow> \<bar>awardAmount a - awardAmount a'\<bar> \<le> 1"
    using rank_groups_even unfolding splitBustedRanks_def Let_def by blast
  moreover have "mset (map (\<lambda>a. (awardUser a, awardPlace a)) (splitBustedRanks busted lastPlace pool (JArray qs)))
      = mset (map (\<lambda>b. (bustedId b, firstPlace +
            int (length (filter (\<lambda>c. handStartStack b < handStartStack c) busted)))) busted)"
    unfolding places mset_map busted_order_mset ..
  ultimately show ?thesis by blast
qed

definition sample_busted :: "busted_player list" where
  "sample_busted = [\<lparr>bustedId = ''a'', bustedSeat = 3, handStartStack = 100\<rparr>,
     \<lparr>bustedId = ''b'', bustedSeat = 1, handStartStack = 100\<rparr>,
     \<lparr>bustedId = ''c'', bustedSeat = 5, handStartStack = 300\<rparr>]"

theorem busted_split_exact_witness:
  "sum_list (map awardAmount (splitBustedRanks sample_busted 4 1001
      (JArray [payout 1 50, payout 2 30, payout 3 20]))) = 500"
proof -
  let ?qs = "[payout 1 50, payout 2 30, payout 3 20]"
  have parsed: "parsePayouts ?qs = Inr ?qs" by code_simp
  have n: "int (length sample_busted) = 3" by (simp add: sample_busted_def)
  have total: "(\<Sum>j\<in>{2..4}. prizeFor 1001 (JArray ?qs) j) = 500" by code_simp
  have "sum_list (map awardAmount (splitBustedRanks sample_busted 4 1001 (JArray ?qs)))
      = (\<Sum>j\<in>{4 - int (length sample_busted) + 1..4}. prizeFor 1001 (JArray ?qs) j)"
    by (rule conjunct1[OF busted_split_exact[OF parsed]]) (simp_all add: n max_safe_def)
  also have "{4 - int (length sample_busted) + 1..4} = {2..4}" unfolding n by simp
  finally show ?thesis unfolding total .
qed

end
