(* ===== verification/Settlement.thy ===== *)
theory Settlement
  imports JsNumber "HOL-Library.Multiset"
begin

text \<open>
  Closing a tournament: \<open>backend/src/store/session/settlement.ts\<close> (largest-remainder split, refunds
  of an aborted tournament, the deal of the remaining prize by chip count, the check that blocks a
  premature completion, the summary by group) with the status lists of \<open>player-status.ts\<close>,
  \<open>tournament-status.ts\<close> and the final-table test of \<open>final-table.ts\<close>.
\<close>

section \<open>Statuses\<close>

datatype player_status = WAITING_PLAYER | PLAYING | ELIMINATED | AWARDED | RELEASED

datatype tournament_status = PENDING | ONGOING | SYNCING | FINISHED | CANCELLED

definition FINISHED_PLAYER_STATUSES :: "player_status list" where
  "FINISHED_PLAYER_STATUSES = [ELIMINATED, AWARDED]"

definition LIVE_PLAYER_STATUSES :: "player_status list" where
  "LIVE_PLAYER_STATUSES = [PLAYING, RELEASED]"

definition isFinishedParticipant :: "player_status \<Rightarrow> bool" where
  "isFinishedParticipant s \<longleftrightarrow> s \<in> set FINISHED_PLAYER_STATUSES"

definition isLiveParticipant :: "player_status \<Rightarrow> bool" where
  "isLiveParticipant s \<longleftrightarrow> s \<in> set LIVE_PLAYER_STATUSES"

definition isClosedTournament :: "tournament_status \<Rightarrow> bool" where
  "isClosedTournament s \<longleftrightarrow> s \<in> set [FINISHED, CANCELLED]"

definition isLiveTournament :: "tournament_status \<Rightarrow> bool" where
  "isLiveTournament s \<longleftrightarrow> s \<in> set [ONGOING, SYNCING]"

definition isFinalTable :: "bool \<Rightarrow> int \<Rightarrow> bool" where
  "isFinalTable isRegistrationOpen tableCount \<longleftrightarrow> \<not> isRegistrationOpen \<and> tableCount = 1"

section \<open>Splitting by largest remainder\<close>

record ratio_weight =
  rwUser :: string
  weight :: int

record refund =
  refundUser :: string
  refundAmount :: int

text \<open>The loop that hands the odd units out, in the order of the remainders.\<close>

fun bump :: "int \<Rightarrow> nat list \<Rightarrow> int list \<Rightarrow> int list" where
  "bump rest [] amounts = amounts"
| "bump rest (i # idx) amounts =
     (if rest \<le> 0 then amounts else bump (rest - 1) idx (amounts[i := amounts ! i + 1]))"

definition splitByRatio :: "int \<Rightarrow> ratio_weight list \<Rightarrow> refund list" where
  "splitByRatio amt weights =
     (let tot = sum_list (map weight weights) in
      if tot \<le> 0 \<or> amt \<le> 0
      then map (\<lambda>w. \<lparr>refundUser = rwUser w, refundAmount = 0\<rparr>) weights
      else
        let floors = map (\<lambda>w. js_floor_div (amt * weight w) tot) weights;
            rest = amt - sum_list floors;
            byRemainder = sort_key (\<lambda>i. - js_fraction (amt * weight (weights ! i)) tot) [0..<length weights]
        in map2 (\<lambda>w a. \<lparr>refundUser = rwUser w, refundAmount = a\<rparr>) weights (bump rest byRemainder floors))"

section \<open>Aborting a tournament\<close>

record settlement_participant =
  spUser :: string
  spStatus :: player_status
  buyInCount :: int
  prizeAmount :: int

definition refund_percent :: "player_status \<Rightarrow> int" where
  "refund_percent s = (if isFinishedParticipant s then 50 else 100)"

definition abort_claim :: "int \<Rightarrow> settlement_participant \<Rightarrow> ratio_weight" where
  "abort_claim entryFee p =
     (let paid = entryFee * buyInCount p
      in \<lparr>rwUser = spUser p,
          weight = max 0 (js_floor_div (paid * refund_percent (spStatus p)) 100 - prizeAmount p)\<rparr>)"

record abort_settlement =
  refunds :: "refund list"
  storeAmount :: int
  scaled :: bool

definition calculateAbortSettlement ::
  "settlement_participant list \<Rightarrow> int \<Rightarrow> int \<Rightarrow> abort_settlement" where
  "calculateAbortSettlement participants entryFee totalBuyinAmount =
     (let paidPrizes = sum_list (map prizeAmount participants);
          available = max 0 (totalBuyinAmount - paidPrizes);
          claims = map (abort_claim entryFee) participants;
          wanted = sum_list (map weight claims)
      in if wanted \<le> available
         then \<lparr>refunds = map (\<lambda>c. \<lparr>refundUser = rwUser c, refundAmount = weight c\<rparr>) claims,
               storeAmount = available - wanted, scaled = False\<rparr>
         else \<lparr>refunds = splitByRatio available claims, storeAmount = 0, scaled = True\<rparr>)"

section \<open>A deal by chip count\<close>

record chop_participant =
  cpUser :: string
  currentStack :: int

record chop_award =
  chopUser :: string
  chopPlace :: int
  chopAmount :: int

definition refund_lookup :: "refund list \<Rightarrow> string \<Rightarrow> int" where
  "refund_lookup rs u =
     (case map_of (rev (map (\<lambda>r. (refundUser r, refundAmount r)) rs)) u of None \<Rightarrow> 0 | Some a \<Rightarrow> a)"

definition calculateChop :: "chop_participant list \<Rightarrow> int \<Rightarrow> chop_award list" where
  "calculateChop participants remainingPrize =
     (let ordered = sort_key (\<lambda>p. - currentStack p) participants;
          amounts = splitByRatio remainingPrize
                      (map (\<lambda>p. \<lparr>rwUser = cpUser p, weight = currentStack p\<rparr>) ordered)
      in map2 (\<lambda>p i. \<lparr>chopUser = cpUser p, chopPlace = int i + 1,
                      chopAmount = refund_lookup amounts (cpUser p)\<rparr>)
           ordered [0..<length ordered])"

section \<open>The check before completion\<close>

fun digits :: "nat \<Rightarrow> string" where
  "digits n = (if n < 10 then [char_of (48 + n)] else digits (n div 10) @ [char_of (48 + n mod 10)])"

declare digits.simps [simp del]

text \<open>Commas before every group of three digits, counted from the end.\<close>

fun group3 :: "string \<Rightarrow> string" where
  "group3 (a # b # c # d # rest) = a # b # c # CHR '','' # group3 (d # rest)"
| "group3 cs = cs"

definition won :: "nat \<Rightarrow> string" where
  "won n = rev (group3 (rev (digits n)))"

datatype complete_block = PrizesRemaining string | PrizesOverpaid string

definition completeBlocker :: "int \<Rightarrow> int \<Rightarrow> int \<Rightarrow> complete_block option" where
  "completeBlocker totalBuyinAmount paidPrize rake =
     (let remaining = totalBuyinAmount - paidPrize - rake in
      if remaining = 0 then None
      else if remaining > 0 then Some (PrizesRemaining (won (nat remaining)))
      else Some (PrizesOverpaid (won (nat (- remaining)))))"

section \<open>The summary by group\<close>

datatype abort_group_kind = LIVE | FINISHED_GROUP | PRIZED

record abort_group =
  groupKind :: abort_group_kind
  groupCount :: int
  groupAmount :: int

definition group_kind :: "settlement_participant \<Rightarrow> abort_group_kind" where
  "group_kind p = (if prizeAmount p > 0 then PRIZED
                   else if isFinishedParticipant (spStatus p) then FINISHED_GROUP else LIVE)"

definition add_to_group :: "refund list \<Rightarrow> settlement_participant \<Rightarrow> abort_group list \<Rightarrow> abort_group list" where
  "add_to_group rs p gs =
     map (\<lambda>g. if groupKind g = group_kind p
              then g\<lparr>groupCount := groupCount g + 1,
                     groupAmount := groupAmount g + refund_lookup rs (spUser p)\<rparr>
              else g) gs"

definition groupAbortRefunds :: "settlement_participant list \<Rightarrow> refund list \<Rightarrow> abort_group list" where
  "groupAbortRefunds participants rs =
     fold (add_to_group rs) participants
       (map (\<lambda>k. \<lparr>groupKind = k, groupCount = 0, groupAmount = 0\<rparr>) [LIVE, FINISHED_GROUP, PRIZED])"

end
