(* ===== verification/SettlementProps.thy ===== *)
theory SettlementProps
  imports Settlement
begin

text \<open>
  The split hands out exactly the amount, each share the floor or one more, and nothing to a weight
  of zero; from that the refunds of an abort, the deal, and the summary by group are exact.
\<close>

section \<open>The odd units\<close>

lemma bump_length [simp]: "length (bump rest idx amounts) = length amounts"
  by (induction rest idx amounts rule: bump.induct) auto

lemma bump_nth:
  assumes "distinct idx" "set idx \<subseteq> {..<length amounts}" "i < length amounts"
  shows "bump rest idx amounts ! i = amounts ! i + of_bool (i \<in> set (take (nat rest) idx))"
  using assms
proof (induction rest idx amounts rule: bump.induct)
  case (2 rest j idx amounts)
  show ?case
  proof (cases "rest \<le> 0")
    case False
    then have n: "nat rest = Suc (nat (rest - 1))" by simp
    have "bump (rest - 1) idx (amounts[j := amounts ! j + 1]) ! i
        = amounts[j := amounts ! j + 1] ! i + of_bool (i \<in> set (take (nat (rest - 1)) idx))"
      using 2 False by simp
    moreover have "j \<notin> set (take (nat (rest - 1)) idx)" using 2(2) by (auto dest: in_set_takeD)
    ultimately show ?thesis using False 2(4) by (auto simp: n nth_list_update)
  qed simp
qed simp

lemma bump_sum:
  assumes "0 \<le> rest" "rest \<le> int (length idx)" "set idx \<subseteq> {..<length amounts}"
  shows "sum_list (bump rest idx amounts) = sum_list amounts + rest"
  using assms
proof (induction rest idx amounts rule: bump.induct)
  case (2 rest j idx amounts)
  then show ?case by (auto simp: sum_list_update_int)
qed simp

section \<open>The split\<close>

text \<open>Amounts the doubles represent exactly.\<close>

definition split_range :: "int \<Rightarrow> ratio_weight list \<Rightarrow> bool" where
  "split_range amt weights \<longleftrightarrow> (\<forall>w\<in>set weights. 0 \<le> weight w \<and> amt * weight w < max_safe)
     \<and> 0 \<le> amt \<and> sum_list (map weight weights) < max_safe"

lemma sum_remainders:
  fixes b :: int
  assumes "0 < b"
  shows "(\<Sum>x\<leftarrow>xs. f x) = (\<Sum>x\<leftarrow>xs. f x div b) * b + (\<Sum>x\<leftarrow>xs. f x mod b)"
    and "(\<Sum>x\<leftarrow>xs. f x mod b) \<le> b * int (length (filter (\<lambda>x. f x mod b \<noteq> 0) xs))"
    and "filter (\<lambda>x. f x mod b \<noteq> 0) xs \<noteq> [] \<Longrightarrow>
         (\<Sum>x\<leftarrow>xs. f x mod b) < b * int (length (filter (\<lambda>x. f x mod b \<noteq> 0) xs))"
    and "0 \<le> (\<Sum>x\<leftarrow>xs. f x mod b)"
proof -
  show "(\<Sum>x\<leftarrow>xs. f x) = (\<Sum>x\<leftarrow>xs. f x div b) * b + (\<Sum>x\<leftarrow>xs. f x mod b)"
    by (induction xs) (simp_all add: algebra_simps)
  show le: "(\<Sum>x\<leftarrow>xs. f x mod b) \<le> b * int (length (filter (\<lambda>x. f x mod b \<noteq> 0) xs))" for xs
  proof (induction xs)
    case (Cons x xs)
    have "f x mod b < b" using assms by simp
    then show ?case using Cons by (auto simp: distrib_left)
  qed simp
  show "filter (\<lambda>x. f x mod b \<noteq> 0) xs \<noteq> [] \<Longrightarrow>
         (\<Sum>x\<leftarrow>xs. f x mod b) < b * int (length (filter (\<lambda>x. f x mod b \<noteq> 0) xs))"
  proof (induction xs)
    case (Cons x xs)
    have "f x mod b < b" using assms by simp
    then show ?case using Cons le[of xs] by (auto simp: distrib_left)
  qed simp
  show "0 \<le> (\<Sum>x\<leftarrow>xs. f x mod b)" using assms by (intro sum_list_nonneg) auto
qed

lemma take_positive:
  assumes "sorted (map g xs)" "\<forall>x\<in>set xs. g x \<le> (0::int)" "n \<le> length (filter (\<lambda>x. g x \<noteq> 0) xs)"
  shows "\<forall>x\<in>set (take n xs). g x \<noteq> 0"
  using assms
proof (induction xs arbitrary: n)
  case (Cons x xs)
  show ?case
  proof (cases "g x = 0")
    case True
    then have "\<forall>y\<in>set xs. g y = 0" using Cons.prems(1,2) by fastforce
    then have "filter (\<lambda>x. g x \<noteq> 0) (x # xs) = []" using True by (simp add: filter_empty_conv)
    then show ?thesis using Cons.prems(3) by simp
  next
    case False
    show ?thesis
    proof (cases n)
      case (Suc m)
      have "\<forall>y\<in>set (take m xs). g y \<noteq> 0"
        using Cons.prems Suc False by (intro Cons.IH) simp_all
      then show ?thesis using False Suc by simp
    qed simp
  qed
qed simp

text \<open>Everything about the split at once: the shares, as a list of the amounts.\<close>

lemma split_shares:
  assumes range: "split_range amt ws" and pos: "0 < sum_list (map weight ws)" "0 < amt"
  obtains shares where
    "splitByRatio amt ws = map2 (\<lambda>w a. \<lparr>refundUser = rwUser w, refundAmount = a\<rparr>) ws shares"
    "length shares = length ws" "sum_list shares = amt"
    "\<forall>i<length ws. amt * weight (ws ! i) div sum_list (map weight ws) \<le> shares ! i
       \<and> shares ! i \<le> amt * weight (ws ! i) div sum_list (map weight ws) + 1
       \<and> (amt * weight (ws ! i) mod sum_list (map weight ws) = 0 \<longrightarrow>
            shares ! i = amt * weight (ws ! i) div sum_list (map weight ws))"
proof -
  define b where "b = sum_list (map weight ws)"
  define f :: "ratio_weight \<Rightarrow> int" where "f = (\<lambda>w. amt * weight w)"
  define floors where "floors = map (\<lambda>w. js_floor_div (f w) b) ws"
  define idx where "idx = sort_key (\<lambda>i. - js_fraction (f (ws ! i)) b) [0..<length ws]"
  define rest where "rest = amt - sum_list floors"
  define shares where "shares = bump rest idx floors"
  have b: "0 < b" "b < max_safe" using pos range by (simp_all add: b_def split_range_def)
  have fr: "0 \<le> f w" "f w < max_safe" if "w \<in> set ws" for w
    using that range by (simp_all add: f_def split_range_def)
  have floors: "floors = map (\<lambda>w. f w div b) ws"
    unfolding floors_def using fr b by (simp add: js_floor_div_exact)
  have total: "(\<Sum>w\<leftarrow>ws. f w) = amt * b" by (simp add: f_def b_def sum_list_const_mult)
  define odd_ws where "odd_ws = filter (\<lambda>w. f w mod b \<noteq> 0) ws"
  have "amt * b = sum_list floors * b + (\<Sum>w\<leftarrow>ws. f w mod b)"
    using sum_remainders(1)[OF b(1), of f ws] total floors by simp
  then have rest_b: "rest * b = (\<Sum>w\<leftarrow>ws. f w mod b)" by (simp add: rest_def algebra_simps)
  have "0 \<le> rest * b" unfolding rest_b by (rule sum_remainders(4)[OF b(1)])
  then have rest0: "0 \<le> rest" using b(1) by (auto simp: zero_le_mult_iff)
  have "rest * b \<le> b * int (length odd_ws)"
    unfolding rest_b odd_ws_def by (rule sum_remainders(2)[OF b(1)])
  then have rest_le: "rest \<le> int (length odd_ws)" using b(1) by (simp add: mult.commute)
  have "length odd_ws \<le> length ws" by (simp add: odd_ws_def)
  have idx_len: "length idx = length ws" and idx_set: "set idx = {..<length ws}" and idx_dist: "distinct idx"
    by (auto simp: idx_def)
  have sum: "sum_list shares = amt"
    unfolding shares_def using rest0 rest_le \<open>length odd_ws \<le> length ws\<close>
    by (subst bump_sum) (simp_all add: idx_len idx_set floors rest_def)
  have nth: "shares ! i = f (ws ! i) div b + of_bool (i \<in> set (take (nat rest) idx))" if "i < length ws" for i
    unfolding shares_def using that by (subst bump_nth) (simp_all add: idx_dist idx_set floors)
  have none: "i \<notin> set (take (nat rest) idx)" if i: "i < length ws" and zero: "f (ws ! i) mod b = 0" for i
  proof
    let ?g = "\<lambda>i. - js_fraction (f (ws ! i)) b"
    assume "i \<in> set (take (nat rest) idx)"
    have g0: "?g j \<noteq> 0 \<longleftrightarrow> f (ws ! j) mod b \<noteq> 0" and g1: "?g j \<le> 0" if "j < length ws" for j
      using js_fraction_zero[of "f (ws ! j)" b] fr[of "ws ! j"] b that by auto
    have "length (filter (\<lambda>j. ?g j \<noteq> 0) idx) = length (filter (\<lambda>j. ?g j \<noteq> 0) [0..<length ws])"
      by (metis idx_def mset_filter mset_sort size_mset)
    also have "filter (\<lambda>j. ?g j \<noteq> 0) [0..<length ws] = filter (\<lambda>j. f (ws ! j) mod b \<noteq> 0) [0..<length ws]"
      using g0 by (intro filter_cong) auto
    also have "length \<dots> = length odd_ws"
    proof -
      have "odd_ws = map (nth ws) (filter (\<lambda>j. f (ws ! j) mod b \<noteq> 0) [0..<length ws])"
        unfolding odd_ws_def by (subst (1) map_nth[of ws, symmetric]) (simp only: filter_map comp_def)
      then show ?thesis by simp
    qed
    finally have "nat rest \<le> length (filter (\<lambda>j. ?g j \<noteq> 0) idx)" using rest_le by simp
    moreover have "sorted (map ?g idx)" unfolding idx_def by simp
    moreover have "\<forall>j\<in>set idx. ?g j \<le> 0" using g1 by (simp add: idx_set)
    ultimately have "?g i \<noteq> 0" using take_positive \<open>i \<in> set (take (nat rest) idx)\<close> by blast
    then show False using g0[OF i] zero by simp
  qed
  have "splitByRatio amt ws = map2 (\<lambda>w a. \<lparr>refundUser = rwUser w, refundAmount = a\<rparr>) ws shares"
    using pos unfolding splitByRatio_def Let_def shares_def rest_def floors_def idx_def f_def b_def by simp
  moreover have "length shares = length ws" by (simp add: shares_def floors)
  moreover have "\<forall>i<length ws. f (ws ! i) div b \<le> shares ! i \<and> shares ! i \<le> f (ws ! i) div b + 1
       \<and> (f (ws ! i) mod b = 0 \<longrightarrow> shares ! i = f (ws ! i) div b)"
    using nth none by auto
  ultimately show ?thesis using that sum unfolding f_def b_def by blast
qed


lemma split_users: "map refundUser (splitByRatio amt ws) = map rwUser ws"
  by (auto simp: splitByRatio_def Let_def map2_map_map[symmetric] intro!: nth_equalityI)

lemma split_sum:
  assumes "split_range amt ws" "0 < sum_list (map weight ws)"
  shows "sum_list (map refundAmount (splitByRatio amt ws)) = amt"
proof (cases "0 < amt")
  case True
  obtain shares where "splitByRatio amt ws = map2 (\<lambda>w a. \<lparr>refundUser = rwUser w, refundAmount = a\<rparr>) ws shares"
    "length shares = length ws" "sum_list shares = amt"
    by (rule split_shares[OF assms True])
  moreover from this have "map refundAmount (splitByRatio amt ws) = shares"
    by (auto intro!: nth_equalityI)
  ultimately show ?thesis by simp
next
  case False
  then show ?thesis using assms(1) by (auto simp: splitByRatio_def split_range_def sum_list_all_zero comp_def)
qed

lemma split_nth:
  assumes "split_range amt ws" "0 < sum_list (map weight ws)" "0 < amt" "i < length ws"
  shows "amt * weight (ws ! i) div sum_list (map weight ws) \<le> refundAmount (splitByRatio amt ws ! i)
    \<and> refundAmount (splitByRatio amt ws ! i) \<le> amt * weight (ws ! i) div sum_list (map weight ws) + 1
    \<and> (amt * weight (ws ! i) mod sum_list (map weight ws) = 0 \<longrightarrow>
         refundAmount (splitByRatio amt ws ! i) = amt * weight (ws ! i) div sum_list (map weight ws))"
proof -
  obtain shares where "splitByRatio amt ws = map2 (\<lambda>w a. \<lparr>refundUser = rwUser w, refundAmount = a\<rparr>) ws shares"
    "length shares = length ws" "sum_list shares = amt"
    "\<forall>i<length ws. amt * weight (ws ! i) div sum_list (map weight ws) \<le> shares ! i
       \<and> shares ! i \<le> amt * weight (ws ! i) div sum_list (map weight ws) + 1
       \<and> (amt * weight (ws ! i) mod sum_list (map weight ws) = 0 \<longrightarrow>
            shares ! i = amt * weight (ws ! i) div sum_list (map weight ws))"
    by (rule split_shares[OF assms(1-3)])
  then show ?thesis using assms(4) by simp
qed

text \<open>When less than the weights is split, nobody gets more than the weight.\<close>

lemma split_capped:
  assumes range: "split_range amt ws" and le: "amt \<le> sum_list (map weight ws)" and i: "i < length ws"
  shows "refundAmount (splitByRatio amt ws ! i) \<le> weight (ws ! i)" "0 \<le> refundAmount (splitByRatio amt ws ! i)"
proof -
  let ?b = "sum_list (map weight ws)" and ?w = "weight (ws ! i)"
  have w: "0 \<le> ?w" using range i by (simp add: split_range_def)
  have "refundAmount (splitByRatio amt ws ! i) \<le> ?w \<and> 0 \<le> refundAmount (splitByRatio amt ws ! i)"
  proof (cases "0 < ?b \<and> 0 < amt")
    case True
    then have b: "0 < ?b" "0 < amt" by auto
    note n = split_nth[OF range b i]
    have m: "amt * ?w \<le> ?b * ?w" using le w by (intro mult_right_mono)
    have d: "?b * (amt * ?w div ?b) = amt * ?w - amt * ?w mod ?b" by (rule minus_mod_eq_mult_div[symmetric])
    have "refundAmount (splitByRatio amt ws ! i) \<le> ?w"
    proof (cases "amt * ?w mod ?b = 0")
      case True
      then have "?b * (amt * ?w div ?b) \<le> ?b * ?w" using d m by simp
      then show ?thesis using n True b(1) by simp
    next
      case False
      then have "0 < amt * ?w mod ?b" using b(1) pos_mod_sign[OF b(1), of "amt * ?w"] by linarith
      then have "?b * (amt * ?w div ?b) < ?b * ?w" using d m by simp
      then show ?thesis using n b(1) by simp
    qed
    moreover have "0 \<le> amt * ?w div ?b" using b w by (simp add: pos_imp_zdiv_nonneg_iff)
    ultimately show ?thesis using n by linarith
  next
    case False
    then have "splitByRatio amt ws = map (\<lambda>w. \<lparr>refundUser = rwUser w, refundAmount = 0\<rparr>) ws"
      by (auto simp: splitByRatio_def Let_def)
    then show ?thesis using i w by simp
  qed
  then show "refundAmount (splitByRatio amt ws ! i) \<le> ?w" "0 \<le> refundAmount (splitByRatio amt ws ! i)" by auto
qed

section \<open>The summary by group\<close>

lemma group_totals:
  "sum_list (map groupCount (fold (add_to_group rs) ps gs)) =
     sum_list (map groupCount gs) + (\<Sum>p\<leftarrow>ps. int (length (filter (\<lambda>g. groupKind g = group_kind p) gs)))
   \<and> sum_list (map groupAmount (fold (add_to_group rs) ps gs)) =
     sum_list (map groupAmount gs) + (\<Sum>p\<leftarrow>ps. refund_lookup rs (spUser p)
        * int (length (filter (\<lambda>g. groupKind g = group_kind p) gs)))
   \<and> map groupKind (fold (add_to_group rs) ps gs) = map groupKind gs"
proof (induction ps arbitrary: gs)
  case (Cons p ps)
  have kinds: "map groupKind (add_to_group rs p gs) = map groupKind gs"
    by (simp add: add_to_group_def)
  have same: "length (filter (\<lambda>g. groupKind g = k) (add_to_group rs p gs))
      = length (filter (\<lambda>g. groupKind g = k) gs)" for k
  proof -
    have "length (filter (\<lambda>g. groupKind g = k) xs) = length (filter (\<lambda>x. x = k) (map groupKind xs))"
      for xs :: "abort_group list" by (induction xs) simp_all
    then show ?thesis by (simp only: kinds)
  qed
  have "sum_list (map groupCount (add_to_group rs p gs)) =
      sum_list (map groupCount gs) + int (length (filter (\<lambda>g. groupKind g = group_kind p) gs))"
    "sum_list (map groupAmount (add_to_group rs p gs)) = sum_list (map groupAmount gs)
      + refund_lookup rs (spUser p) * int (length (filter (\<lambda>g. groupKind g = group_kind p) gs))"
    by (induction gs) (simp_all add: add_to_group_def distrib_left)
  then show ?case using Cons.IH[of "add_to_group rs p gs"] kinds by (simp add: same)
qed simp

lemma refund_lookup_sum:
  assumes "distinct (map refundUser rs)"
  shows "(\<Sum>r\<leftarrow>rs. refund_lookup rs (refundUser r)) = sum_list (map refundAmount rs)"
proof -
  have "refund_lookup rs (refundUser r) = refundAmount r" if "r \<in> set rs" for r
  proof -
    have "distinct (map fst (rev (map (\<lambda>r. (refundUser r, refundAmount r)) rs)))"
      using assms by (simp add: rev_map[symmetric] comp_def)
    then have "map_of (rev (map (\<lambda>r. (refundUser r, refundAmount r)) rs)) (refundUser r) = Some (refundAmount r)"
      using that by (intro map_of_is_SomeI) auto
    then show ?thesis by (simp add: refund_lookup_def)
  qed
  then have "map (\<lambda>r. refund_lookup rs (refundUser r)) rs = map refundAmount rs" by simp
  then show ?thesis by (rule arg_cong)
qed


section \<open>The amount in the message\<close>

definition parse_digits :: "string \<Rightarrow> nat" where
  "parse_digits cs = foldl (\<lambda>acc c. acc * 10 + (of_char c - 48)) 0 cs"

lemma parse_digits_digits: "parse_digits (digits n) = n"
proof (induction n rule: digits.induct)
  case (1 n)
  show ?case
  proof (cases "n < 10")
    case True
    then show ?thesis by (subst digits.simps) (simp add: parse_digits_def of_char_of)
  next
    case False
    then have "parse_digits (digits (n div 10)) = n div 10" using 1 by blast
    moreover have "of_char (char_of (48 + n mod 10) :: char) - 48 = n mod 10"
    proof -
      have "n mod 10 < 10" by simp
      then have "(48 + n mod 10) mod 256 = 48 + n mod 10" by (intro mod_less) linarith
      then show ?thesis by (simp only: of_char_of)
    qed
    moreover have "parse_digits (digits n) = parse_digits (digits (n div 10)) * 10
        + (of_char (char_of (48 + n mod 10) :: char) - 48)"
      by (subst digits.simps) (use False in \<open>simp add: parse_digits_def\<close>)
    ultimately show ?thesis by simp
  qed
qed

lemma digits_no_comma: "CHR '','' \<notin> set (digits n)"
proof (induction n rule: digits.induct)
  case (1 n)
  have no: "(CHR '','') \<noteq> char_of (48 + k)" if "k < 10" for k :: nat
  proof
    assume "(CHR '','') = char_of (48 + k)"
    then have "char_of (48 + k) = (CHR '','')" by (rule sym)
    then have "of_char (char_of (48 + k) :: char) = (of_char (CHR '','') :: nat)" by (rule arg_cong)
    then have "(48 + k) mod 256 = (44 :: nat)" by (simp add: of_char_of)
    then show False using that by simp
  qed
  show ?case
  proof (cases "n < 10")
    case True
    then show ?thesis using no[of n] by (simp only: digits.simps[of n]) simp
  next
    case False
    then show ?thesis using no[of "n mod 10"] 1[OF False] by (simp only: digits.simps[of n]) simp
  qed
qed

lemma group3_strip: "CHR '','' \<notin> set cs \<Longrightarrow> filter (\<lambda>c. c \<noteq> CHR '','') (group3 cs) = cs"
  by (induction cs rule: group3.induct) (auto simp: filter_id_conv)

lemma won_strip: "filter (\<lambda>c. c \<noteq> CHR '','') (won n) = digits n"
  using group3_strip[of "rev (digits n)"] digits_no_comma[of n]
  by (simp only: won_def rev_filter[symmetric] set_rev) simp

section \<open>Properties\<close>

text \<open>The split by ratio gives out the amount to the last unit, every share is the floor of the exact
  quotient or one more, and a weight whose quotient is exact (a weight of zero, in particular) gets
  exactly the quotient; so nobody without a claim receives an odd unit. Products stay below 2 to the
  53, where the code's doubles are exact enough.\<close>

theorem split_exact:
  assumes "split_range amt ws" "0 < sum_list (map weight ws)" "0 < amt"
  shows "sum_list (map refundAmount (splitByRatio amt ws)) = amt
    \<and> map refundUser (splitByRatio amt ws) = map rwUser ws
    \<and> (\<forall>i<length ws. let share = refundAmount (splitByRatio amt ws ! i);
                          exact = amt * weight (ws ! i); tot = sum_list (map weight ws)
        in exact div tot \<le> share \<and> share \<le> exact div tot + 1
           \<and> (exact mod tot = 0 \<longrightarrow> share = exact div tot))"
  using split_sum[OF assms(1,2)] split_users split_nth[OF assms] by (simp add: Let_def)

definition sample_weights :: "ratio_weight list" where
  "sample_weights = [\<lparr>rwUser = ''a'', weight = 1\<rparr>, \<lparr>rwUser = ''b'', weight = 1\<rparr>,
     \<lparr>rwUser = ''c'', weight = 1\<rparr>, \<lparr>rwUser = ''d'', weight = 0\<rparr>]"

theorem split_exact_witness:
  "sum_list (map refundAmount (splitByRatio 100 sample_weights)) = 100"
proof -
  have "split_range 100 sample_weights" "0 < sum_list (map weight sample_weights)"
    by (simp_all add: split_range_def sample_weights_def max_safe_def)
  then show ?thesis using split_exact[of 100 sample_weights] by simp
qed

text \<open>The settlement of an aborted tournament gives out what is left of the buy-ins, no more and no less:
  refunds and the store's part add up to it, no participant gets more than the claim or less than
  zero, and as long as the claims fit they are paid in full.\<close>

theorem abort_settlement_exact:
  fixes totalBuyin :: int
  assumes "split_range available (map (abort_claim entryFee) ps)"
  defines "r \<equiv> calculateAbortSettlement ps entryFee totalBuyin"
  assumes "available = max 0 (totalBuyin - sum_list (map prizeAmount ps))"
  shows "sum_list (map refundAmount (refunds r)) + storeAmount r = available \<and> 0 \<le> storeAmount r
    \<and> map refundUser (refunds r) = map spUser ps
    \<and> (\<forall>i<length ps. 0 \<le> refundAmount (refunds r ! i)
         \<and> refundAmount (refunds r ! i) \<le> weight (abort_claim entryFee (ps ! i))
         \<and> (\<not> scaled r \<longrightarrow> refundAmount (refunds r ! i) = weight (abort_claim entryFee (ps ! i))))"
proof -
  let ?claims = "map (abort_claim entryFee) ps"
  let ?wanted = "sum_list (map weight ?claims)"
  have user: "rwUser (abort_claim entryFee p) = spUser p" and pos: "0 \<le> weight (abort_claim entryFee p)" for p
    by (simp_all add: abort_claim_def Let_def)
  show ?thesis
  proof (cases "?wanted \<le> available")
    case True
    then show ?thesis using pos assms(3)
      by (simp add: r_def calculateAbortSettlement_def Let_def comp_def user)
  next
    case False
    then have r: "r = \<lparr>refunds = splitByRatio available ?claims, storeAmount = 0, scaled = True\<rparr>"
      using assms(3) by (simp add: r_def calculateAbortSettlement_def Let_def)
    have "0 < ?wanted" using False assms(3) by linarith
    moreover have "map rwUser ?claims = map spUser ps" by (simp add: user)
    ultimately show ?thesis
      using split_sum[OF assms(1)] split_users[of available ?claims] False
        split_capped[OF assms(1)] by (simp add: r)
  qed
qed

definition sample_participants :: "settlement_participant list" where
  "sample_participants =
    [\<lparr>spUser = ''a'', spStatus = PLAYING, buyInCount = 2, prizeAmount = 0\<rparr>,
     \<lparr>spUser = ''b'', spStatus = ELIMINATED, buyInCount = 1, prizeAmount = 0\<rparr>,
     \<lparr>spUser = ''c'', spStatus = AWARDED, buyInCount = 1, prizeAmount = 30000\<rparr>]"

theorem abort_settlement_exact_witness:
  "sum_list (map refundAmount (refunds (calculateAbortSettlement sample_participants 10000 40000)))
   + storeAmount (calculateAbortSettlement sample_participants 10000 40000) = 10000"
proof -
  have avail: "10000 = max 0 (40000 - sum_list (map prizeAmount sample_participants))"
    by (simp add: sample_participants_def)
  have "map (abort_claim 10000) sample_participants = [\<lparr>rwUser = ''a'', weight = 20000\<rparr>,
      \<lparr>rwUser = ''b'', weight = 5000\<rparr>, \<lparr>rwUser = ''c'', weight = 0\<rparr>]" by code_simp
  then have range: "split_range 10000 (map (abort_claim 10000) sample_participants)"
    by (simp add: split_range_def max_safe_def)
  show ?thesis by (rule conjunct1[OF abort_settlement_exact[OF range avail]])
qed

text \<open>A deal gives out the whole remaining prize, ranks every participant once, by chips, and nobody gets
  less than the floor of the share the chips are worth.\<close>

theorem chop_exact:
  fixes prize :: int
  assumes "split_range prize (map (\<lambda>p. \<lparr>rwUser = cpUser p, weight = currentStack p\<rparr>) ps)"
    and "distinct (map cpUser ps)" "0 < sum_list (map currentStack ps)" "0 < prize"
  defines "r \<equiv> calculateChop ps prize"
  shows "sum_list (map chopAmount r) = prize
    \<and> mset (map chopUser r) = mset (map cpUser ps)
    \<and> map chopPlace r = map (\<lambda>i. int i + 1) [0..<length ps]
    \<and> (\<exists>qs. mset qs = mset ps \<and> sorted_wrt (\<ge>) (map currentStack qs) \<and> map chopUser r = map cpUser qs
        \<and> (\<forall>i<length qs. prize * currentStack (qs ! i) div sum_list (map currentStack ps) \<le> chopAmount (r ! i)))"
proof -
  define qs where "qs = sort_key (\<lambda>p. - currentStack p) ps"
  define ws where "ws = map (\<lambda>p. \<lparr>rwUser = cpUser p, weight = currentStack p\<rparr>) qs"
  have ms: "mset qs = mset ps" by (simp add: qs_def)
  have len: "length qs = length ps" using ms mset_eq_length by blast
  have wsum: "sum_list (map weight ws) = sum_list (map currentStack ps)"
  proof -
    have "map weight ws = map currentStack qs" by (simp add: ws_def comp_def)
    moreover have "sum_list (map currentStack qs) = sum_list (map currentStack ps)"
      using ms by (metis mset_map sum_mset_sum_list)
    ultimately show ?thesis by simp
  qed
  have range: "split_range prize ws"
  proof -
    have "set qs = set ps" using ms by (rule mset_eq_setD)
    then show ?thesis using assms(1) unfolding split_range_def wsum by (simp add: ws_def comp_def)
  qed
  have users: "map refundUser (splitByRatio prize ws) = map cpUser qs"
    by (simp add: split_users) (simp add: ws_def)
  have dist: "distinct (map cpUser qs)" using assms(2) ms by (metis mset_eq_imp_distinct_iff mset_map)
  have r: "r = map2 (\<lambda>p i. \<lparr>chopUser = cpUser p, chopPlace = int i + 1,
      chopAmount = refund_lookup (splitByRatio prize ws) (cpUser p)\<rparr>) qs [0..<length qs]"
    by (simp add: r_def calculateChop_def Let_def qs_def ws_def)
  have lenr: "length (splitByRatio prize ws) = length qs" using users by (metis length_map)
  have lookup: "refund_lookup (splitByRatio prize ws) (cpUser (qs ! i)) = refundAmount (splitByRatio prize ws ! i)"
    if "i < length qs" for i
  proof -
    let ?kvs = "map (\<lambda>r. (refundUser r, refundAmount r)) (splitByRatio prize ws)"
    have "distinct (map fst (rev ?kvs))" using dist users by (simp add: rev_map[symmetric] comp_def)
    moreover have "refundUser (splitByRatio prize ws ! i) = cpUser (qs ! i)"
      using users that lenr by (metis nth_map)
    ultimately have "map_of (rev ?kvs) (cpUser (qs ! i)) = Some (refundAmount (splitByRatio prize ws ! i))"
      using that lenr by (intro map_of_is_SomeI) (auto simp: image_iff Bex_def in_set_conv_nth intro!: exI[of _ i])
    then show ?thesis by (simp add: refund_lookup_def)
  qed
  have amounts: "map chopAmount r = map refundAmount (splitByRatio prize ws)"
    by (rule nth_equalityI) (simp_all add: r lenr lookup)
  have "sum_list (map chopAmount r) = prize"
    unfolding amounts using split_sum[OF range] assms(3) wsum by simp
  moreover have cu: "map chopUser r = map cpUser qs" by (rule nth_equalityI) (simp_all add: r)
  moreover have "map chopPlace r = map (\<lambda>i. int i + 1) [0..<length ps]"
    by (rule nth_equalityI) (simp_all add: r len)
  moreover have "sorted_wrt (\<ge>) (map currentStack qs)"
  proof -
    have "sorted (map (\<lambda>p. - currentStack p) qs)" by (simp add: qs_def)
    then show ?thesis by (simp add: sorted_wrt_map)
  qed
  moreover have "prize * currentStack (qs ! i) div sum_list (map currentStack ps) \<le> chopAmount (r ! i)"
    if "i < length qs" for i
    using split_nth[OF range, of i] assms(3,4) that lookup[OF that] by (simp add: wsum) (simp add: ws_def r)
  moreover have "mset (map chopUser r) = mset (map cpUser ps)" unfolding cu mset_map ms ..
  ultimately show ?thesis using ms by blast
qed

theorem chop_exact_witness:
  "sum_list (map chopAmount (calculateChop
     [\<lparr>cpUser = ''a'', currentStack = 10\<rparr>, \<lparr>cpUser = ''b'', currentStack = 20\<rparr>] 1000)) = 1000"
  using chop_exact[of 1000 "[\<lparr>cpUser = ''a'', currentStack = 10\<rparr>, \<lparr>cpUser = ''b'', currentStack = 20\<rparr>]"]
  by (simp add: split_range_def max_safe_def)

text \<open>The summary an operator confirms before an abort counts every participant in exactly one of the
  three groups, and its amounts add up to the refunds that will be paid.\<close>

theorem abort_summary_complete:
  assumes "map refundUser rs = map spUser ps" "distinct (map spUser ps)"
  shows "map groupKind (groupAbortRefunds ps rs) = [LIVE, FINISHED_GROUP, PRIZED]
    \<and> sum_list (map groupCount (groupAbortRefunds ps rs)) = int (length ps)
    \<and> sum_list (map groupAmount (groupAbortRefunds ps rs)) = sum_list (map refundAmount rs)"
proof -
  let ?gs = "map (\<lambda>k. \<lparr>groupKind = k, groupCount = 0, groupAmount = 0\<rparr>) [LIVE, FINISHED_GROUP, PRIZED]
    :: abort_group list"
  have one: "length (filter (\<lambda>g. groupKind g = group_kind p) ?gs) = 1" for p
    by (cases "group_kind p") simp_all
  have "(\<Sum>p\<leftarrow>ps. refund_lookup rs (spUser p)) = sum_list (map (refund_lookup rs) (map spUser ps))"
    by (simp add: comp_def)
  also have "\<dots> = (\<Sum>r\<leftarrow>rs. refund_lookup rs (refundUser r))"
    unfolding assms(1)[symmetric] by (simp add: comp_def)
  also have "\<dots> = sum_list (map refundAmount rs)"
    using assms by (intro refund_lookup_sum) simp
  finally have amounts: "(\<Sum>p\<leftarrow>ps. refund_lookup rs (spUser p)) = sum_list (map refundAmount rs)" .
  show ?thesis
    using group_totals[of rs ps ?gs] unfolding groupAbortRefunds_def one
    by (simp add: amounts sum_list_triv)
qed

theorem abort_summary_complete_witness:
  "sum_list (map groupCount (groupAbortRefunds sample_participants
     (refunds (calculateAbortSettlement sample_participants 10000 40000)))) = 3"
proof -
  let ?rs = "refunds (calculateAbortSettlement sample_participants 10000 40000)"
  have "map refundUser ?rs = map spUser sample_participants" "distinct (map spUser sample_participants)"
    "length sample_participants = 3" by (code_simp, code_simp, code_simp)
  then show ?thesis using abort_summary_complete[of ?rs sample_participants] by simp
qed

text \<open>Completion is let through exactly when prizes and rake add up to the buy-ins; otherwise the message
  carries the difference, readable back from its digits.\<close>

theorem completeBlocker_correct:
  "case completeBlocker buyins paid rake of
     None \<Rightarrow> paid + rake = buyins
   | Some (PrizesRemaining s) \<Rightarrow>
       paid + rake < buyins \<and> int (parse_digits (filter (\<lambda>c. c \<noteq> CHR '','') s)) = buyins - paid - rake
   | Some (PrizesOverpaid s) \<Rightarrow>
       buyins < paid + rake \<and> int (parse_digits (filter (\<lambda>c. c \<noteq> CHR '','') s)) = paid + rake - buyins"
  by (auto simp: completeBlocker_def Let_def won_strip parse_digits_digits)

end
