(* ===== verification/Blinds.thy ===== *)
theory Blinds
  imports Prize
begin

text \<open>
  The blind clock and what hangs on it: \<open>backend/shared/util/util.ts\<close> (the level in force, the ante,
  the wire form, the parser of the stored structure), \<open>registration.ts\<close> and \<open>registration-gate.ts\<close>
  (until when players can register), and the board built from a tournament row in \<open>tournament-meta.ts\<close>.
  Times are integers of milliseconds; the clock's reading is an argument.
\<close>

section \<open>Blind levels\<close>

record blind_level =
  lv :: int
  sb :: int
  hasAnte :: bool
  duration :: int

definition BREAK_LEVEL :: int where
  "BREAK_LEVEL = 99"

record blind_timing =
  currentIndex :: int
  nextLevelAt :: int
  isBreak :: bool

definition level_ms :: "blind_level \<Rightarrow> int" where
  "level_ms l = duration l * 60 * 1000"

text \<open>The loop over the levels: \<open>i\<close> is the index of the head, \<open>acc\<close> the time before it.\<close>

fun find_level :: "int \<Rightarrow> int \<Rightarrow> int \<Rightarrow> int \<Rightarrow> blind_level list \<Rightarrow> blind_timing option" where
  "find_level startedAt elapsed i acc [] = None"
| "find_level startedAt elapsed i acc (l # ls) =
     (let acc' = acc + level_ms l in
      if elapsed < acc'
      then Some \<lparr>currentIndex = i, nextLevelAt = startedAt + acc', isBreak = (lv l = BREAK_LEVEL)\<rparr>
      else find_level startedAt elapsed (i + 1) acc' ls)"

text \<open>\<open>None\<close> is the exception of reading the level of an empty structure.\<close>

definition getCurrentBlindLevel :: "blind_level list \<Rightarrow> int \<Rightarrow> int \<Rightarrow> blind_timing option" where
  "getCurrentBlindLevel structure startedAt now =
     (case find_level startedAt (now - startedAt) 0 0 structure of
        Some t \<Rightarrow> Some t
      | None \<Rightarrow>
          if structure = [] then None
          else Some \<lparr>currentIndex = int (length structure) - 1,
                     nextLevelAt = now + 24 * 60 * 60 * 1000,
                     isBreak = (lv (last structure) = BREAK_LEVEL)\<rparr>)"

section \<open>The ante and the wire form\<close>

text \<open>\<open>sb / 5\<close> is an integer for the structures the DTO admits; \<open>deriveAnteAmount\<close> is the quotient then.\<close>

definition deriveAnteAmount :: "int \<Rightarrow> bool \<Rightarrow> int" where
  "deriveAnteAmount s ante_on = (if ante_on then s div 5 else 0)"

record wire_level =
  wireLv :: int
  wireSb :: int
  wireAnte :: int
  wireDuration :: int

definition toWireBlindStructure :: "blind_level list \<Rightarrow> wire_level list" where
  "toWireBlindStructure structure =
     map (\<lambda>l. \<lparr>wireLv = lv l, wireSb = sb l, wireAnte = deriveAnteAmount (sb l) (hasAnte l),
               wireDuration = duration l\<rparr>) structure"

section \<open>Reading a stored structure\<close>

datatype js_value = VNum int | VBool bool | VOther

record raw_level =
  rawLv :: js_value
  rawSb :: js_value
  rawAnte :: js_value
  rawDuration :: js_value

datatype blind_error = InvalidStructure | InvalidLevelFormat

fun parse_level :: "raw_level \<Rightarrow> blind_level option" where
  "parse_level r =
     (case (rawLv r, rawSb r, rawAnte r, rawDuration r) of
        (VNum l, VNum s, VBool a, VNum d) \<Rightarrow> Some \<lparr>lv = l, sb = s, hasAnte = a, duration = d\<rparr>
      | _ \<Rightarrow> None)"

fun parse_levels :: "raw_level list \<Rightarrow> blind_error + blind_level list" where
  "parse_levels [] = Inr []"
| "parse_levels (r # rs) =
     (case parse_level r of
        None \<Rightarrow> Inl InvalidLevelFormat
      | Some l \<Rightarrow> (case parse_levels rs of Inl e \<Rightarrow> Inl e | Inr ls \<Rightarrow> Inr (l # ls)))"

definition parseBlindStructure :: "raw_level json \<Rightarrow> blind_error + blind_level list" where
  "parseBlindStructure data =
     (case data of
        JArray rs \<Rightarrow> if rs = [] then Inl InvalidStructure else parse_levels rs
      | _ \<Rightarrow> Inl InvalidStructure)"

section \<open>Registration\<close>

text \<open>The loop from the current index down to the last level that is no break.\<close>

fun registration_scan :: "int list \<Rightarrow> nat \<Rightarrow> int" where
  "registration_scan lvs 0 = 0"
| "registration_scan lvs (Suc i) =
     (if i < length lvs \<and> lvs ! i \<noteq> BREAK_LEVEL then lvs ! i else registration_scan lvs i)"

definition currentRegistrationLevel :: "int list \<Rightarrow> int \<Rightarrow> int" where
  "currentRegistrationLevel lvs idx =
     registration_scan lvs (nat (min idx (int (length lvs) - 1) + 1))"

definition isRegistrationOpenAtLevel :: "bool \<Rightarrow> int \<Rightarrow> int \<Rightarrow> bool" where
  "isRegistrationOpenAtLevel manuallyOpen currentLv rebuyUntil \<longleftrightarrow> manuallyOpen \<and> currentLv < rebuyUntil"

record registration_source =
  rsOpen :: bool
  rsRebuyUntil :: int
  rsStartedAt :: "int option"
  rsPausedMs :: int
  rsPausedAt :: "int option"
  rsStructure :: "raw_level json"

definition isRegistrationOpenNow :: "registration_source \<Rightarrow> int \<Rightarrow> blind_error + bool" where
  "isRegistrationOpenNow t now =
     (case rsStartedAt t of
        None \<Rightarrow> Inr (rsOpen t)
      | Some started \<Rightarrow>
          (case parseBlindStructure (rsStructure t) of
             Inl e \<Rightarrow> Inl e
           | Inr structure \<Rightarrow>
               (case getCurrentBlindLevel structure (started + rsPausedMs t)
                       (case rsPausedAt t of Some p \<Rightarrow> p | None \<Rightarrow> now) of
                  None \<Rightarrow> Inl InvalidStructure
                | Some timing \<Rightarrow>
                    Inr (isRegistrationOpenAtLevel (rsOpen t)
                           (currentRegistrationLevel (map lv structure) (currentIndex timing))
                           (rsRebuyUntil t)))))"

text \<open>The gate asks the board in Redis first; \<open>dashboardOpen\<close> is what it holds, if anything.\<close>

definition isRegistrationOpenLive ::
  "bool option \<Rightarrow> registration_source \<Rightarrow> int \<Rightarrow> blind_error + bool" where
  "isRegistrationOpenLive dashboardOpen t now =
     (if rsStartedAt t = None then Inr (rsOpen t)
      else case dashboardOpen of Some b \<Rightarrow> Inr b | None \<Rightarrow> isRegistrationOpenNow t now)"

section \<open>The board of a tournament\<close>

record meta_source =
  msName :: string
  msEntryFee :: int
  msStartStack :: int
  msRegistrationOpen :: bool
  msTotalPlayers :: int
  msActivePlayers :: int
  msTotalBuyinAmount :: int
  msRakePercent :: int
  msRebuyUntil :: int
  msAvgStack :: int
  msPayoutTable :: "payout_tier json"
  msBlindStructure :: "raw_level json"

record dashboard =
  dbIsRegistrationOpen :: bool
  dbTotalPlayer :: int
  dbActivePlayer :: int
  dbTotalBuyinAmount :: int
  dbRakePercent :: int
  dbRebuyUntil :: int
  dbAvgStack :: int
  dbEntryFee :: int
  dbTournamentName :: string
  dbStartStack :: int
  dbPrizePool :: int
  dbEntryCount :: int
  dbItmCount :: int
  dbPrizes :: "(prize_payout \<times> int) list"

record blind_field =
  bfIsBreak :: bool
  bfStartedAt :: int
  bfCurrentBlindLv :: int
  bfNextLevelAt :: int
  bfServerTime :: int
  bfBlindStructure :: "blind_level list"
  bfPausedAt :: "int option"

datatype meta_error = BlindError blind_error | PayoutError payout_error

definition buildTournamentMeta ::
  "meta_source \<Rightarrow> int \<Rightarrow> int option \<Rightarrow> int \<Rightarrow> meta_error + dashboard \<times> blind_field \<times> payout_tier list" where
  "buildTournamentMeta game blindBaseAt pausedAt now =
     (case parseBlindStructure (msBlindStructure game) of
        Inl e \<Rightarrow> Inl (BlindError e)
      | Inr structure \<Rightarrow>
        (case getCurrentBlindLevel structure blindBaseAt (case pausedAt of Some p \<Rightarrow> p | None \<Rightarrow> now) of
           None \<Rightarrow> Inl (BlindError InvalidStructure)
         | Some info \<Rightarrow>
           (let curLv = currentRegistrationLevel (map lv structure) (currentIndex info);
                entryCount = entryCountOf (msTotalBuyinAmount game) (msEntryFee game)
            in case startablePayoutTable (msPayoutTable game) of
                 Inl e \<Rightarrow> Inl (PayoutError e)
               | Inr table \<Rightarrow>
                 (let pays = (case payoutsFor entryCount table of Some ps \<Rightarrow> ps | None \<Rightarrow> []) in
                  Inr (\<lparr>dbIsRegistrationOpen =
                          isRegistrationOpenAtLevel (msRegistrationOpen game) curLv (msRebuyUntil game),
                        dbTotalPlayer = msTotalPlayers game, dbActivePlayer = msActivePlayers game,
                        dbTotalBuyinAmount = msTotalBuyinAmount game, dbRakePercent = msRakePercent game,
                        dbRebuyUntil = msRebuyUntil game, dbAvgStack = msAvgStack game,
                        dbEntryFee = msEntryFee game, dbTournamentName = msName game,
                        dbStartStack = msStartStack game,
                        dbPrizePool = prizePoolOf (msTotalBuyinAmount game) (msRakePercent game),
                        dbEntryCount = entryCount, dbItmCount = int (length pays),
                        dbPrizes = map (\<lambda>p. (p, 0)) pays\<rparr>,
                       \<lparr>bfIsBreak = isBreak info, bfStartedAt = blindBaseAt,
                        bfCurrentBlindLv = currentIndex info, bfNextLevelAt = nextLevelAt info,
                        bfServerTime = now, bfBlindStructure = structure, bfPausedAt = pausedAt\<rparr>,
                       table)))))"

end
