(* ===== verification/BlindProps.thy ===== *)
theory BlindProps
  imports Blinds PrizeProps
begin

text \<open>
  The blind clock gives the level whose time span contains the moment, never goes back, and so a
  registration that closed because of the level stays closed.
\<close>

definition elapsed_before :: "blind_level list \<Rightarrow> nat \<Rightarrow> int" where
  "elapsed_before structure i = sum_list (map level_ms (take i structure))"

lemma find_level_Some:
  "find_level s e i acc ls = Some t \<Longrightarrow> acc \<le> e \<Longrightarrow>
   \<exists>k<length ls. currentIndex t = i + int k \<and> acc + elapsed_before ls k \<le> e
     \<and> e < acc + elapsed_before ls (Suc k) \<and> nextLevelAt t = s + acc + elapsed_before ls (Suc k)
     \<and> isBreak t = (lv (ls ! k) = BREAK_LEVEL)"
proof (induction s e i acc ls rule: find_level.induct)
  case (2 s e i acc l ls)
  show ?case
  proof (cases "e < acc + level_ms l")
    case True
    then show ?thesis using 2(2,3) by (intro exI[of _ 0]) (auto simp: elapsed_before_def Let_def)
  next
    case False
    then obtain k where "k < length ls" "currentIndex t = i + 1 + int k"
      "acc + level_ms l + elapsed_before ls k \<le> e" "e < acc + level_ms l + elapsed_before ls (Suc k)"
      "nextLevelAt t = s + (acc + level_ms l) + elapsed_before ls (Suc k)"
      "isBreak t = (lv (ls ! k) = BREAK_LEVEL)"
      using 2(1)[OF refl] 2(2) by (auto simp: Let_def)
    then show ?thesis by (intro exI[of _ "Suc k"]) (auto simp: elapsed_before_def)
  qed
qed simp

lemma find_level_None:
  "find_level s e i acc ls = None \<Longrightarrow> ls \<noteq> [] \<Longrightarrow> acc + elapsed_before ls (length ls) \<le> e"
proof (induction s e i acc ls rule: find_level.induct)
  case (2 s e i acc l ls)
  then show ?case by (cases "ls = []") (auto simp: elapsed_before_def Let_def split: if_splits)
qed simp

text \<open>The clock reading, as a specification: in which level, until when.\<close>

definition in_level :: "blind_level list \<Rightarrow> int \<Rightarrow> int \<Rightarrow> nat \<Rightarrow> int \<Rightarrow> bool" where
  "in_level structure startedAt now i next \<longleftrightarrow> i < length structure
     \<and> startedAt + elapsed_before structure i \<le> now
     \<and> (if now < startedAt + elapsed_before structure (length structure)
        then now < next \<and> next = startedAt + elapsed_before structure (Suc i)
        else Suc i = length structure \<and> next = now + 86400000)"

lemma elapsed_mono:
  assumes "\<forall>l\<in>set structure. 0 \<le> duration l" "i \<le> j"
  shows "elapsed_before structure i \<le> elapsed_before structure j"
proof -
  have "take j structure = take i structure @ take (j - i) (drop i structure)"
    using assms(2) by (metis le_add_diff_inverse take_add)
  then have "elapsed_before structure j = elapsed_before structure i
      + sum_list (map level_ms (take (j - i) (drop i structure)))"
    by (simp add: elapsed_before_def)
  moreover have "0 \<le> sum_list (map level_ms (take (j - i) (drop i structure)))"
    using assms(1) by (intro sum_list_nonneg) (auto simp: level_ms_def dest!: in_set_takeD in_set_dropD)
  ultimately show ?thesis by simp
qed

lemma getCurrentBlindLevel_spec:
  assumes "structure \<noteq> []" "\<forall>l\<in>set structure. 0 \<le> duration l" "startedAt \<le> now"
  obtains t i where "getCurrentBlindLevel structure startedAt now = Some t"
    "currentIndex t = int i" "in_level structure startedAt now i (nextLevelAt t)"
    "isBreak t = (lv (structure ! i) = BREAK_LEVEL)"
proof (cases "find_level startedAt (now - startedAt) 0 0 structure")
  case (Some t)
  then obtain k where k: "k < length structure" "currentIndex t = int k"
    "elapsed_before structure k \<le> now - startedAt" "now - startedAt < elapsed_before structure (Suc k)"
    "nextLevelAt t = startedAt + elapsed_before structure (Suc k)"
    "isBreak t = (lv (structure ! k) = BREAK_LEVEL)"
    using find_level_Some[OF Some] assms(3) by auto
  have "elapsed_before structure (Suc k) \<le> elapsed_before structure (length structure)"
    using k(1) by (intro elapsed_mono[OF assms(2)]) simp
  then have "in_level structure startedAt now k (nextLevelAt t)" using k by (simp add: in_level_def)
  then show ?thesis using that[of t k] Some k by (simp add: getCurrentBlindLevel_def)
next
  case None
  define k where "k = length structure - 1"
  have k: "Suc k = length structure" using assms(1) by (simp add: k_def)
  have over: "elapsed_before structure (length structure) \<le> now - startedAt"
    using find_level_None[OF None assms(1)] by simp
  have "elapsed_before structure k \<le> elapsed_before structure (length structure)"
    by (intro elapsed_mono[OF assms(2)]) (simp add: k_def)
  then have "in_level structure startedAt now k (now + 86400000)"
    using over k by (auto simp: in_level_def)
  moreover have "lv (last structure) = lv (structure ! k)" using assms(1) by (simp add: last_conv_nth k_def)
  ultimately show ?thesis
    using that[of "\<lparr>currentIndex = int k, nextLevelAt = now + 86400000,
        isBreak = (lv (structure ! k) = BREAK_LEVEL)\<rparr>" k] None assms(1) k
    by (simp add: getCurrentBlindLevel_def k_def of_nat_diff)
qed

lemma in_level_mono:
  assumes "\<forall>l\<in>set structure. 0 \<le> duration l" "now \<le> now'"
    and "in_level structure s now i n" "in_level structure s now' i' n'"
  shows "i \<le> i'"
proof (rule ccontr)
  assume "\<not> i \<le> i'"
  then have lt: "Suc i' \<le> i" by simp
  have "elapsed_before structure (Suc i') \<le> elapsed_before structure i"
    by (rule elapsed_mono[OF assms(1) lt])
  moreover have "i < length structure" using assms(3) by (simp add: in_level_def)
  ultimately show False using assms(2-4) lt by (auto simp: in_level_def split: if_splits)
qed

section \<open>Registration\<close>

lemma registration_scan_last:
  "registration_scan lvs n =
     (case filter (\<lambda>x. x \<noteq> BREAK_LEVEL) (take n lvs) of [] \<Rightarrow> 0 | x # xs \<Rightarrow> last (x # xs))"
proof (induction n)
  case (Suc n)
  show ?case
  proof (cases "n < length lvs")
    case True
    have "filter (\<lambda>x. x \<noteq> BREAK_LEVEL) (take (Suc n) lvs)
        = filter (\<lambda>x. x \<noteq> BREAK_LEVEL) (take n lvs) @ (if lvs ! n \<noteq> BREAK_LEVEL then [lvs ! n] else [])"
      using True by (simp add: take_Suc_conv_app_nth)
    then show ?thesis using True Suc by (auto split: list.splits)
  next
    case False
    then show ?thesis using Suc by simp
  qed
qed simp

lemma registration_scan_mono:
  assumes "sorted (filter (\<lambda>x. x \<noteq> BREAK_LEVEL) lvs)" "\<forall>x\<in>set lvs. 0 \<le> x" "m \<le> n"
  shows "registration_scan lvs m \<le> registration_scan lvs n"
proof -
  let ?f = "filter (\<lambda>x. x \<noteq> BREAK_LEVEL)"
  obtain zs where zs: "?f (take n lvs) = ?f (take m lvs) @ ?f zs" "set zs \<subseteq> set lvs"
  proof -
    have "take n lvs = take m lvs @ take (n - m) (drop m lvs)"
      using assms(3) by (metis le_add_diff_inverse take_add)
    then show ?thesis using that[of "take (n - m) (drop m lvs)"]
      by (auto dest!: in_set_takeD in_set_dropD)
  qed
  have srt: "sorted (?f (take n lvs))"
  proof -
    have "?f lvs = ?f (take n lvs) @ ?f (drop n lvs)" by (metis append_take_drop_id filter_append)
    then show ?thesis using assms(1) by (simp add: sorted_append)
  qed
  show ?thesis
  proof (cases "?f (take m lvs) = []")
    case True
    have "0 \<le> registration_scan lvs n"
      using assms(2) last_in_set[of "?f (take n lvs)"] unfolding registration_scan_last
      by (auto split: list.splits dest!: in_set_takeD)
    then show ?thesis using True by (simp add: registration_scan_last)
  next
    case False
    then have "registration_scan lvs m = last (?f (take m lvs))"
      by (auto simp: registration_scan_last split: list.splits)
    moreover have "registration_scan lvs n = last (?f (take n lvs))"
      using False zs(1) by (auto simp: registration_scan_last split: list.splits)
    moreover have "last (?f (take m lvs)) \<le> last (?f (take n lvs))"
    proof (cases "?f zs = []")
      case False
      then have "last (?f (take n lvs)) \<in> set (?f zs)" using zs(1) by (metis last_appendR last_in_set)
      moreover have "last (?f (take m lvs)) \<in> set (?f (take m lvs))"
        using \<open>?f (take m lvs) \<noteq> []\<close> by (rule last_in_set)
      ultimately show ?thesis using srt unfolding zs(1) sorted_append by blast
    qed (use zs in simp)
    ultimately show ?thesis by simp
  qed
qed

lemma currentRegistrationLevel_mono:
  assumes "sorted (filter (\<lambda>x. x \<noteq> BREAK_LEVEL) lvs)" "\<forall>x\<in>set lvs. 0 \<le> x" "i \<le> j"
  shows "currentRegistrationLevel lvs i \<le> currentRegistrationLevel lvs j"
  unfolding currentRegistrationLevel_def
  by (rule registration_scan_mono[OF assms(1,2)]) (use assms(3) in linarith)

section \<open>Properties\<close>

text \<open>C28. The blind clock is exact: for a nonempty structure and a moment not before the start it returns the
  one level whose span contains the moment, with the end of that span as the time of the next level,
  always in the future; after the last level it stays there, with the next level a day away.\<close>

theorem blind_clock_exact:
  assumes "structure \<noteq> []" "\<forall>l\<in>set structure. 0 \<le> duration l" "startedAt \<le> now"
  shows "\<exists>t i. getCurrentBlindLevel structure startedAt now = Some t \<and> currentIndex t = int i
    \<and> in_level structure startedAt now i (nextLevelAt t) \<and> now < nextLevelAt t
    \<and> isBreak t = (lv (structure ! i) = BREAK_LEVEL)"
proof -
  obtain t i where t: "getCurrentBlindLevel structure startedAt now = Some t"
    "currentIndex t = int i" "in_level structure startedAt now i (nextLevelAt t)"
    "isBreak t = (lv (structure ! i) = BREAK_LEVEL)"
    using assms by (rule getCurrentBlindLevel_spec)
  moreover have "now < nextLevelAt t" using t(3) by (simp add: in_level_def split: if_splits)
  ultimately show ?thesis by blast
qed

definition sample_structure :: "blind_level list" where
  "sample_structure = [\<lparr>lv = 1, sb = 100, hasAnte = False, duration = 10\<rparr>,
     \<lparr>lv = 2, sb = 200, hasAnte = True, duration = 10\<rparr>, \<lparr>lv = 99, sb = 200, hasAnte = False, duration = 5\<rparr>,
     \<lparr>lv = 3, sb = 400, hasAnte = True, duration = 10\<rparr>]"

theorem blind_clock_exact_witness:
  "\<exists>t. getCurrentBlindLevel sample_structure 0 1300000 = Some t \<and> 1300000 < nextLevelAt t"
proof -
  have "sample_structure \<noteq> []" "\<forall>l\<in>set sample_structure. 0 \<le> duration l" "(0::int) \<le> 1300000"
    by (simp_all add: sample_structure_def)
  from blind_clock_exact[OF this] show ?thesis by blast
qed

text \<open>Registration that the blind level has closed never opens again by itself: with levels that do not
  fall (breaks aside), a later moment is at the same or a later level, and a registration refused at
  one moment is refused at every later one.\<close>

theorem registration_stays_closed:
  assumes "structure \<noteq> []" "\<forall>l\<in>set structure. 0 \<le> duration l \<and> 0 \<le> lv l"
    and "sorted (filter (\<lambda>x. x \<noteq> BREAK_LEVEL) (map lv structure))"
    and "startedAt \<le> now" "now \<le> now'"
    and "getCurrentBlindLevel structure startedAt now = Some t"
    and "getCurrentBlindLevel structure startedAt now' = Some t'"
    and "\<not> isRegistrationOpenAtLevel open_flag (currentRegistrationLevel (map lv structure) (currentIndex t)) until"
  shows "currentIndex t \<le> currentIndex t'
    \<and> \<not> isRegistrationOpenAtLevel open_flag (currentRegistrationLevel (map lv structure) (currentIndex t')) until"
proof -
  have dur: "\<forall>l\<in>set structure. 0 \<le> duration l" using assms(2) by blast
  obtain i where i: "currentIndex t = int i" "in_level structure startedAt now i (nextLevelAt t)"
    using getCurrentBlindLevel_spec[OF assms(1) dur assms(4)] assms(6) by (metis option.inject)
  have "startedAt \<le> now'" using assms(4,5) by simp
  then obtain i' where i': "currentIndex t' = int i'" "in_level structure startedAt now' i' (nextLevelAt t')"
    using getCurrentBlindLevel_spec[OF assms(1) dur] assms(7) by (metis option.inject)
  have le: "currentIndex t \<le> currentIndex t'"
    using in_level_mono[OF dur assms(5) i(2) i'(2)] i(1) i'(1) by simp
  have "\<forall>x\<in>set (map lv structure). 0 \<le> x" using assms(2) by simp
  then have "currentRegistrationLevel (map lv structure) (currentIndex t)
      \<le> currentRegistrationLevel (map lv structure) (currentIndex t')"
    using currentRegistrationLevel_mono[OF assms(3) _ le] by simp
  then show ?thesis using assms(8) le by (auto simp: isRegistrationOpenAtLevel_def)
qed

theorem registration_stays_closed_witness:
  "\<exists>t'. getCurrentBlindLevel sample_structure 0 2000000 = Some t'
     \<and> \<not> isRegistrationOpenAtLevel True (currentRegistrationLevel (map lv sample_structure) (currentIndex t')) 2"
proof -
  let ?t = "\<lparr>currentIndex = 1, nextLevelAt = 1200000, isBreak = False\<rparr>"
  let ?t' = "\<lparr>currentIndex = 3, nextLevelAt = 2100000, isBreak = False\<rparr>"
  have "sample_structure \<noteq> []" "\<forall>l\<in>set sample_structure. 0 \<le> duration l \<and> 0 \<le> lv l"
    "sorted (filter (\<lambda>x. x \<noteq> BREAK_LEVEL) (map lv sample_structure))" "(0::int) \<le> 700000" "(700000::int) \<le> 2000000"
    by (simp_all add: sample_structure_def BREAK_LEVEL_def)
  moreover have t: "getCurrentBlindLevel sample_structure 0 700000 = Some ?t"
    "getCurrentBlindLevel sample_structure 0 2000000 = Some ?t'"
    "\<not> isRegistrationOpenAtLevel True (currentRegistrationLevel (map lv sample_structure) (currentIndex ?t)) 2"
    by (code_simp, code_simp, code_simp)
  ultimately show ?thesis using registration_stays_closed[of sample_structure 0 700000 2000000 ?t ?t' True 2] by blast
qed

lemma parse_levels_length: "parse_levels rs = Inr ls \<Longrightarrow> length ls = length rs"
  by (induction rs arbitrary: ls) (auto simp del: parse_level.simps split: option.splits sum.splits)

lemma parseBlindStructure_nonempty: "parseBlindStructure raw = Inr ls \<Longrightarrow> ls \<noteq> []"
  by (auto simp: parseBlindStructure_def split: json.splits if_splits dest: parse_levels_length)

lemma getCurrentBlindLevel_index:
  assumes "getCurrentBlindLevel ls s now = Some t"
  shows "0 \<le> currentIndex t \<and> currentIndex t < int (length ls)"
proof -
  have scan: "i \<le> currentIndex t' \<and> currentIndex t' < i + int (length xs)"
    if "find_level s e i acc xs = Some t'" for e i acc xs t'
    using that by (induction s e i acc xs rule: find_level.induct) (fastforce simp: Let_def split: if_splits)+
  show ?thesis
  proof (cases "find_level s (now - s) 0 0 ls")
    case None
    then show ?thesis using assms by (cases ls) (auto simp: getCurrentBlindLevel_def split: if_splits)
  next
    case (Some t')
    then show ?thesis using assms scan[OF Some] by (simp add: getCurrentBlindLevel_def)
  qed
qed

lemma rakeOf_bounds:
  assumes "0 \<le> amt" "0 \<le> pct" "pct \<le> 100" "amt * 100 < max_safe"
  shows "0 \<le> rakeOf amt pct" "rakeOf amt pct \<le> amt"
proof -
  have le: "amt * pct \<le> amt * 100" using assms by (intro mult_left_mono)
  have "js_floor_div (amt * pct) 100 = amt * pct div 100"
    using assms le by (intro js_floor_div_exact) (simp_all add: max_safe_def)
  moreover have "0 \<le> amt * pct div 100" using assms by (simp add: pos_imp_zdiv_nonneg_iff)
  moreover have "amt * pct div 100 \<le> amt * 100 div 100" by (rule zdiv_mono1[OF le]) simp
  ultimately show "0 \<le> rakeOf amt pct" "rakeOf amt pct \<le> amt" using assms(1) by (simp_all add: rakeOf_def)
qed

lemma payoutsFor_nonempty:
  assumes "startablePayoutTable raw = Inr ts" "payoutsFor n ts = Some ps"
  shows "ps \<noteq> []"
proof -
  have "parsePayoutTable raw = Inr ts"
    using assms(1) by (auto simp: startablePayoutTable_def split: sum.splits)
  then obtain u us where ts: "ts = u # us" "\<forall>u\<in>set ts. \<exists>ps. parsePayouts ps = Inr (payouts u)"
    by (rule parsePayoutTable_Inr)
  have "choose_tier n c xs \<in> set (c # xs)" for c xs
    by (induction n c xs rule: choose_tier.induct) auto
  then have "choose_tier n u ts \<in> set ts" using ts(1) by fastforce
  then obtain qs where "parsePayouts qs = Inr (payouts (choose_tier n u ts))" using ts(2) by blast
  then show ?thesis using parsePayouts_Inr(2) assms(2) ts(1) by (simp add: payoutsFor_def)
qed

text \<open>The board of a tournament is consistent: it is built exactly when structure and payout table are
  usable, prize pool and rake add up to the buy-ins, the number of paid places is positive and the
  clock it shows lies inside the structure.\<close>

theorem board_consistent:
  assumes "buildTournamentMeta game base paused now = Inr (d, b, table)"
    and "0 \<le> msTotalBuyinAmount game" "0 \<le> msRakePercent game" "msRakePercent game \<le> 100"
    and "msTotalBuyinAmount game * 100 < max_safe"
  shows "dbPrizePool d + rakeOf (dbTotalBuyinAmount d) (dbRakePercent d) = dbTotalBuyinAmount d
    \<and> 0 \<le> dbPrizePool d \<and> dbPrizePool d \<le> dbTotalBuyinAmount d
    \<and> dbItmCount d = int (length (dbPrizes d)) \<and> 1 \<le> dbItmCount d
    \<and> 0 \<le> bfCurrentBlindLv b \<and> bfCurrentBlindLv b < int (length (bfBlindStructure b))"
proof -
  obtain levels info where s: "parseBlindStructure (msBlindStructure game) = Inr levels"
    and info: "getCurrentBlindLevel levels base (case paused of Some p \<Rightarrow> p | None \<Rightarrow> now) = Some info"
    and t: "startablePayoutTable (msPayoutTable game) = Inr table"
    and d: "dbPrizePool d = prizePoolOf (msTotalBuyinAmount game) (msRakePercent game)"
      "dbTotalBuyinAmount d = msTotalBuyinAmount game" "dbRakePercent d = msRakePercent game"
      "dbItmCount d = int (length (case payoutsFor (entryCountOf (msTotalBuyinAmount game) (msEntryFee game)) table
          of Some ps \<Rightarrow> ps | None \<Rightarrow> []))"
      "dbItmCount d = int (length (dbPrizes d))"
    and b: "bfCurrentBlindLv b = currentIndex info" "bfBlindStructure b = levels"
    using assms(1) by (auto simp: buildTournamentMeta_def Let_def split: sum.splits option.splits)
  have "parsePayoutTable (msPayoutTable game) = Inr table"
    using t by (auto simp: startablePayoutTable_def split: sum.splits)
  then obtain u us where "table = u # us" by (rule parsePayoutTable_Inr)
  then obtain ps where ps: "payoutsFor (entryCountOf (msTotalBuyinAmount game) (msEntryFee game)) table = Some ps"
    by (simp add: payoutsFor_def)
  then have "ps \<noteq> []" by (rule payoutsFor_nonempty[OF t])
  then have "1 \<le> dbItmCount d" using d(4) ps by (cases ps) auto
  then show ?thesis
    using rakeOf_bounds[OF assms(2-5)] getCurrentBlindLevel_index[OF info] d b
    by (simp add: prizePoolOf_def)
qed

definition sample_meta :: meta_source where
  "sample_meta = \<lparr>msName = ''cup'', msEntryFee = 10000, msStartStack = 30000, msRegistrationOpen = True,
     msTotalPlayers = 7, msActivePlayers = 7, msTotalBuyinAmount = 70000, msRakePercent = 10,
     msRebuyUntil = 3, msAvgStack = 30000, msPayoutTable = JArray DEFAULT_PAYOUT_TABLE,
     msBlindStructure = JArray [\<lparr>rawLv = VNum 1, rawSb = VNum 100, rawAnte = VBool True, rawDuration = VNum 10\<rparr>]\<rparr>"

theorem board_consistent_witness:
  "\<exists>d b table. buildTournamentMeta sample_meta 0 None 60000 = Inr (d, b, table)
     \<and> dbPrizePool d + rakeOf (dbTotalBuyinAmount d) (dbRakePercent d) = dbTotalBuyinAmount d"
proof -
  have "\<not> isl (buildTournamentMeta sample_meta 0 None 60000)" by code_simp
  then obtain d b table where m: "buildTournamentMeta sample_meta 0 None 60000 = Inr (d, b, table)"
    by (cases "buildTournamentMeta sample_meta 0 None 60000") auto
  have "0 \<le> msTotalBuyinAmount sample_meta" "0 \<le> msRakePercent sample_meta"
    "msRakePercent sample_meta \<le> 100" "msTotalBuyinAmount sample_meta * 100 < max_safe"
    by (simp_all add: sample_meta_def max_safe_def)
  from board_consistent[OF m this] show ?thesis using m by blast
qed

end
