(* ===== verification/Outage.thy ===== *)
theory Outage
  imports Prelude
begin

text \<open>
  The in-process outage machines of \<open>backend/src/redis\<close>: the connection state of Redis
  (\<open>outage.ts\<close>, class \<open>RedisOutage\<close>), the mirror of a committed write (\<open>mirror.ts\<close>), the pause of a
  tournament whose line is down (\<open>line-pause.ts\<close>, class \<open>LinePause\<close>) and the registered dealer check
  (\<open>dealer-liveness.ts\<close>). A subscribed callback is a name; firing it moves the name to a log, so
  that \<open>exactly once\<close> can be stated. A callback that throws is swallowed by the code, which is why
  firing is total here.
\<close>

section \<open>The connection to Redis\<close>

datatype outage_phase = Booting | Up | Down | Recovering

record outage =
  outPhase :: outage_phase
  generation :: int
  downSince :: "int option"
  downWaiters :: "nat list"
  upWaiters :: "nat list"
  fired :: "nat list"

definition new_outage :: "bool \<Rightarrow> outage" where
  "new_outage ready = \<lparr>outPhase = (if ready then Up else Booting), generation = 0, downSince = None,
     downWaiters = [], upWaiters = [], fired = []\<rparr>"

definition isUp :: "outage \<Rightarrow> bool" where
  "isUp s \<longleftrightarrow> outPhase s = Up"

definition releaseUpWaiters :: "outage \<Rightarrow> outage" where
  "releaseUpWaiters s = s\<lparr>upWaiters := [], fired := fired s @ upWaiters s\<rparr>"

definition onceDown :: "nat \<Rightarrow> outage \<Rightarrow> outage" where
  "onceDown w s = (if w \<in> set (downWaiters s) then s else s\<lparr>downWaiters := downWaiters s @ [w]\<rparr>)"

definition unsubscribe :: "nat \<Rightarrow> outage \<Rightarrow> outage" where
  "unsubscribe w s = s\<lparr>downWaiters := filter (\<lambda>x. x \<noteq> w) (downWaiters s)\<rparr>"

definition whenUp :: "nat \<Rightarrow> outage \<Rightarrow> outage" where
  "whenUp w s = (if isUp s then s\<lparr>fired := fired s @ [w]\<rparr> else s\<lparr>upWaiters := upWaiters s @ [w]\<rparr>)"

definition markRecovered :: "outage \<Rightarrow> outage" where
  "markRecovered s =
     (if outPhase s \<noteq> Recovering then s
      else releaseUpWaiters (s\<lparr>outPhase := Up, downSince := None\<rparr>))"

definition onLost :: "int \<Rightarrow> outage \<Rightarrow> outage" where
  "onLost now s =
     (if outPhase s = Down then s
      else s\<lparr>generation := generation s + 1,
             downSince := (case downSince s of Some t \<Rightarrow> Some t | None \<Rightarrow> Some now),
             outPhase := Down,
             downWaiters := [],
             fired := fired s @ downWaiters s\<rparr>)"

definition onReady :: "outage \<Rightarrow> outage" where
  "onReady s =
     (if outPhase s = Booting then releaseUpWaiters (s\<lparr>outPhase := Up\<rparr>)
      else if outPhase s \<noteq> Down then s
      else s\<lparr>outPhase := Recovering\<rparr>)"

datatype outage_event =
    Lost int | Ready | Recovered | OnceDown nat | Unsubscribe nat | WhenUp nat

inductive outage_step :: "outage \<Rightarrow> outage_event \<Rightarrow> outage \<Rightarrow> bool" where
  lost: "outage_step s (Lost now) (onLost now s)"
| ready: "outage_step s Ready (onReady s)"
| recovered: "outage_step s Recovered (markRecovered s)"
| once_down: "outage_step s (OnceDown w) (onceDown w s)"
| unsubscribed: "outage_step s (Unsubscribe w) (unsubscribe w s)"
| when_up: "outage_step s (WhenUp w) (whenUp w s)"

code_pred outage_step .

inductive_cases outage_stepE: "outage_step s e s'"

inductive outage_run :: "outage \<Rightarrow> outage_event list \<Rightarrow> outage \<Rightarrow> bool" where
  start: "outage_run s [] s"
| next_event: "outage_run s es s' \<Longrightarrow> outage_step s' e s'' \<Longrightarrow> outage_run s (es @ [e]) s''"

definition outage_inv :: "outage \<Rightarrow> bool" where
  "outage_inv s \<longleftrightarrow> (downSince s = None \<longleftrightarrow> outPhase s \<in> {Up, Booting})
     \<and> (outPhase s = Up \<longrightarrow> upWaiters s = []) \<and> 0 \<le> generation s"

lemmas outage_defs = onLost_def onReady_def markRecovered_def releaseUpWaiters_def onceDown_def
  unsubscribe_def whenUp_def isUp_def

lemma outage_step_inv: "outage_step s e s' \<Longrightarrow> outage_inv s \<Longrightarrow> outage_inv s'"
  by (cases s; cases "outPhase s"; erule outage_stepE)
     (auto simp: outage_inv_def outage_defs split: option.splits)

lemma outage_run_inv: "outage_run s es s' \<Longrightarrow> outage_inv s \<Longrightarrow> outage_inv s'"
  by (induction rule: outage_run.induct) (auto intro: outage_step_inv)

lemma new_outage_inv: "outage_inv (new_outage ready)"
  by (simp add: outage_inv_def new_outage_def)

text \<open>The start of an outage stays what it was until the recovery sweep is done.\<close>

lemma downSince_kept:
  assumes "outage_step s e s'" "outage_inv s" "downSince s = Some t" "outPhase s' \<noteq> Up"
  shows "downSince s' = Some t"
  using assms by (cases "outPhase s"; elim outage_stepE)
    (auto simp: outage_inv_def outage_defs split: if_splits)

lemma generation_step:
  "outage_step s e s' \<Longrightarrow> generation s' = generation s + of_bool (outPhase s \<noteq> Down \<and> outPhase s' = Down)"
  by (cases "outPhase s"; elim outage_stepE) (auto simp: outage_defs split: if_splits)

definition is_lost :: "outage_event \<Rightarrow> bool" where
  "is_lost e = (case e of Lost _ \<Rightarrow> True | _ \<Rightarrow> False)"

lemma outage_run_generation:
  "outage_run s es s' \<Longrightarrow> generation s' \<le> generation s + int (length (filter is_lost es))"
proof (induction rule: outage_run.induct)
  case (next_event s es s' e s'')
  then have "generation s'' \<le> generation s' + of_bool (is_lost e)"
    by (elim outage_stepE) (auto simp: outage_defs is_lost_def)
  then show ?case using next_event by (auto split: if_splits)
qed simp

section \<open>The mirror of a committed write\<close>

text \<open>
  One attempt: \<open>run\<close> is whether the write to Redis succeeds. A failure while the connection is not
  up waits for the recovery; a failure while it is up is only logged.
\<close>

datatype mirror_state = Written | Waiting | Dropped

definition mirror_attempt :: "bool \<Rightarrow> outage_phase \<Rightarrow> mirror_state" where
  "mirror_attempt run ph = (if run then Written else if ph \<noteq> Up then Waiting else Dropped)"

definition mirrorAfterCommit :: "bool \<Rightarrow> outage_phase \<Rightarrow> mirror_state" where
  "mirrorAfterCommit run ph = (if ph = Down then Waiting else mirror_attempt run ph)"

text \<open>A waiting mirror is tried again each time the connection is up; \<open>tries\<close> says how those end.\<close>

fun mirror_retries :: "(bool \<times> outage_phase) list \<Rightarrow> mirror_state \<Rightarrow> mirror_state" where
  "mirror_retries [] m = m"
| "mirror_retries ((run, ph) # tries) m =
     (if m = Waiting then mirror_retries tries (mirror_attempt run ph) else m)"

section \<open>A tournament whose line is down\<close>

record line_pause =
  lineGenerations :: "string \<Rightarrow> int"
  lineDown :: "string set"
  lineWaiters :: "string \<Rightarrow> nat list"
  lineFired :: "nat list"

definition new_line_pause :: line_pause where
  "new_line_pause = \<lparr>lineGenerations = (\<lambda>_. 0), lineDown = {}, lineWaiters = (\<lambda>_. []), lineFired = []\<rparr>"

definition generationOf :: "string \<Rightarrow> line_pause \<Rightarrow> int" where
  "generationOf t s = lineGenerations s t"

definition isDown :: "string \<Rightarrow> line_pause \<Rightarrow> bool" where
  "isDown t s \<longleftrightarrow> t \<in> lineDown s"

definition line_onceDown :: "string \<Rightarrow> nat \<Rightarrow> line_pause \<Rightarrow> line_pause" where
  "line_onceDown t w s =
     (if w \<in> set (lineWaiters s t) then s
      else s\<lparr>lineWaiters := (lineWaiters s)(t := lineWaiters s t @ [w])\<rparr>)"

definition line_unsubscribe :: "string \<Rightarrow> nat \<Rightarrow> line_pause \<Rightarrow> line_pause" where
  "line_unsubscribe t w s =
     s\<lparr>lineWaiters := (lineWaiters s)(t := filter (\<lambda>x. x \<noteq> w) (lineWaiters s t))\<rparr>"

definition markDown :: "string \<Rightarrow> line_pause \<Rightarrow> line_pause" where
  "markDown t s = s\<lparr>lineGenerations := (lineGenerations s)(t := generationOf t s + 1),
     lineDown := insert t (lineDown s),
     lineWaiters := (lineWaiters s)(t := []),
     lineFired := lineFired s @ lineWaiters s t\<rparr>"

definition line_clear :: "string \<Rightarrow> line_pause \<Rightarrow> line_pause" where
  "line_clear t s = s\<lparr>lineDown := lineDown s - {t}\<rparr>"

definition clearAll :: "line_pause \<Rightarrow> line_pause" where
  "clearAll s = s\<lparr>lineDown := {}\<rparr>"

datatype line_event = MarkDown string | Clear string | ClearAll | LineOnce string nat | LineUnsub string nat

definition line_step :: "line_pause \<Rightarrow> line_event \<Rightarrow> line_pause" where
  "line_step s e = (case e of
     MarkDown t \<Rightarrow> markDown t s | Clear t \<Rightarrow> line_clear t s | ClearAll \<Rightarrow> clearAll s
   | LineOnce t w \<Rightarrow> line_onceDown t w s | LineUnsub t w \<Rightarrow> line_unsubscribe t w s)"

lemmas line_defs = line_step_def markDown_def line_clear_def clearAll_def line_onceDown_def
  line_unsubscribe_def generationOf_def isDown_def

section \<open>The dealer check\<close>

record liveness =
  livenessCheck :: "(nat \<times> (string \<Rightarrow> bool)) option"

definition attach :: "nat \<Rightarrow> (string \<Rightarrow> bool) \<Rightarrow> liveness \<Rightarrow> liveness" where
  "attach k f s = s\<lparr>livenessCheck := Some (k, f)\<rparr>"

definition detach :: "nat \<Rightarrow> liveness \<Rightarrow> liveness" where
  "detach k s = (case livenessCheck s of
     Some (k', f) \<Rightarrow> if k' = k then s\<lparr>livenessCheck := None\<rparr> else s | None \<Rightarrow> s)"

definition dealer_confirm :: "string \<Rightarrow> liveness \<Rightarrow> bool" where
  "dealer_confirm tbl s = (case livenessCheck s of Some (k, f) \<Rightarrow> f tbl | None \<Rightarrow> True)"

section \<open>Properties\<close>

text \<open>From a fresh connection object, whatever sequence of connection losses, reconnections, recoveries
  and subscriptions happens: the start of the outage is known exactly while the connection is down or
  recovering, nobody waits for the connection while it is up, and the generation counts no more than
  the losses that were reported.\<close>

theorem outage_reachable:
  assumes "outage_run (new_outage ready) es s"
  shows "(downSince s = None \<longleftrightarrow> outPhase s \<in> {Up, Booting}) \<and> (isUp s \<longrightarrow> upWaiters s = [])
    \<and> 0 \<le> generation s \<and> generation s \<le> int (length (filter is_lost es))"
  using outage_run_inv[OF assms new_outage_inv] outage_run_generation[OF assms]
  by (simp add: outage_inv_def isUp_def new_outage_def)

theorem outage_reachable_witness:
  "\<exists>s. outage_run (new_outage True) [WhenUp 1, Lost 5, WhenUp 2, Lost 9, Ready, Lost 12, Ready, Recovered] s
     \<and> downSince s = None \<and> upWaiters s = [] \<and> generation s = 2"
proof -
  define s where "s = markRecovered (onReady (onLost 12 (onReady (onLost 9 (whenUp 2 (onLost 5 (whenUp 1 (new_outage True))))))))"
  have "outage_run (new_outage True) ((((((((([] @ [WhenUp 1]) @ [Lost 5]) @ [WhenUp 2]) @ [Lost 9]) @ [Ready])
      @ [Lost 12]) @ [Ready])) @ [Recovered]) s"
    unfolding s_def by (rule outage_run.start outage_run.next_event outage_step.intros)+
  then have run: "outage_run (new_outage True) [WhenUp 1, Lost 5, WhenUp 2, Lost 9, Ready, Lost 12, Ready, Recovered] s"
    by simp
  have "isUp s" "generation s = 2" "outPhase s = Up"
    by (simp_all add: s_def new_outage_def outage_defs)
  then show ?thesis using outage_reachable[OF run] run by auto
qed

text \<open>An outage is measured from the first loss: as long as the recovery has not finished, further losses
  and reconnections leave the recorded start unchanged, and each counts as one more generation only
  when the connection really went down again.\<close>

theorem outage_start_kept:
  assumes "outage_run (new_outage ready) es s" "outage_step s e s'"
    and "downSince s = Some t" "\<not> isUp s'"
  shows "downSince s' = Some t
    \<and> generation s' = generation s + of_bool (outPhase s \<noteq> Down \<and> outPhase s' = Down)"
  using downSince_kept[OF assms(2) outage_run_inv[OF assms(1) new_outage_inv]] generation_step[OF assms(2)]
    assms(3,4) by (simp add: isUp_def)

theorem outage_start_kept_witness:
  "downSince (onLost 9 (onReady (onLost 5 (new_outage True)))) = Some 5"
proof -
  let ?s = "onReady (onLost 5 (new_outage True))"
  have "outage_run (new_outage True) (([] @ [Lost 5]) @ [Ready]) ?s"
    by (rule outage_run.start outage_run.next_event outage_step.intros)+
  moreover have "outage_step ?s (Lost 9) (onLost 9 ?s)" by (rule outage_step.lost)
  moreover have "downSince ?s = Some 5" "\<not> isUp (onLost 9 ?s)"
    by (simp_all add: new_outage_def outage_defs)
  ultimately show ?thesis using outage_start_kept by blast
qed

lemma mirror_never_dropped:
  "m \<noteq> Dropped \<Longrightarrow> mirror_retries tries m = Dropped \<Longrightarrow> (False, Up) \<in> set tries"
  by (induction tries m rule: mirror_retries.induct)
     (auto simp: mirror_attempt_def split: if_splits)

text \<open>C32. A committed write loses its Redis mirror only if an attempt fails while the connection is up: one
  that meets the outage waits, and is tried again after the recovery.\<close>

theorem mirror_survives_outage:
  assumes "mirror_retries tries (mirrorAfterCommit run ph) = Dropped"
  shows "ph = Up \<and> \<not> run \<or> (False, Up) \<in> set tries"
proof (cases "mirrorAfterCommit run ph = Dropped")
  case True
  then show ?thesis by (auto simp: mirrorAfterCommit_def mirror_attempt_def split: if_splits)
next
  case False
  then show ?thesis using mirror_never_dropped assms by blast
qed

theorem mirror_survives_outage_witness:
  "mirror_retries [(False, Recovering), (False, Up)] (mirrorAfterCommit True Down) = Dropped
   \<and> (False, Up) \<in> set [(False, Recovering), (False, Up)]"
proof -
  have "mirror_retries [(False, Recovering), (False, Up)] (mirrorAfterCommit True Down) = Dropped"
    by (simp add: mirrorAfterCommit_def mirror_attempt_def)
  then show ?thesis using mirror_survives_outage by blast
qed

lemma line_run_generation:
  "generationOf t (foldl line_step s es) = generationOf t s + int (length (filter (\<lambda>e. e = MarkDown t) es))"
  by (induction es arbitrary: s) (auto simp: line_defs split: line_event.splits)

lemma line_run_fired_grows: "w \<in> set (lineFired s) \<Longrightarrow> w \<in> set (lineFired (foldl line_step s es))"
  by (induction es arbitrary: s) (auto simp: line_defs split: line_event.splits)

text \<open>A table that started work under one generation of its tournament's line sees a different generation
  exactly if the line went down in between, whatever happened to the line meanwhile (cleared by a
  recovery, cleared by a server outage, or other tournaments pausing); and every waiter
  registered at the moment of the pause has been fired.\<close>

theorem line_pause_detected:
  "(generationOf t (foldl line_step s es) = generationOf t s \<longleftrightarrow> MarkDown t \<notin> set es)
   \<and> set (lineWaiters s t) \<subseteq> set (lineFired (foldl line_step (line_step s (MarkDown t)) es))"
proof
  have "generationOf t (foldl line_step s es) = generationOf t s
      \<longleftrightarrow> length (filter (\<lambda>e. e = MarkDown t) es) = 0"
    using line_run_generation[of t s es] by simp
  also have "\<dots> \<longleftrightarrow> MarkDown t \<notin> set es" by (auto simp: filter_empty_conv)
  finally show "generationOf t (foldl line_step s es) = generationOf t s \<longleftrightarrow> MarkDown t \<notin> set es" .
  show "set (lineWaiters s t) \<subseteq> set (lineFired (foldl line_step (line_step s (MarkDown t)) es))"
    using line_run_fired_grows by (force simp: line_defs)
qed

end
