(* ===== verification/Attempts.thy ===== *)
theory Attempts
  imports Prelude
begin

text \<open>
  Bounded attempts and counting: the one-time-password counter of a tournament
  (\<open>backend/src/dealer/otp-attempts.ts\<close>, a Redis counter with a time to live and its refund script),
  the retry loop (\<open>common/retry.ts\<close>), the batched loader (\<open>common/batched.ts\<close>), the count of returned
  devices (\<open>ws/sync-progress.ts\<close>), the socket sweep (\<open>ws/keepalive.ts\<close>), the mock approval of a charge
  (\<open>payment/mock-approval.ts\<close>) and the readers of numeric settings (\<open>auth/throttle.ts\<close>,
  \<open>auth/bcrypt-cost.ts\<close>, \<open>auth/token-ttl.ts\<close>, \<open>ws/sync-queue.ts\<close>, \<open>ws/keepalive.ts\<close>).
\<close>

section \<open>Password attempts\<close>

definition MAX_ATTEMPTS :: int where "MAX_ATTEMPTS = 10"

definition LOCK_SECONDS :: int where "LOCK_SECONDS = 300"

text \<open>The key in Redis: absent, or a count with the second at which it expires.\<close>

type_synonym counter = "(int \<times> int) option"

definition counter_at :: "int \<Rightarrow> counter \<Rightarrow> counter" where
  "counter_at now c = (case c of Some (v, expiry) \<Rightarrow> if expiry \<le> now then None else c | None \<Rightarrow> None)"

definition counter_value :: "counter \<Rightarrow> int" where
  "counter_value c = (case c of Some (v, _) \<Rightarrow> v | None \<Rightarrow> 0)"

text \<open>\<open>MULTI INCR EXPIRE EXEC\<close>: the answer is whether the attempt may go on.\<close>

definition reserveAttempt :: "int \<Rightarrow> counter \<Rightarrow> bool \<times> counter" where
  "reserveAttempt now c =
     (let count = counter_value (counter_at now c) + 1
      in (\<not> count > MAX_ATTEMPTS, Some (count, now + LOCK_SECONDS)))"

definition refund_slot :: "int \<Rightarrow> counter \<Rightarrow> counter" where
  "refund_slot now c =
     (case counter_at now c of
        None \<Rightarrow> None
      | Some (v, expiry) \<Rightarrow> if v \<le> 1 then None else Some (v - 1, expiry))"

definition clear_attempts :: "counter \<Rightarrow> counter" where
  "clear_attempts c = None"

datatype otp_event = Reserve | Refund

definition otp_step :: "counter \<times> int \<times> int \<Rightarrow> int \<times> otp_event \<Rightarrow> counter \<times> int \<times> int" where
  "otp_step s e = (case (s, e) of
     ((c, allowed, refunded), (now, Reserve)) \<Rightarrow>
        (let (ok, c') = reserveAttempt now c in (c', allowed + of_bool ok, refunded))
   | ((c, allowed, refunded), (now, Refund)) \<Rightarrow> (refund_slot now c, allowed, refunded + 1))"

text \<open>A window: events in time order, none of them after the key has run out.\<close>

fun in_window :: "int \<Rightarrow> (int \<times> otp_event) list \<Rightarrow> bool" where
  "in_window expiry [] = True"
| "in_window expiry ((now, Reserve) # es) = (now < expiry \<and> in_window (now + LOCK_SECONDS) es)"
| "in_window expiry ((now, Refund) # es) = (now < expiry \<and> in_window expiry es)"

definition window_inv :: "int \<Rightarrow> counter \<times> int \<times> int \<Rightarrow> bool" where
  "window_inv expiry s = (case s of (c, allowed, refunded) \<Rightarrow>
     0 \<le> counter_value c \<and> (\<forall>v x. c = Some (v, x) \<longrightarrow> x = expiry)
     \<and> allowed - refunded \<le> counter_value c \<and> allowed - refunded \<le> MAX_ATTEMPTS)"

lemma window_step:
  assumes "window_inv expiry s" "in_window expiry (e # es)"
  obtains expiry' where "window_inv expiry' (otp_step s e)" "in_window expiry' es"
proof -
  obtain c a r where s: "s = (c, a, r)" by (cases s) auto
  obtain now k where e: "e = (now, k)" by (cases e) auto
  have now: "now < expiry" using assms(2) e by (cases k) auto
  have at: "counter_at now c = c"
    using assms(1) now by (auto simp: window_inv_def s counter_at_def split: option.splits)
  show ?thesis
  proof (cases k)
    case Reserve
    have "window_inv (now + LOCK_SECONDS) (otp_step s e)"
      using assms(1) unfolding s e Reserve
      by (auto simp: otp_step_def reserveAttempt_def Let_def at window_inv_def counter_value_def MAX_ATTEMPTS_def)
    then show ?thesis using that assms(2) e Reserve by simp
  next
    case Refund
    have "window_inv expiry (otp_step s e)"
      using assms(1) unfolding s e Refund
      by (auto simp: otp_step_def refund_slot_def at window_inv_def counter_value_def MAX_ATTEMPTS_def
               split: option.splits)
    then show ?thesis using that assms(2) e Refund by simp
  qed
qed

lemma window_run:
  "window_inv expiry s \<Longrightarrow> in_window expiry es \<Longrightarrow> \<exists>expiry'. window_inv expiry' (foldl otp_step s es)"
proof (induction es arbitrary: s expiry)
  case (Cons e es)
  obtain expiry' where "window_inv expiry' (otp_step s e)" "in_window expiry' es"
    using Cons.prems by (rule window_step)
  then show ?case using Cons.IH by simp
qed auto

section \<open>Retrying\<close>

record 'e retry_result =
  retryValue :: "nat + 'e option"
  retryCalls :: nat
  retryWaits :: "int list"

text \<open>
  \<open>fn k\<close> is what the k-th call does: \<open>Inl\<close> a value, \<open>Inr\<close> an error. \<open>wait k\<close> is the delay chosen
  after the k-th failure; a callback or a sleep that throws is swallowed and changes nothing here.
\<close>

fun retry_loop :: "(nat \<Rightarrow> nat + 'e) \<Rightarrow> (nat \<Rightarrow> int) \<Rightarrow> nat \<Rightarrow> nat \<Rightarrow> nat \<Rightarrow> int list \<Rightarrow> 'e option \<Rightarrow> 'e retry_result" where
  "retry_loop fn wait attempts 0 k waits err =
     \<lparr>retryValue = Inr err, retryCalls = k, retryWaits = waits\<rparr>"
| "retry_loop fn wait attempts (Suc fuel) k waits err =
     (case fn k of
        Inl v \<Rightarrow> \<lparr>retryValue = Inl v, retryCalls = Suc k, retryWaits = waits\<rparr>
      | Inr e \<Rightarrow>
          if Suc k = attempts
          then \<lparr>retryValue = Inr (Some e), retryCalls = Suc k, retryWaits = waits\<rparr>
          else retry_loop fn wait attempts fuel (Suc k) (waits @ [wait k]) (Some e))"

definition retry_ceiling :: "int \<Rightarrow> int option \<Rightarrow> nat \<Rightarrow> int" where
  "retry_ceiling baseMs maxMs attempt =
     (case maxMs of None \<Rightarrow> baseMs * 2 ^ attempt | Some m \<Rightarrow> min m (baseMs * 2 ^ attempt))"

definition retryAsync :: "(nat \<Rightarrow> nat + 'e) \<Rightarrow> (nat \<Rightarrow> int) \<Rightarrow> nat \<Rightarrow> 'e retry_result" where
  "retryAsync fn wait attempts = retry_loop fn wait attempts attempts 0 [] None"

definition retry_spec ::
  "(nat \<Rightarrow> nat + 'e) \<Rightarrow> (nat \<Rightarrow> int) \<Rightarrow> nat \<Rightarrow> nat \<Rightarrow> 'e retry_result \<Rightarrow> bool" where
  "retry_spec fn wait attempts fuel r = (case retryValue r of
      Inl v \<Rightarrow> (\<exists>n<attempts. fn n = Inl v \<and> (\<forall>j<n. \<exists>e. fn j = Inr e)
        \<and> retryCalls r = Suc n \<and> retryWaits r = map wait [0..<n])
    | Inr e \<Rightarrow> (\<forall>j<attempts. \<exists>e. fn j = Inr e)
        \<and> (0 < fuel \<longrightarrow> (\<exists>x. e = Some x \<and> fn (attempts - 1) = Inr x))
        \<and> retryCalls r = attempts
        \<and> (0 < fuel \<longrightarrow> retryWaits r = map wait [0..<attempts - 1]))"

lemma retry_loop_spec:
  assumes "attempts = k + fuel" "length waits = k" "\<forall>j<k. \<exists>e. fn j = Inr e"
    and "waits = map wait [0..<k]"
  shows "retry_spec fn wait attempts fuel (retry_loop fn wait attempts fuel k waits err)"
  using assms
proof (induction fuel arbitrary: k waits err)
  case (Suc fuel)
  show ?case
  proof (cases "fn k")
    case (Inl v)
    then show ?thesis using Suc.prems by (auto simp: retry_spec_def intro: exI[of _ k])
  next
    case (Inr e)
    have failed: "\<forall>j<Suc k. \<exists>e. fn j = Inr e" using Suc.prems(3) Inr less_Suc_eq by auto
    show ?thesis
    proof (cases "Suc k = attempts")
      case True
      then have "retry_loop fn wait attempts (Suc fuel) k waits err =
          \<lparr>retryValue = Inr (Some e), retryCalls = Suc k, retryWaits = waits\<rparr>" using Inr by simp
      then show ?thesis using Inr Suc.prems failed True by (auto simp: retry_spec_def)
    next
      case False
      have fuel: "fuel \<noteq> 0" using False Suc.prems(1) by auto
      have "retry_spec fn wait attempts fuel
          (retry_loop fn wait attempts fuel (Suc k) (waits @ [wait k]) (Some e))"
        using Suc.prems failed by (intro Suc.IH) simp_all
      moreover have "retry_loop fn wait attempts (Suc fuel) k waits err
          = retry_loop fn wait attempts fuel (Suc k) (waits @ [wait k]) (Some e)" using Inr False by simp
      moreover have "retry_spec fn wait attempts (Suc fuel) r = retry_spec fn wait attempts fuel r" for r
        using fuel unfolding retry_spec_def by (simp split: sum.splits)
      ultimately show ?thesis by (simp only:)
    qed
  qed
qed (simp add: retry_spec_def)

section \<open>Loading in batches\<close>

text \<open>
  The loader's state: calls that wait for the next batch, the batch in flight, and the answers given
  so far, \<open>None\<close> for a rejected call.
\<close>

record 'v batch_state =
  batchWaiting :: "nat list"
  batchRunning :: "nat list option"
  batchAnswers :: "(nat \<times> 'v option) list"

definition batch_idle :: "'v batch_state" where
  "batch_idle = \<lparr>batchWaiting = [], batchRunning = None, batchAnswers = []\<rparr>"

text \<open>A call starts the drain at once when none is running; the drain takes everything that waits.\<close>

definition batch_call :: "nat \<Rightarrow> 'v batch_state \<Rightarrow> 'v batch_state" where
  "batch_call k s =
     (case batchRunning s of
        None \<Rightarrow> s\<lparr>batchRunning := Some (batchWaiting s @ [k]), batchWaiting := []\<rparr>
      | Some b \<Rightarrow> s\<lparr>batchWaiting := batchWaiting s @ [k]\<rparr>)"

text \<open>The load of the batch in flight ends: with the values of its keys in order, or with an error.\<close>

definition batch_done :: "(nat list \<Rightarrow> 'v list) option \<Rightarrow> 'v batch_state \<Rightarrow> 'v batch_state" where
  "batch_done load s =
     (case batchRunning s of
        None \<Rightarrow> s
      | Some b \<Rightarrow>
          s\<lparr>batchAnswers := batchAnswers s @
              (case load of Some f \<Rightarrow> map (\<lambda>i. (b ! i, Some (f b ! i))) [0..<length b]
                          | None \<Rightarrow> map (\<lambda>k. (k, None)) b),
            batchRunning := (if batchWaiting s = [] then None else Some (batchWaiting s)),
            batchWaiting := []\<rparr>)"

datatype batch_event = Call nat | LoadOk | LoadFails

definition batch_step :: "(nat list \<Rightarrow> 'v list) \<Rightarrow> 'v batch_state \<Rightarrow> batch_event \<Rightarrow> 'v batch_state" where
  "batch_step load s e = (case e of
     Call k \<Rightarrow> batch_call k s | LoadOk \<Rightarrow> batch_done (Some load) s | LoadFails \<Rightarrow> batch_done None s)"

definition batch_calls :: "batch_event list \<Rightarrow> nat list" where
  "batch_calls es = concat (map (\<lambda>e. case e of Call k \<Rightarrow> [k] | _ \<Rightarrow> []) es)"

definition batch_open :: "'v batch_state \<Rightarrow> nat list" where
  "batch_open s = map fst (batchAnswers s) @ (case batchRunning s of Some b \<Rightarrow> b | None \<Rightarrow> []) @ batchWaiting s"

definition batch_ok :: "'v batch_state \<Rightarrow> bool" where
  "batch_ok s \<longleftrightarrow> (batchRunning s = None \<longrightarrow> batchWaiting s = [])"

lemma map_nth_fst: "map (\<lambda>i. b ! i) [0..<length b] = b"
  by (rule map_nth)

lemma batch_step_open:
  assumes "batch_ok s"
  shows "batch_ok (batch_step load s e) \<and> batch_open (batch_step load s e) = batch_open s @ batch_calls [e]"
  using assms by (cases e) (auto simp: batch_step_def batch_call_def batch_done_def batch_ok_def
      batch_open_def batch_calls_def comp_def map_nth split: option.splits)

lemma batch_run_open:
  "batch_ok s \<Longrightarrow> batch_ok (foldl (batch_step load) s es)
     \<and> batch_open (foldl (batch_step load) s es) = batch_open s @ batch_calls es"
proof (induction es arbitrary: s)
  case (Cons e es)
  then show ?case using batch_step_open[OF Cons.prems, of load e] by (auto simp: batch_calls_def)
qed (simp add: batch_calls_def)

lemma batch_run_values:
  assumes "\<And>ks. length (load ks) = length ks" "\<And>ks i. i < length ks \<Longrightarrow> load ks ! i = f (ks ! i)"
    and "\<forall>(k, v)\<in>set (batchAnswers s). v = None \<or> v = Some (f k)"
  shows "\<forall>(k, v)\<in>set (batchAnswers (foldl (batch_step load) s es)). v = None \<or> v = Some (f k)"
  using assms(3)
proof (induction es arbitrary: s)
  case (Cons e es)
  have "\<forall>(k, v)\<in>set (batchAnswers (batch_step load s e)). v = None \<or> v = Some (f k)"
    using Cons.prems assms(2)
    by (auto simp: batch_step_def batch_call_def batch_done_def split: batch_event.splits option.splits)
  then show ?case using Cons.IH by simp
qed simp

section \<open>Counting returned devices\<close>

record required_table =
  rtTable :: string
  rtSeats :: "int list"

record table_presence =
  tpDealer :: bool
  tpSeats :: "int set"

record sync_progress =
  spPresent :: int
  spRequired :: int
  spDone :: bool
  spMissing :: "(string \<times> int option) list"

text \<open>\<open>here?.dealer\<close> and \<open>here?.seats.has(seat)\<close>.\<close>

definition dealer_present :: "(string \<rightharpoonup> table_presence) \<Rightarrow> required_table \<Rightarrow> bool" where
  "dealer_present presence t = (case presence (rtTable t) of Some h \<Rightarrow> tpDealer h | None \<Rightarrow> False)"

definition seat_present :: "(string \<rightharpoonup> table_presence) \<Rightarrow> required_table \<Rightarrow> int \<Rightarrow> bool" where
  "seat_present presence t s = (case presence (rtTable t) of Some h \<Rightarrow> s \<in> tpSeats h | None \<Rightarrow> False)"

definition table_devices :: "(string \<rightharpoonup> table_presence) \<Rightarrow> required_table \<Rightarrow> (string \<times> int option) list \<times> int" where
  "table_devices presence t =
     (let dealer_here = dealer_present presence t;
          seat_here = seat_present presence t;
          gone = filter (\<lambda>s. \<not> seat_here s) (rtSeats t)
      in ((if dealer_here then [] else [(rtTable t, None)]) @ map (\<lambda>s. (rtTable t, Some s)) gone,
          of_bool dealer_here + int (length (filter seat_here (rtSeats t)))))"

definition syncProgress :: "required_table list \<Rightarrow> (string \<rightharpoonup> table_presence) \<Rightarrow> sync_progress" where
  "syncProgress req presence =
     (let present = sum_list (map (\<lambda>t. snd (table_devices presence t)) req);
          total = sum_list (map (\<lambda>t. 1 + int (length (rtSeats t))) req)
      in \<lparr>spPresent = present, spRequired = total, spDone = (present = total),
          spMissing = concat (map (\<lambda>t. fst (table_devices presence t)) req)\<rparr>)"

section \<open>The socket sweep\<close>

record keepalive_socket =
  sockOpen :: bool
  sockAlive :: "bool option"
  sendThrows :: bool
  terminated :: bool

definition markAlive :: "keepalive_socket \<Rightarrow> keepalive_socket" where
  "markAlive s = s\<lparr>sockAlive := Some True\<rparr>"

text \<open>One socket of the sweep: whether it is dead, and what becomes of it.\<close>

definition sweep_one :: "keepalive_socket \<Rightarrow> bool \<times> keepalive_socket" where
  "sweep_one s =
     (if \<not> sockOpen s \<or> sockAlive s = Some False then (True, s\<lparr>terminated := True\<rparr>)
      else if sendThrows s then (True, s\<lparr>sockAlive := Some False, terminated := True\<rparr>)
      else (False, s\<lparr>sockAlive := Some False\<rparr>))"

definition sweep :: "keepalive_socket list \<Rightarrow> keepalive_socket list \<times> keepalive_socket list" where
  "sweep socks = (map snd (filter fst (map sweep_one socks)), map (\<lambda>s. snd (sweep_one s)) socks)"

section \<open>Settings and small decisions\<close>

definition DECLINE_REMAINDER :: int where "DECLINE_REMAINDER = 999"

definition approveCharge :: "int \<Rightarrow> bool" where
  "approveCharge amt \<longleftrightarrow> js_rem amt 1000 \<noteq> DECLINE_REMAINDER"

text \<open>A setting as it arrives: absent, an integer, or text that is none.\<close>

datatype setting = Unset | IntText int | OtherText

definition positiveInt :: "setting \<Rightarrow> int \<Rightarrow> int" where
  "positiveInt raw fallback = (case raw of IntText n \<Rightarrow> if n > 0 then n else fallback | _ \<Rightarrow> fallback)"

definition bcryptRounds :: "setting \<Rightarrow> int" where
  "bcryptRounds raw = (case raw of IntText n \<Rightarrow> if n < 4 \<or> n > 31 then 10 else n | _ \<Rightarrow> 10)"

definition isWeakenedBcrypt :: "setting \<Rightarrow> bool" where
  "isWeakenedBcrypt raw \<longleftrightarrow> bcryptRounds raw < 10"

definition SOCKET_PING_MS :: int where "SOCKET_PING_MS = 10000"

definition socketPingMs :: "setting \<Rightarrow> int" where
  "socketPingMs raw =
     (case raw of IntText n \<Rightarrow> if n > 0 \<and> n \<le> SOCKET_PING_MS then n else SOCKET_PING_MS | _ \<Rightarrow> SOCKET_PING_MS)"

datatype role = SEAT_ROLE | DEALER_ROLE | STORE_ADMIN | OTHER_ROLE

definition tokenTtl :: "role \<Rightarrow> nat" where
  "tokenTtl r = (case r of OTHER_ROLE \<Rightarrow> 1 | _ \<Rightarrow> 12)"

section \<open>Properties\<close>

text \<open>C33. Within one lock window no more than ten password attempts get through that were not given back:
  however many devices try at once and in whatever order attempts and refunds interleave, the attempts
  admitted exceed the refunds by at most ten.\<close>

theorem otp_attempts_bounded:
  assumes "in_window expiry es"
  shows "case foldl otp_step (None, 0, 0) es of (c, allowed, refunded) \<Rightarrow>
    allowed - refunded \<le> MAX_ATTEMPTS \<and> 0 \<le> counter_value c"
proof -
  have "window_inv expiry (None, 0, 0)" by (simp add: window_inv_def counter_value_def MAX_ATTEMPTS_def)
  then obtain x where "window_inv x (foldl otp_step (None, 0, 0) es)" using window_run assms by blast
  then show ?thesis by (auto simp: window_inv_def split: prod.splits)
qed

theorem otp_attempts_bounded_witness:
  "case foldl otp_step (None, 0, 0) (replicate 12 (5, Reserve) @ [(6, Refund), (7, Reserve)]) of
     (c, allowed, refunded) \<Rightarrow> allowed - refunded \<le> 10 \<and> 0 \<le> counter_value c"
proof -
  have "in_window 100 (replicate 12 (5, Reserve) @ [(6, Refund), (7, Reserve)])" by code_simp
  from otp_attempts_bounded[OF this] show ?thesis by (simp only: MAX_ATTEMPTS_def)
qed

lemma reserve_slides:
  "c = Some (v, x) \<Longrightarrow> MAX_ATTEMPTS \<le> v \<Longrightarrow> now < x \<Longrightarrow>
   reserveAttempt now c = (False, Some (v + 1, now + LOCK_SECONDS))"
  by (simp add: reserveAttempt_def counter_at_def counter_value_def Let_def)

text \<open>The lock has no end of its own: once ten attempts are used, every further attempt is rejected and
  moves the expiry to 300 seconds after itself, so a device that keeps asking, at any distance below
  300 seconds, keeps the tournament locked for as long as it asks. The comment on the refund script says
  the first failure fixes the length of the lock window.\<close>

theorem otp_lock_slides:
  assumes "in_window expiry (map (\<lambda>t. (t, Reserve)) ts)" "MAX_ATTEMPTS \<le> v" "ts \<noteq> []"
  shows "foldl otp_step (Some (v, expiry), allowed, refunded) (map (\<lambda>t. (t, Reserve)) ts)
    = (Some (v + int (length ts), last ts + LOCK_SECONDS), allowed, refunded)"
  using assms
proof (induction ts arbitrary: v expiry)
  case (Cons t ts)
  have step: "otp_step (Some (v, expiry), allowed, refunded) (t, Reserve)
      = (Some (v + 1, t + LOCK_SECONDS), allowed, refunded)"
    using Cons.prems(1,2) by (simp add: otp_step_def reserve_slides)
  show ?case
  proof (cases "ts = []")
    case False
    then show ?thesis using Cons.IH[of "t + LOCK_SECONDS" "v + 1"] Cons.prems step by simp
  qed (use step in simp)
qed simp

theorem otp_lock_slides_witness:
  "foldl otp_step (Some (10, 300), 10, 0) (map (\<lambda>t. (t, Reserve)) [250, 500, 790])
   = (Some (13, 1090), 10, 0)"
proof -
  have "in_window 300 (map (\<lambda>t. (t, Reserve)) [250, 500, 790])" "MAX_ATTEMPTS \<le> 10"
    by (simp_all add: LOCK_SECONDS_def MAX_ATTEMPTS_def)
  from otp_lock_slides[OF this, of 10 0] show ?thesis by (simp add: LOCK_SECONDS_def)
qed

text \<open>A retried call returns the value of the first attempt that succeeds, having called as often as that
  took; it fails only when every one of the allowed attempts failed, with the last error, after exactly
  that many calls; and it waits between attempts, never after the last.\<close>

theorem retry_correct:
  assumes "0 < attempts"
  shows "case retryValue (retryAsync fn wait attempts) of
      Inl v \<Rightarrow> (\<exists>n<attempts. fn n = Inl v \<and> (\<forall>j<n. \<exists>e. fn j = Inr e)
        \<and> retryCalls (retryAsync fn wait attempts) = Suc n
        \<and> retryWaits (retryAsync fn wait attempts) = map wait [0..<n])
    | Inr e \<Rightarrow> (\<forall>j<attempts. \<exists>e. fn j = Inr e)
        \<and> (\<exists>x. e = Some x \<and> fn (attempts - 1) = Inr x)
        \<and> retryCalls (retryAsync fn wait attempts) = attempts
        \<and> retryWaits (retryAsync fn wait attempts) = map wait [0..<attempts - 1]"
  using retry_loop_spec[of attempts 0 attempts "[]" fn wait None] assms
  by (simp add: retryAsync_def retry_spec_def split: sum.splits)

theorem retry_correct_witness:
  "retryCalls (retryAsync (\<lambda>k. if k < 2 then Inr ''e'' else Inl k) (\<lambda>k. 100 * 2 ^ k) 5) = 3"
proof -
  let ?r = "retryAsync (\<lambda>k. if k < 2 then Inr ''e'' else Inl k) (\<lambda>k. 100 * 2 ^ k) 5"
  have "retryValue ?r = Inl 2" by (simp add: retryAsync_def numeral_eq_Suc)
  then show ?thesis
    using retry_correct[of 5 "\<lambda>k. if k < 2 then Inr ''e'' else Inl k" "\<lambda>k. 100 * 2 ^ k"]
    by (auto split: if_splits)
qed

text \<open>The batched loader forgets and mixes up nothing: at any time the calls made are exactly those already
  answered, those in the batch in flight and those waiting, in order and each once; and for a loader
  that returns the values of its keys in order, every answered call has its own key's value or an error.\<close>

theorem batched_complete:
  assumes "\<And>ks. length (load ks) = length ks" "\<And>ks i. i < length ks \<Longrightarrow> load ks ! i = f (ks ! i)"
  shows "batch_open (foldl (batch_step load) batch_idle es) = batch_calls es
    \<and> (\<forall>(k, v)\<in>set (batchAnswers (foldl (batch_step load) batch_idle es)). v = None \<or> v = Some (f k))"
  using batch_run_open[of batch_idle load es] batch_run_values[of load f batch_idle es] assms
  by (auto simp: batch_ok_def batch_idle_def batch_open_def)

theorem batched_complete_witness:
  "batch_open (foldl (batch_step (map (\<lambda>k. k * k))) batch_idle [Call 1, Call 2, Call 3, LoadOk, LoadFails]) = [1, 2, 3]"
proof -
  have "batch_calls [Call 1, Call 2, Call 3, LoadOk, LoadFails] = [1, 2, 3]" by (simp add: batch_calls_def)
  then show ?thesis
    using batched_complete[of "map (\<lambda>k. k * k)" "\<lambda>k. k * k" "[Call 1, Call 2, Call 3, LoadOk, LoadFails]"]
    by simp
qed

text \<open>The count of returned devices adds up: present and missing devices together are all required ones,
  the count is complete exactly when nothing is missing, and a device is listed as missing exactly when
  its table's dealer, or its seat, is not there.\<close>

theorem sync_progress_exact:
  "spPresent (syncProgress req presence) + int (length (spMissing (syncProgress req presence)))
     = spRequired (syncProgress req presence)
   \<and> (spDone (syncProgress req presence) \<longleftrightarrow> spMissing (syncProgress req presence) = [])
   \<and> set (spMissing (syncProgress req presence)) =
       {(rtTable t, None) | t. t \<in> set req \<and> \<not> dealer_present presence t}
     \<union> {(rtTable t, Some s) | t s. t \<in> set req \<and> s \<in> set (rtSeats t) \<and> \<not> seat_present presence t s}"
proof -
  have one: "snd (table_devices presence t) + int (length (fst (table_devices presence t)))
      = 1 + int (length (rtSeats t))" for t
    using sum_length_filter_compl[of "seat_present presence t" "rtSeats t"]
    by (simp add: table_devices_def Let_def)
  have "spPresent (syncProgress req presence) + int (length (spMissing (syncProgress req presence)))
     = spRequired (syncProgress req presence)"
  proof (induction req)
    case (Cons t req)
    then show ?case using one[of t] by (simp add: syncProgress_def Let_def)
  qed (simp add: syncProgress_def)
  moreover have "spDone (syncProgress req presence)
      \<longleftrightarrow> spPresent (syncProgress req presence) = spRequired (syncProgress req presence)"
    by (simp add: syncProgress_def Let_def)
  moreover from calculation have "spDone (syncProgress req presence) \<longleftrightarrow> spMissing (syncProgress req presence) = []"
    by (cases "spMissing (syncProgress req presence)") auto
  moreover have "set (fst (table_devices presence t)) =
      {(rtTable t, None) |_::unit. \<not> dealer_present presence t}
    \<union> {(rtTable t, Some s) | s. s \<in> set (rtSeats t) \<and> \<not> seat_present presence t s}" for t
    by (auto simp: table_devices_def Let_def dealer_present_def seat_present_def)
  ultimately show ?thesis by (auto simp: syncProgress_def Let_def)
qed

text \<open>A socket that stays silent is gone after two sweeps: everything a sweep does not give up is marked
  unanswered and, if it does not answer, is given up by the next; a socket that answered in between
  and can still be written to is kept.\<close>

theorem sweep_two_rounds:
  assumes "sockOpen s" "\<not> sendThrows s"
  shows "fst (sweep (snd (sweep socks))) = map (\<lambda>s. (snd (sweep_one s))\<lparr>terminated := True\<rparr>) socks
    \<and> \<not> fst (sweep_one (markAlive (snd (sweep_one s))))"
proof
  have "sweep_one (snd (sweep_one s)) = (True, (snd (sweep_one s))\<lparr>terminated := True\<rparr>)" for s
    by (auto simp: sweep_one_def)
  then show "fst (sweep (snd (sweep socks))) = map (\<lambda>s. (snd (sweep_one s))\<lparr>terminated := True\<rparr>) socks"
    by (induction socks) (simp_all add: sweep_def)
  show "\<not> fst (sweep_one (markAlive (snd (sweep_one s))))"
    using assms by (auto simp: sweep_one_def markAlive_def)
qed

theorem sweep_two_rounds_witness:
  "length (fst (sweep (snd (sweep [\<lparr>sockOpen = True, sockAlive = None, sendThrows = False, terminated = False\<rparr>])))) = 1"
  by (subst sweep_two_rounds[THEN conjunct1,
        of "\<lparr>sockOpen = True, sockAlive = None, sendThrows = False, terminated = False\<rparr>"]) simp_all

end
