(* ===== verification/Ledger.thy ===== *)
theory Ledger
  imports Blinds Settlement Attempts
begin

text \<open>
  The money in the database: users' points and their transactions, tournaments with their
  participations, tables and seats, and every database transaction that moves points. Modelled from
  \<open>payment/payment.service.ts\<close> (\<open>joinSession\<close>, \<open>chargePoint\<close>), \<open>user/user.service.ts\<close>
  (\<open>paymentPoint\<close>, \<open>chargePoint\<close>), \<open>playsync/playsync.service.ts\<close> (\<open>executeRebuyTransaction\<close>,
  \<open>eliminatePlayer\<close>, \<open>tournamentFinished\<close>), \<open>playsync/prize.ts\<close> (\<open>awardPrize\<close>),
  and \<open>store/session/session.service.ts\<close> (the four ways a tournament closes). The tables are those of \<open>prisma/schema.prisma\<close>; the rows of
  one tournament are kept with it, in order of creation. A Prisma transaction that throws leaves the
  state it started from; the number columns are 32-bit (\<open>Int\<close>), and a transaction that would leave a value
  outside that range fails (\<open>commit\<close>). Random one-time passwords and the registration gate are arguments.
\<close>

section \<open>Rows\<close>

datatype transaction_type = CHARGE | BUY_IN | REBUY | PRIZE | REFUND | SETTLEMENT

record transaction =
  txUser :: string
  txAmount :: int
  txType :: transaction_type
  txTournament :: "string option"

record participation =
  pUser :: string
  pStatus :: player_status
  pBuyIns :: int
  pPrize :: int
  pPlace :: "int option"
  pStack :: int
  pOtp :: string
  pSeatVersion :: int

record tournament =
  tName :: string
  tStatus :: tournament_status
  tStarted :: bool
  tEntryFee :: int
  tStartStack :: int
  tRakePercent :: int
  tPayoutTable :: "payout_tier json"
  tRegOpen :: bool
  tRebuyUntil :: int
  tAvgStack :: int
  tBlinds :: "raw_level json"
  tBuyin :: int
  tActive :: int
  tTotalPlayers :: int
  tOwner :: string
  tDealer :: "int option"
  tParts :: "participation list"
  tTables :: "string list"
  tSeats :: "(string \<times> int \<times> string) list"

record ledger =
  lUsers :: "(string \<times> int) list"
  lTx :: "transaction list"
  lTours :: "(string \<times> tournament) list"

datatype ledger_error =
    UserMissing
  | TournamentMissing
  | NotOwner
  | AlreadyClosed
  | RegistrationClosed
  | PointsShort
  | AlreadyJoined
  | OtpExhausted
  | ChargeDeclined
  | ClosedTournamentWrite
  | ParticipationMissing
  | NoLivePlayer
  | CompleteBlocked complete_block
  | ChopNotStarted
  | ChopNotFinalTable
  | ChopHandRunning
  | ChopTooFew
  | AbortNotStarted
  | AlreadyStarted
  | BooksDisagree int int
  | NotThisTable
  | SeatTaken
  | SeatedElsewhere
  | SeatChanged
  | NotPlaying
  | TableMissing
  | TableOccupied
  | LastTable
  | IntegerOutOfRange
  | IdTaken
  | OtpUnknown
  | ParticipationOver
  | TableRecovering
  | OtpTaken
  | BlindStructureMissing
  | PayoutTableRejected payout_error
  | MetaRejected meta_error
  | TooFewPlayers int int
  | NoDealerSession
  | FeesAlreadyCollected
  | LockedAfterStart
  | FinalTableBlocked
  | PrizeZoneBlocked

type_synonym 'a ledger_result = "(ledger_error + 'a) \<times> ledger"

section \<open>Reading and writing rows\<close>

definition alist_update :: "'k \<Rightarrow> ('v \<Rightarrow> 'v) \<Rightarrow> ('k \<times> 'v) list \<Rightarrow> ('k \<times> 'v) list" where
  "alist_update k f kvs = map (\<lambda>(k', v). (k', if k' = k then f v else v)) kvs"

definition points :: "string \<Rightarrow> ledger \<Rightarrow> int option" where
  "points u l = map_of (lUsers l) u"

definition tour :: "string \<Rightarrow> ledger \<Rightarrow> tournament option" where
  "tour t l = map_of (lTours l) t"

definition put_tour :: "string \<Rightarrow> tournament \<Rightarrow> ledger \<Rightarrow> ledger" where
  "put_tour t row l = l\<lparr>lTours := alist_update t (\<lambda>_. row) (lTours l)\<rparr>"

text \<open>\<open>user.update\<close> with an increment and \<open>pointTransaction.create\<close>, which the code always does together.\<close>

definition move_points :: "string \<Rightarrow> int \<Rightarrow> transaction_type \<Rightarrow> string option \<Rightarrow> ledger \<Rightarrow> ledger" where
  "move_points u amt ty t l =
     l\<lparr>lUsers := alist_update u (\<lambda>p. p + amt) (lUsers l),
       lTx := lTx l @ [\<lparr>txUser = u, txAmount = amt, txType = ty, txTournament = t\<rparr>]\<rparr>"

definition find_part :: "string \<Rightarrow> participation list \<Rightarrow> participation option" where
  "find_part u ps = List.find (\<lambda>p. pUser p = u) ps"

definition update_part :: "string \<Rightarrow> (participation \<Rightarrow> participation) \<Rightarrow> participation list \<Rightarrow> participation list" where
  "update_part u f ps = map (\<lambda>p. if pUser p = u then f p else p) ps"

text \<open>The end of a transaction: every number column must fit its 32 bits, or nothing is written.\<close>

definition int32 :: "int \<Rightarrow> bool" where
  "int32 x \<longleftrightarrow> -2147483648 \<le> x \<and> x \<le> 2147483647"

definition row_fits :: "tournament \<Rightarrow> bool" where
  "row_fits row \<longleftrightarrow> int32 (tBuyin row) \<and> int32 (tActive row) \<and> int32 (tTotalPlayers row)
     \<and> list_all (\<lambda>p. int32 (pPrize p) \<and> int32 (pStack p) \<and> int32 (pBuyIns p)) (tParts row)"

definition ledger_fits :: "ledger \<Rightarrow> bool" where
  "ledger_fits l \<longleftrightarrow> list_all (\<lambda>(u, p). int32 p) (lUsers l) \<and> list_all (\<lambda>(t, row). row_fits row) (lTours l)
     \<and> list_all (\<lambda>tx. int32 (txAmount tx)) (lTx l)"

definition commit :: "'a \<Rightarrow> ledger \<Rightarrow> ledger \<Rightarrow> 'a ledger_result" where
  "commit x l l' = (if ledger_fits l' then (Inr x, l') else (Inl IntegerOutOfRange, l))"

section \<open>Charging and joining\<close>

definition user_chargePoint :: "string \<Rightarrow> int \<Rightarrow> ledger \<Rightarrow> ledger_error + ledger" where
  "user_chargePoint u amt l =
     (case points u l of
        None \<Rightarrow> Inl UserMissing
      | Some _ \<Rightarrow> Inr (move_points u amt CHARGE None l))"

definition chargePoint :: "string \<Rightarrow> int \<Rightarrow> ledger \<Rightarrow> int ledger_result" where
  "chargePoint u amt l =
     (if \<not> approveCharge amt then (Inl ChargeDeclined, l)
      else case user_chargePoint u amt l of
             Inl e \<Rightarrow> (Inl e, l) | Inr l' \<Rightarrow> commit amt l l')"

text \<open>The conditional decrement of \<open>paymentPoint\<close>: no row is touched unless the points suffice.\<close>

definition paymentPoint :: "string \<Rightarrow> string \<Rightarrow> int \<Rightarrow> ledger \<Rightarrow> ledger_error + ledger" where
  "paymentPoint u t amt l =
     (case points u l of
        None \<Rightarrow> Inl UserMissing
      | Some p \<Rightarrow> if amt \<le> p then Inr (move_points u (- amt) BUY_IN (Some t) l) else Inl PointsShort)"

definition closeRegistration :: "string \<Rightarrow> ledger \<Rightarrow> ledger" where
  "closeRegistration t l =
     (case tour t l of None \<Rightarrow> l | Some row \<Rightarrow> if tRegOpen row then put_tour t (row\<lparr>tRegOpen := False\<rparr>) l else l)"

datatype join_failure = OtpCollision | JoinError ledger_error

definition new_participation :: "string \<Rightarrow> tournament \<Rightarrow> string \<Rightarrow> participation" where
  "new_participation u row otp =
     \<lparr>pUser = u, pStatus = WAITING_PLAYER, pBuyIns = 1, pPrize = 0, pPlace = None,
      pStack = tStartStack row, pOtp = otp, pSeatVersion = 0\<rparr>"

text \<open>The transaction of one attempt with the password \<open>otp\<close>.\<close>

definition join_tx :: "string \<Rightarrow> string \<Rightarrow> string \<Rightarrow> tournament \<Rightarrow> ledger \<Rightarrow> join_failure + ledger" where
  "join_tx t u otp session l =
     (case paymentPoint u t (tEntryFee session) l of
        Inl e \<Rightarrow> Inl (JoinError e)
      | Inr l1 \<Rightarrow>
        (case tour t l1 of
           None \<Rightarrow> Inl (JoinError TournamentMissing)
         | Some row \<Rightarrow>
           if find_part u (tParts row) \<noteq> None then Inl (JoinError AlreadyJoined)
           else if list_ex (\<lambda>p. pOtp p = otp) (tParts row) then Inl OtpCollision
           else if isClosedTournament (tStatus row) then Inl (JoinError AlreadyClosed)
           else if \<not> tRegOpen row then Inl (JoinError RegistrationClosed)
           else Inr (put_tour t (row\<lparr>tParts := tParts row @ [new_participation u session otp],
                                     tTotalPlayers := tTotalPlayers row + 1,
                                     tBuyin := tBuyin row + tEntryFee session\<rparr>) l1)))"

fun join_attempts :: "string \<Rightarrow> string \<Rightarrow> string list \<Rightarrow> tournament \<Rightarrow> ledger \<Rightarrow> unit ledger_result" where
  "join_attempts t u [] session l = (Inl OtpExhausted, l)"
| "join_attempts t u (otp # otps) session l =
     (case join_tx t u otp session l of
        Inl OtpCollision \<Rightarrow> join_attempts t u otps session l
      | Inl (JoinError e) \<Rightarrow> (Inl e, l)
      | Inr l' \<Rightarrow> commit () l l')"

definition joinSession :: "bool \<Rightarrow> string list \<Rightarrow> string \<Rightarrow> string \<Rightarrow> ledger \<Rightarrow> unit ledger_result" where
  "joinSession gateOpen otps t u l =
     (case points u l of
        None \<Rightarrow> (Inl UserMissing, l)
      | Some p \<Rightarrow>
        (case tour t l of
           None \<Rightarrow> (Inl TournamentMissing, l)
         | Some session \<Rightarrow>
           if isClosedTournament (tStatus session) then (Inl AlreadyClosed, l)
           else if \<not> gateOpen then (Inl RegistrationClosed, closeRegistration t l)
           else if p < tEntryFee session then (Inl PointsShort, l)
           else join_attempts t u (take 5 otps) session l))"

section \<open>Rebuy\<close>

definition executeRebuyTransaction :: "string \<Rightarrow> string \<Rightarrow> int \<Rightarrow> int \<Rightarrow> ledger \<Rightarrow> int ledger_result" where
  "executeRebuyTransaction t u entryFee startStack l =
     (case points u l of
        None \<Rightarrow> (Inl PointsShort, l)
      | Some p \<Rightarrow>
        if p < entryFee then (Inl PointsShort, l)
        else
          let l1 = move_points u (- entryFee) REBUY (Some t) l in
          (case tour t l1 of
             None \<Rightarrow> (Inl ClosedTournamentWrite, l)
           | Some row \<Rightarrow>
             if isClosedTournament (tStatus row) then (Inl ClosedTournamentWrite, l)
             else (case find_part u (tParts row) of
                     None \<Rightarrow> (Inl ParticipationMissing, l)
                   | Some _ \<Rightarrow>
                     commit startStack l
                      (put_tour t (row\<lparr>tBuyin := tBuyin row + entryFee,
                        tParts := update_part u (\<lambda>p. p\<lparr>pBuyIns := pBuyIns p + 1,
                                                       pStack := pStack p + startStack\<rparr>) (tParts row)\<rparr>) l1))))"

section \<open>Prizes\<close>

text \<open>One award: nothing happens unless the participation exists and is not finished yet.\<close>

definition award_one :: "string \<Rightarrow> string \<times> int \<times> int \<Rightarrow> ledger \<Rightarrow> ledger" where
  "award_one t a l = (case a of (u, k, amt) \<Rightarrow>
     (case tour t l of
        None \<Rightarrow> l
      | Some row \<Rightarrow>
        (case find_part u (tParts row) of
           None \<Rightarrow> l
         | Some p \<Rightarrow>
           if isFinishedParticipant (pStatus p) then l
           else
             let l1 = put_tour t (row\<lparr>tParts := update_part u (\<lambda>p. p\<lparr>pPlace := Some k,
                          pStatus := (if amt > 0 then AWARDED else ELIMINATED), pPrize := amt\<rparr>)
                          (tParts row)\<rparr>) l
             in if amt \<le> 0 then l1 else move_points u amt PRIZE (Some t) l1)))"

definition awardPrize :: "string \<Rightarrow> (string \<times> int \<times> int) list \<Rightarrow> ledger \<Rightarrow> ledger" where
  "awardPrize t awards l = fold (award_one t) awards l"

record busted_seat =
  bsUser :: string
  bsSeat :: int
  bsStack :: int
  bsContributed :: int

definition payouts_now :: "tournament \<Rightarrow> prize_payout json" where
  "payouts_now row =
     (case payoutsForRaw (entryCountOf (tBuyin row) (tEntryFee row)) (tPayoutTable row) of
        Some ps \<Rightarrow> JArray ps | None \<Rightarrow> JArray [])"

definition pool_now :: "tournament \<Rightarrow> int" where
  "pool_now row = prizePoolOf (tBuyin row) (tRakePercent row)"

text \<open>The transaction of \<open>eliminatePlayer\<close>; the value is the number eliminated and the number left.\<close>

definition eliminatePlayer_tx :: "string \<Rightarrow> string \<Rightarrow> busted_seat list \<Rightarrow> ledger \<Rightarrow> (int \<times> int) ledger_result" where
  "eliminatePlayer_tx t tableId ps l =
     (case tour t l of
        None \<Rightarrow> (Inl TournamentMissing, l)
      | Some row \<Rightarrow>
        let pending = filter (\<lambda>p. case find_part (bsUser p) (tParts row) of
                                    None \<Rightarrow> False | Some q \<Rightarrow> \<not> isFinishedParticipant (pStatus q)) ps;
            busted = map (\<lambda>p. \<lparr>bustedId = bsUser p, bustedSeat = bsSeat p,
                               handStartStack = bsStack p + bsContributed p\<rparr>) pending;
            seats = filter (\<lambda>(tb, s, u). \<not> (tb = tableId \<and> u \<in> set (map bsUser ps))) (tSeats row)
        in if busted = [] then (Inr (0, tActive row), put_tour t (row\<lparr>tSeats := seats\<rparr>) l)
           else if isClosedTournament (tStatus row) then (Inl ClosedTournamentWrite, l)
           else
             let n = int (length busted);
                 row1 = row\<lparr>tSeats := seats, tActive := tActive row - n\<rparr>;
                 awards = splitBustedRanks busted (tActive row1 + n) (pool_now row1) (payouts_now row1)
             in commit (n, tActive row1) l
                 (awardPrize t (map (\<lambda>a. (awardUser a, awardPlace a, awardAmount a)) awards) (put_tour t row1 l)))"

definition tournamentFinished :: "string \<Rightarrow> ledger \<Rightarrow> unit ledger_result" where
  "tournamentFinished t l =
     (case tour t l of
        None \<Rightarrow> (Inl NoLivePlayer, l)
      | Some row \<Rightarrow>
        (case List.find (\<lambda>p. isLiveParticipant (pStatus p)) (tParts row) of
           None \<Rightarrow> (if list_ex (\<lambda>p. pPlace p = Some 1) (tParts row) then (Inr (), l) else (Inl NoLivePlayer, l))
         | Some p \<Rightarrow>
           commit () l (awardPrize t [(pUser p, 1, prizeFor (pool_now row) (payouts_now row) 1)]
                          (put_tour t (row\<lparr>tRegOpen := False\<rparr>) l))))"

definition eliminatePlayer :: "string \<Rightarrow> string \<Rightarrow> busted_seat list \<Rightarrow> ledger \<Rightarrow> unit ledger_result" where
  "eliminatePlayer t tableId ps l =
     (if ps = [] then (Inr (), l)
      else case eliminatePlayer_tx t tableId ps l of
             (Inl e, l') \<Rightarrow> (Inl e, l')
           | (Inr (n, remaining), l') \<Rightarrow> if remaining \<le> 1 then tournamentFinished t l' else (Inr (), l'))"

section \<open>Closing a tournament\<close>

definition paid_prizes :: "tournament \<Rightarrow> int" where
  "paid_prizes row = sum_list (map pPrize (tParts row))"

definition settlement_view :: "tournament \<Rightarrow> settlement_participant list" where
  "settlement_view row = map (\<lambda>p. \<lparr>spUser = pUser p, spStatus = pStatus p, buyInCount = pBuyIns p,
                                   prizeAmount = pPrize p\<rparr>) (tParts row)"

definition owned :: "string \<Rightarrow> string \<Rightarrow> ledger \<Rightarrow> ledger_error + tournament" where
  "owned t owner l =
     (case tour t l of
        None \<Rightarrow> Inl TournamentMissing
      | Some row \<Rightarrow> if tOwner row \<noteq> owner then Inl NotOwner else Inr row)"

text \<open>Tables go, and their seats with them (the cascade of the schema), and so does the dealer session.\<close>

definition close_row :: "tournament_status \<Rightarrow> tournament \<Rightarrow> tournament" where
  "close_row s row = row\<lparr>tStatus := s, tTables := [], tSeats := [], tDealer := None\<rparr>"

definition completeSession :: "string \<Rightarrow> string \<Rightarrow> ledger \<Rightarrow> unit ledger_result" where
  "completeSession t owner l =
     (case owned t owner l of
        Inl e \<Rightarrow> (Inl e, l)
      | Inr row \<Rightarrow>
        if isClosedTournament (tStatus row) then (Inl AlreadyClosed, l)
        else
          let rake = rakeOf (tBuyin row) (tRakePercent row) in
          case completeBlocker (tBuyin row) (paid_prizes row) rake of
            Some b \<Rightarrow> (Inl (CompleteBlocked b), l)
          | None \<Rightarrow>
            let l1 = put_tour t (close_row FINISHED row) l
            in commit () l (if rake > 0 then move_points (tOwner row) rake SETTLEMENT (Some t) l1 else l1))"

text \<open>\<open>waiting\<close> says whether the snapshot of the only table is in the phase between hands.\<close>

definition chopBlocker :: "bool \<Rightarrow> bool \<Rightarrow> tournament \<Rightarrow> ledger_error option" where
  "chopBlocker gateOpen waiting row =
     (if \<not> tStarted row then Some ChopNotStarted
      else if \<not> isFinalTable gateOpen (int (length (tTables row))) then Some ChopNotFinalTable
      else if \<not> waiting then Some ChopHandRunning
      else None)"

definition alive_view :: "tournament \<Rightarrow> chop_participant list" where
  "alive_view row = map (\<lambda>p. \<lparr>cpUser = pUser p, currentStack = pStack p\<rparr>)
                      (filter (\<lambda>p. isLiveParticipant (pStatus p)) (tParts row))"

definition chop_tx :: "string \<Rightarrow> tournament \<Rightarrow> ledger \<Rightarrow> ledger" where
  "chop_tx t row l =
     awardPrize t (map (\<lambda>a. (chopUser a, chopPlace a, chopAmount a))
        (calculateChop (alive_view row) (max 0 (pool_now row - paid_prizes row)))) l"

definition chopSession :: "bool \<Rightarrow> bool \<Rightarrow> string \<Rightarrow> string \<Rightarrow> ledger \<Rightarrow> unit ledger_result" where
  "chopSession gateOpen waiting t owner l =
     (case owned t owner l of
        Inl e \<Rightarrow> (Inl e, l)
      | Inr row \<Rightarrow>
        if isClosedTournament (tStatus row) then (Inl AlreadyClosed, l)
        else case chopBlocker gateOpen waiting row of
               Some e \<Rightarrow> (Inl e, l)
             | None \<Rightarrow>
               if length (alive_view row) < 2 then (Inl ChopTooFew, l)
               else case commit () l (chop_tx t row l) of
                      (Inl e, _) \<Rightarrow> (Inl e, l)
                    | (Inr _, l1) \<Rightarrow> completeSession t owner l1)"

text \<open>Refunds are paid one by one; amounts that are not positive are skipped.\<close>

definition pay_refunds :: "string \<Rightarrow> refund list \<Rightarrow> ledger \<Rightarrow> ledger" where
  "pay_refunds t rs l =
     fold (\<lambda>r l. if refundAmount r \<le> 0 then l
                 else move_points (refundUser r) (refundAmount r) REFUND (Some t) l) rs l"

definition abortSession :: "string \<Rightarrow> string \<Rightarrow> ledger \<Rightarrow> abort_settlement ledger_result" where
  "abortSession t owner l =
     (case owned t owner l of
        Inl e \<Rightarrow> (Inl e, l)
      | Inr row \<Rightarrow>
        if isClosedTournament (tStatus row) then (Inl AlreadyClosed, l)
        else if \<not> tStarted row then (Inl AbortNotStarted, l)
        else
          let settlement = calculateAbortSettlement (settlement_view row) (tEntryFee row) (tBuyin row);
              l1 = put_tour t (close_row CANCELLED (row\<lparr>tBuyin := 0, tActive := 0\<rparr>)) l;
              l2 = pay_refunds t (refunds settlement) l1
          in commit settlement l
              (if storeAmount settlement > 0
              then move_points (tOwner row) (storeAmount settlement) SETTLEMENT (Some t) l2 else l2))"

definition cancelSession :: "string \<Rightarrow> string \<Rightarrow> ledger \<Rightarrow> unit ledger_result" where
  "cancelSession t owner l =
     (case owned t owner l of
        Inl e \<Rightarrow> (Inl e, l)
      | Inr row \<Rightarrow>
        if isClosedTournament (tStatus row) then (Inl AlreadyClosed, l)
        else if tStarted row then (Inl AlreadyStarted, l)
        else
          let owed = int (length (tParts row)) * tEntryFee row in
          if owed \<noteq> tBuyin row then (Inl (BooksDisagree (tBuyin row) owed), l)
          else commit () l (fold (\<lambda>p l. move_points (pUser p) (tEntryFee row) REFUND (Some t) l) (tParts row)
                          (put_tour t (close_row CANCELLED (row\<lparr>tBuyin := 0, tActive := 0\<rparr>)) l)))"

end
