(* ===== verification/Tournaments.thy ===== *)
theory Tournaments
  imports Ledger
begin

text \<open>
  The life of a tournament before and beside its money: creating it and its tables, changing it, starting
  it (\<open>store/session/session.service.ts\<close>), taking and releasing seats (\<open>entry/entry.service.ts\<close>,
  \<open>releaseSeats\<close>), the dealer's login and kick (\<open>dealer/dealer.service.ts\<close>), the stacks written back after
  a hand (\<open>syncTableInventoryToDb\<close>), and the two kinds of token whose version is checked against the
  database (\<open>assertSeatTokenCurrent\<close>, \<open>assertDealerSessionValid\<close>). Fresh identifiers and one-time
  passwords are arguments; owners of stores and of blind structures are lookup functions.
\<close>

section \<open>Creating and changing\<close>

record create_dto =
  cdName :: string
  cdStore :: string
  cdBlindId :: "string option"
  cdBlindStructure :: "(string \<times> raw_level json) option"
  cdPayoutTable :: "payout_tier json option"
  cdStartStack :: int
  cdEntryFee :: int
  cdRakePercent :: "int option"
  cdRebuyUntil :: int
  cdRegOpen :: "bool option"

text \<open>The ranges that the validation of the request guarantees.\<close>

definition create_dto_ok :: "create_dto \<Rightarrow> bool" where
  "create_dto_ok d \<longleftrightarrow> 1 \<le> cdStartStack d \<and> cdStartStack d \<le> 1000000000
     \<and> 1 \<le> cdEntryFee d \<and> cdEntryFee d \<le> 200000
     \<and> (case cdRakePercent d of None \<Rightarrow> True | Some r \<Rightarrow> 0 \<le> r \<and> r \<le> 50)
     \<and> 0 \<le> cdRebuyUntil d \<and> cdRebuyUntil d \<le> 99"

definition new_tournament :: "create_dto \<Rightarrow> string \<Rightarrow> payout_tier list \<Rightarrow> raw_level json \<Rightarrow> string \<Rightarrow> tournament" where
  "new_tournament d owner table blinds tableId =
     \<lparr>tName = cdName d, tStatus = PENDING, tStarted = False, tEntryFee = cdEntryFee d,
      tStartStack = cdStartStack d, tRakePercent = (case cdRakePercent d of None \<Rightarrow> 0 | Some r \<Rightarrow> r),
      tPayoutTable = JArray table, tRegOpen = (case cdRegOpen d of None \<Rightarrow> True | Some b \<Rightarrow> b),
      tRebuyUntil = cdRebuyUntil d, tAvgStack = cdStartStack d, tBlinds = blinds,
      tBuyin = 0, tActive = 0, tTotalPlayers = 0, tOwner = owner, tDealer = Some 0,
      tParts = [], tTables = [tableId], tSeats = []\<rparr>"

text \<open>\<open>stores\<close> gives the owner of a store, \<open>blinds\<close> the store and the levels of a saved blind structure.\<close>

definition createSession ::
  "(string \<Rightarrow> string option) \<Rightarrow> (string \<Rightarrow> (string \<times> raw_level json) option) \<Rightarrow> create_dto \<Rightarrow> string
   \<Rightarrow> string \<Rightarrow> string \<Rightarrow> ledger \<Rightarrow> unit ledger_result" where
  "createSession stores blinds d owner t tableId l =
     (if stores (cdStore d) \<noteq> Some owner then (Inl NotOwner, l)
      else if cdBlindId d = None \<and> cdBlindStructure d = None then (Inl BlindStructureMissing, l)
      else if (case cdBlindStructure d of None \<Rightarrow> False | Some (s, _) \<Rightarrow> s \<noteq> cdStore d) then (Inl NotOwner, l)
      else
        (case (case cdBlindId d of
                 None \<Rightarrow> Inr (case cdBlindStructure d of None \<Rightarrow> JNull | Some (_, levels) \<Rightarrow> levels)
               | Some b \<Rightarrow> (case blinds b of
                              None \<Rightarrow> Inl BlindStructureMissing
                            | Some (s, levels) \<Rightarrow> if s \<noteq> cdStore d then Inl NotOwner else Inr levels)) of
           Inl e \<Rightarrow> (Inl e, l)
         | Inr levels \<Rightarrow>
           (case parsePayoutTable (case cdPayoutTable d of None \<Rightarrow> JArray DEFAULT_PAYOUT_TABLE | Some raw \<Rightarrow> raw) of
              Inl e \<Rightarrow> (Inl (PayoutTableRejected e), l)
            | Inr table \<Rightarrow>
              if tour t l \<noteq> None then (Inl IdTaken, l)
              else commit () l (l\<lparr>lTours := lTours l @ [(t, new_tournament d owner table levels tableId)]\<rparr>))))"

definition createTable_tx :: "string \<Rightarrow> string \<Rightarrow> string \<Rightarrow> ledger \<Rightarrow> unit ledger_result" where
  "createTable_tx t owner tableId l =
     (case owned t owner l of
        Inl e \<Rightarrow> (Inl e, l)
      | Inr row \<Rightarrow>
        if isClosedTournament (tStatus row) then (Inl AlreadyClosed, l)
        else if tDealer row = None then (Inl NoDealerSession, l)
        else if tableId \<in> set (tTables row) then (Inl IdTaken, l)
        else (Inr (), put_tour t (row\<lparr>tTables := tTables row @ [tableId]\<rparr>) l))"

definition deleteTable_tx :: "string \<Rightarrow> string \<Rightarrow> string \<Rightarrow> ledger \<Rightarrow> unit ledger_result" where
  "deleteTable_tx t tableId owner l =
     (case owned t owner l of
        Inl e \<Rightarrow> (Inl e, l)
      | Inr row \<Rightarrow>
        if tableId \<notin> set (tTables row) then (Inl TableMissing, l)
        else if list_ex (\<lambda>(tb, s, w). tb = tableId) (tSeats row) then (Inl TableOccupied, l)
        else if length (tTables row) \<le> 1 then (Inl LastTable, l)
        else (Inr (), put_tour t (row\<lparr>tTables := filter (\<lambda>tb. tb \<noteq> tableId) (tTables row)\<rparr>) l))"

record update_dto =
  udName :: "string option"
  udBlinds :: "(string \<times> raw_level json) option"
  udPayoutTable :: "payout_tier json option"
  udStartStack :: "int option"
  udEntryFee :: "int option"
  udRakePercent :: "int option"
  udRebuyUntil :: "int option"

definition update_dto_ok :: "update_dto \<Rightarrow> bool" where
  "update_dto_ok d \<longleftrightarrow>
     (case udStartStack d of None \<Rightarrow> True | Some n \<Rightarrow> 1 \<le> n \<and> n \<le> 1000000000)
     \<and> (case udEntryFee d of None \<Rightarrow> True | Some n \<Rightarrow> 1 \<le> n \<and> n \<le> 200000)
     \<and> (case udRakePercent d of None \<Rightarrow> True | Some n \<Rightarrow> 0 \<le> n \<and> n \<le> 50)"

definition set_to :: "'a option \<Rightarrow> 'a \<Rightarrow> 'a" where
  "set_to new old = (case new of None \<Rightarrow> old | Some x \<Rightarrow> x)"

text \<open>\<open>udBlinds\<close> is the blind structure named by \<open>dto.blindId\<close>, with its store; \<open>store\<close> is that of the tournament.\<close>

definition updateSession :: "string \<Rightarrow> string \<Rightarrow> string \<Rightarrow> update_dto \<Rightarrow> ledger \<Rightarrow> unit ledger_result" where
  "updateSession store t owner d l =
     (case owned t owner l of
        Inl e \<Rightarrow> (Inl e, l)
      | Inr row \<Rightarrow>
        if isClosedTournament (tStatus row) then (Inl AlreadyClosed, l)
        else if tBuyin row > 0 \<and> (udEntryFee d \<noteq> None \<or> udStartStack d \<noteq> None \<or> udRakePercent d \<noteq> None)
        then (Inl FeesAlreadyCollected, l)
        else if tStarted row \<and> (udRebuyUntil d \<noteq> None \<or> udBlinds d \<noteq> None \<or> udPayoutTable d \<noteq> None)
        then (Inl LockedAfterStart, l)
        else if (case udBlinds d of None \<Rightarrow> False | Some (s, _) \<Rightarrow> s \<noteq> store) then (Inl NotOwner, l)
        else
          (case (case udPayoutTable d of
                   None \<Rightarrow> Inr (tPayoutTable row)
                 | Some raw \<Rightarrow> (case parsePayoutTable raw of
                                  Inl e \<Rightarrow> Inl (PayoutTableRejected e) | Inr ts \<Rightarrow> Inr (JArray ts))) of
             Inl e \<Rightarrow> (Inl e, l)
           | Inr table \<Rightarrow>
             (Inr (), put_tour t (row\<lparr>tName := set_to (udName d) (tName row),
                tBlinds := set_to (map_option snd (udBlinds d)) (tBlinds row),
                tStartStack := set_to (udStartStack d) (tStartStack row),
                tRebuyUntil := set_to (udRebuyUntil d) (tRebuyUntil row),
                tEntryFee := set_to (udEntryFee d) (tEntryFee row),
                tRakePercent := set_to (udRakePercent d) (tRakePercent row),
                tPayoutTable := table\<rparr>) l)))"

section \<open>Starting\<close>

definition meta_of :: "tournament \<Rightarrow> meta_source" where
  "meta_of row =
     \<lparr>msName = tName row, msEntryFee = tEntryFee row, msStartStack = tStartStack row,
      msRegistrationOpen = tRegOpen row, msTotalPlayers = tTotalPlayers row,
      msActivePlayers = tActive row, msTotalBuyinAmount = tBuyin row, msRakePercent = tRakePercent row,
      msRebuyUntil = tRebuyUntil row, msAvgStack = tAvgStack row, msPayoutTable = tPayoutTable row,
      msBlindStructure = tBlinds row\<rparr>"

text \<open>
  \<open>minPlayers\<close> is the setting \<open>MIN_PLAYERS_TO_START\<close>; \<open>ready\<close> says whether every occupied table has its
  snapshot. The value is what the start writes to the board.
\<close>

definition startSession ::
  "int \<Rightarrow> bool \<Rightarrow> int \<Rightarrow> string \<Rightarrow> string \<Rightarrow> ledger \<Rightarrow> (dashboard \<times> blind_field \<times> payout_tier list) ledger_result" where
  "startSession minPlayers ready now t owner l =
     (case owned t owner l of
        Inl e \<Rightarrow> (Inl e, l)
      | Inr row \<Rightarrow>
        if tStatus row \<noteq> PENDING then (Inl AlreadyStarted, l)
        else (case buildTournamentMeta (meta_of row) now None now of
                Inl e \<Rightarrow> (Inl (MetaRejected e), l)
              | Inr meta \<Rightarrow>
                if tTotalPlayers row < minPlayers then (Inl (TooFewPlayers (tTotalPlayers row) minPlayers), l)
                else if \<not> ready then (Inl TableMissing, l)
                else (Inr meta, put_tour t (row\<lparr>tStatus := ONGOING, tStarted := True\<rparr>) l)))"

section \<open>Seats\<close>

text \<open>The database part of \<open>claimSeat\<close>: a row of the seat, and the first seat makes a player active.\<close>

definition claimSeat_tx :: "string \<Rightarrow> string \<Rightarrow> int \<Rightarrow> string \<Rightarrow> ledger \<Rightarrow> unit ledger_result" where
  "claimSeat_tx t tableId seat_no u l =
     (case tour t l of
        None \<Rightarrow> (Inl NotThisTable, l)
      | Some row \<Rightarrow>
        if tableId \<notin> set (tTables row) then (Inl NotThisTable, l)
        else if list_ex (\<lambda>(tb, s, w). tb = tableId \<and> s = seat_no) (tSeats row) then (Inl SeatTaken, l)
        else if list_ex (\<lambda>(tb, s, w). w = u) (tSeats row) then (Inl SeatedElsewhere, l)
        else
          let waiting = (case find_part u (tParts row) of Some p \<Rightarrow> pStatus p = WAITING_PLAYER | None \<Rightarrow> False)
          in commit () l (put_tour t (row\<lparr>
                tSeats := tSeats row @ [(tableId, seat_no, u)],
                tActive := tActive row + of_bool waiting,
                tParts := update_part u (\<lambda>p. if pStatus p \<in> {WAITING_PLAYER, RELEASED}
                                             then p\<lparr>pStatus := PLAYING\<rparr> else p) (tParts row)\<rparr>) l))"

text \<open>A lost snapshot blocks a seat as long as the table has players in the database.\<close>

definition shouldBlockEmptySnapshot :: "bool \<Rightarrow> tournament_status \<Rightarrow> int \<Rightarrow> bool" where
  "shouldBlockEmptySnapshot snapshotMissing status players \<longleftrightarrow>
     snapshotMissing \<and> \<not> isClosedTournament status \<and> players > 0"

definition bump_seat_version :: "string \<Rightarrow> string \<Rightarrow> ledger \<Rightarrow> ledger" where
  "bump_seat_version t u l =
     (case tour t l of
        None \<Rightarrow> l
      | Some row \<Rightarrow> put_tour t (row\<lparr>tParts :=
          update_part u (\<lambda>p. p\<lparr>pSeatVersion := pSeatVersion p + 1\<rparr>) (tParts row)\<rparr>) l)"

text \<open>The value is the user and the version that the new seat token carries.\<close>

definition enterSeat :: "bool \<Rightarrow> string \<Rightarrow> string \<Rightarrow> int \<Rightarrow> string \<Rightarrow> ledger \<Rightarrow> (string \<times> int) ledger_result" where
  "enterSeat snapshotMissing t tableId seat_no otp l =
     (case tour t l of
        None \<Rightarrow> (Inl OtpUnknown, l)
      | Some row \<Rightarrow>
        (case List.find (\<lambda>p. pOtp p = otp) (tParts row) of
           None \<Rightarrow> (Inl OtpUnknown, l)
         | Some p \<Rightarrow>
           if isClosedTournament (tStatus row) then (Inl AlreadyClosed, l)
           else if isFinishedParticipant (pStatus p) then (Inl ParticipationOver, l)
           else
             let u = pUser p;
                 seated = List.find (\<lambda>(tb, s, w). w = u) (tSeats row);
                 occupied = int (length (filter (\<lambda>(tb, s, w). tb = tableId) (tSeats row)))
             in if seated \<noteq> None \<and> seated \<noteq> Some (tableId, seat_no, u) then (Inl SeatedElsewhere, l)
                else if tableId \<notin> set (tTables row) then (Inl NotThisTable, l)
                else if shouldBlockEmptySnapshot snapshotMissing (tStatus row) occupied then (Inl TableRecovering, l)
                else
                  (case (if seated = None then claimSeat_tx t tableId seat_no u l else (Inr (), l)) of
                     (Inl e, l') \<Rightarrow> (Inl e, l')
                   | (Inr _, l') \<Rightarrow> (Inr (u, pSeatVersion p + 1), bump_seat_version t u l'))))"

text \<open>The transaction of \<open>releaseSeats\<close>: all listed seats, each still held by the listed player, or none.\<close>

definition releaseSeats_tx :: "string \<Rightarrow> string \<Rightarrow> (int \<times> string) list \<Rightarrow> ledger \<Rightarrow> unit ledger_result" where
  "releaseSeats_tx t tableId seats l =
     (case tour t l of
        None \<Rightarrow> (Inl TableMissing, l)
      | Some row \<Rightarrow>
        if tableId \<notin> set (tTables row) then (Inl TableMissing, l)
        else
          let idx = map fst seats; us = map snd seats;
              rows = filter (\<lambda>(tb, s, w). tb = tableId \<and> s \<in> set idx) (tSeats row);
              parts = filter (\<lambda>p. pUser p \<in> set us) (tParts row)
          in if length rows \<noteq> length seats \<or> \<not> list_all (\<lambda>(s, u). (tableId, s, u) \<in> set rows) seats
             then (Inl SeatChanged, l)
             else if length parts \<noteq> length us \<or> \<not> list_all (\<lambda>p. pStatus p = PLAYING) parts
             then (Inl NotPlaying, l)
             else (Inr (), put_tour t (row\<lparr>
                     tSeats := filter (\<lambda>(tb, s, w). \<not> (tb = tableId \<and> s \<in> set idx)) (tSeats row),
                     tParts := map (\<lambda>p. if pUser p \<in> set us then p\<lparr>pStatus := RELEASED, pSeatVersion := pSeatVersion p + 1\<rparr> else p) (tParts row)\<rparr>) l))"

text \<open>The new one-time passwords of a release that rotates them, one per released player.\<close>

definition rotate_otps :: "string \<Rightarrow> (string \<times> string) list \<Rightarrow> ledger \<Rightarrow> ledger" where
  "rotate_otps t otps l =
     (case tour t l of
        None \<Rightarrow> l
      | Some row \<Rightarrow> put_tour t (row\<lparr>tParts :=
          fold (\<lambda>(u, otp) ps. update_part u (\<lambda>p. p\<lparr>pOtp := otp\<rparr>) ps) otps (tParts row)\<rparr>) l)"

text \<open>
  \<open>releaseSeats\<close> against the database; \<open>otps\<close> is empty unless the passwords are rotated. A new password that
  another participant has already violates the unique key, and nothing is written.
\<close>

definition releaseSeats ::
  "string \<Rightarrow> string \<Rightarrow> (int \<times> string) list \<Rightarrow> string \<Rightarrow> (string \<times> string) list \<Rightarrow> ledger \<Rightarrow> unit ledger_result" where
  "releaseSeats t tableId seats owner otps l =
     (case owned t owner l of
        Inl e \<Rightarrow> (Inl e, l)
      | Inr _ \<Rightarrow>
        (case releaseSeats_tx t tableId seats l of
           (Inl e, _) \<Rightarrow> (Inl e, l)
         | (Inr _, l1) \<Rightarrow>
           let l2 = rotate_otps t otps l1 in
           if (case tour t l2 of None \<Rightarrow> True | Some row \<Rightarrow> distinct (map pOtp (tParts row)))
           then (Inr (), l2) else (Inl OtpTaken, l)))"

text \<open>A seat token names a user and a version; it is current while the version is that of the row.\<close>

definition assertSeatTokenCurrent :: "string \<Rightarrow> string \<Rightarrow> int \<Rightarrow> ledger \<Rightarrow> bool" where
  "assertSeatTokenCurrent t u ver l =
     (case tour t l of
        None \<Rightarrow> False
      | Some row \<Rightarrow> (case find_part u (tParts row) of None \<Rightarrow> False | Some p \<Rightarrow> pSeatVersion p = ver))"

section \<open>The dealer\<close>

text \<open>
  A login that got past the password: in a live tournament it makes the waiting players of the table
  active. The value is the version that the dealer token carries.
\<close>

definition loginDealer_tx :: "string \<Rightarrow> string \<Rightarrow> ledger \<Rightarrow> int ledger_result" where
  "loginDealer_tx t tableId l =
     (case tour t l of
        None \<Rightarrow> (Inl OtpUnknown, l)
      | Some row \<Rightarrow>
        if isClosedTournament (tStatus row) then (Inl AlreadyClosed, l)
        else (case tDealer row of
                None \<Rightarrow> (Inl NoDealerSession, l)
              | Some ver \<Rightarrow>
                if tableId \<notin> set (tTables row) then (Inl NotThisTable, l)
                else if isLiveTournament (tStatus row) then
                  let us = map (\<lambda>(tb, s, w). w) (filter (\<lambda>(tb, s, w). tb = tableId) (tSeats row));
                      waiting = filter (\<lambda>p. pUser p \<in> set us \<and> pStatus p = WAITING_PLAYER) (tParts row)
                  in commit ver l (put_tour t (row\<lparr>tActive := tActive row + int (length waiting),
                       tParts := map (\<lambda>p. if pUser p \<in> set us \<and> pStatus p = WAITING_PLAYER
                                          then p\<lparr>pStatus := PLAYING\<rparr> else p) (tParts row)\<rparr>) l)
                else (Inr ver, l)))"

definition assertDealerSessionValid :: "string \<Rightarrow> string \<Rightarrow> int \<Rightarrow> ledger \<Rightarrow> bool" where
  "assertDealerSessionValid t tableId ver l =
     (case tour t l of
        None \<Rightarrow> False
      | Some row \<Rightarrow> (case tDealer row of
          None \<Rightarrow> False
        | Some v \<Rightarrow> \<not> isClosedTournament (tStatus row) \<and> v = ver \<and> tableId \<in> set (tTables row)))"

definition revokeDealerSession :: "string \<Rightarrow> string \<Rightarrow> ledger \<Rightarrow> unit ledger_result" where
  "revokeDealerSession t owner l =
     (case owned t owner l of
        Inl e \<Rightarrow> (Inl e, l)
      | Inr row \<Rightarrow> (Inr (), put_tour t (row\<lparr>tDealer := map_option (\<lambda>v. v + 1) (tDealer row)\<rparr>) l))"

text \<open>What the dealer may not do: nothing at a final table, and no kick once everybody left is in the money.\<close>

definition dealer_guard :: "bool \<Rightarrow> bool \<Rightarrow> tournament \<Rightarrow> ledger_error option" where
  "dealer_guard gateOpen kick row =
     (if isClosedTournament (tStatus row) then Some AlreadyClosed
      else if isFinalTable gateOpen (int (length (tTables row))) then Some FinalTableBlocked
      else if kick \<and> (case payouts_now row of JArray ps \<Rightarrow> tActive row \<le> int (length ps) | _ \<Rightarrow> False)
      then Some PrizeZoneBlocked
      else None)"

definition kick_tx :: "string \<Rightarrow> string \<Rightarrow> ledger \<Rightarrow> int ledger_result" where
  "kick_tx t u l =
     (case tour t l of
        None \<Rightarrow> (Inl TournamentMissing, l)
      | Some row \<Rightarrow>
        (case find_part u (tParts row) of
           None \<Rightarrow> (Inr (tActive row), l)
         | Some p \<Rightarrow>
           if isFinishedParticipant (pStatus p) then (Inr (tActive row), l)
           else if isClosedTournament (tStatus row) then (Inl ClosedTournamentWrite, l)
           else commit (tActive row - 1) l (put_tour t (row\<lparr>tActive := tActive row - 1,
                  tParts := update_part u (\<lambda>p. p\<lparr>pStatus := ELIMINATED\<rparr>) (tParts row)\<rparr>) l)))"

text \<open>The guards of a kick and its transaction; a final table also closes the registration for good.\<close>

definition dealerKick :: "bool \<Rightarrow> string \<Rightarrow> string \<Rightarrow> ledger \<Rightarrow> int ledger_result" where
  "dealerKick gateOpen t u l =
     (case tour t l of
        None \<Rightarrow> (Inl TournamentMissing, l)
      | Some row \<Rightarrow>
        (case dealer_guard gateOpen True row of
           Some FinalTableBlocked \<Rightarrow> (Inl FinalTableBlocked, closeRegistration t l)
         | Some e \<Rightarrow> (Inl e, l)
         | None \<Rightarrow> kick_tx t u l))"

section \<open>The stacks of a table\<close>

text \<open>All rows or none; a player without a participation fails the transaction.\<close>

definition syncTableInventoryToDb :: "string \<Rightarrow> (string \<times> int) list \<Rightarrow> ledger \<Rightarrow> bool \<times> ledger" where
  "syncTableInventoryToDb t stacks_now l =
     (case tour t l of
        None \<Rightarrow> (False, l)
      | Some row \<Rightarrow>
        if list_all (\<lambda>(u, n). find_part u (tParts row) \<noteq> None) stacks_now
        then (case commit () l (put_tour t (row\<lparr>tParts :=
                  fold (\<lambda>(u, n) ps. update_part u (\<lambda>p. p\<lparr>pStack := n\<rparr>) ps) stacks_now (tParts row)\<rparr>) l) of
                (Inl _, l') \<Rightarrow> (False, l') | (Inr _, l') \<Rightarrow> (True, l'))
        else (False, l))"

end
