(* ===== verification/LedgerRun.thy ===== *)
theory LedgerRun
  imports Tournaments
begin

text \<open>
  The database as a machine: every request that reaches it as an event, and one step per event. An event
  carries what comes from outside (the request, the caller, random passwords, the clock, what the Redis
  snapshot says), and is ignored when the validation of requests or the state of the table rules it out:
  charges and settings outside their ranges, and a finished hand on a table that is not in play.
\<close>

record world =
  wStores :: "string \<Rightarrow> string option"
  wBlinds :: "string \<Rightarrow> (string \<times> raw_level json) option"
  wStoreOf :: "string \<Rightarrow> string"

datatype ledger_event =
    EvCharge string int
  | EvCreate create_dto string string string
  | EvUpdate string string update_dto
  | EvCreateTable string string string
  | EvDeleteTable string string string
  | EvJoin bool "string list" string string
  | EvStart int bool int string string
  | EvEnter bool string string int string
  | EvRelease string string "(int \<times> string) list" string "(string \<times> string) list"
  | EvLogin string string
  | EvRevoke string string
  | EvKick bool string string
  | EvRebuy string string
  | EvHandOver string string "busted_seat list"
  | EvStacks string "(string \<times> int) list"
  | EvComplete string string
  | EvChop bool bool string string
  | EvAbort string string
  | EvCancel string string

definition charge_ok :: "int \<Rightarrow> bool" where
  "charge_ok amt \<longleftrightarrow> 1 \<le> amt \<and> amt \<le> 1000000"

text \<open>A hand ends on an open table of a tournament that has started; its players sit on at most nine seats.\<close>

definition hand_ended :: "string \<Rightarrow> string \<Rightarrow> busted_seat list \<Rightarrow> ledger \<Rightarrow> bool" where
  "hand_ended t tableId ps l =
     (case tour t l of
        None \<Rightarrow> False
      | Some row \<Rightarrow> tStarted row \<and> tableId \<in> set (tTables row) \<and> length ps \<le> 9
          \<and> distinct (map bsUser ps))"

definition rebuy_step :: "string \<Rightarrow> string \<Rightarrow> ledger \<Rightarrow> ledger" where
  "rebuy_step t u l =
     (case tour t l of
        None \<Rightarrow> l
      | Some row \<Rightarrow> snd (executeRebuyTransaction t u (tEntryFee row) (tStartStack row) l))"

fun ledger_step :: "world \<Rightarrow> ledger \<Rightarrow> ledger_event \<Rightarrow> ledger" where
  "ledger_step w l (EvCharge u amt) = (if charge_ok amt then snd (chargePoint u amt l) else l)"
| "ledger_step w l (EvCreate d owner t tb) =
     (if create_dto_ok d \<and> points owner l \<noteq> None
      then snd (createSession (wStores w) (wBlinds w) d owner t tb l) else l)"
| "ledger_step w l (EvUpdate t owner d) =
     (if update_dto_ok d then snd (updateSession (wStoreOf w t) t owner d l) else l)"
| "ledger_step w l (EvCreateTable t owner tb) = snd (createTable_tx t owner tb l)"
| "ledger_step w l (EvDeleteTable t tb owner) = snd (deleteTable_tx t tb owner l)"
| "ledger_step w l (EvJoin gateOpen otps t u) = snd (joinSession gateOpen otps t u l)"
| "ledger_step w l (EvStart n ready now t owner) = snd (startSession n ready now t owner l)"
| "ledger_step w l (EvEnter missing t tb s otp) = snd (enterSeat missing t tb s otp l)"
| "ledger_step w l (EvRelease t tb seats owner otps) = snd (releaseSeats t tb seats owner otps l)"
| "ledger_step w l (EvLogin t tb) = snd (loginDealer_tx t tb l)"
| "ledger_step w l (EvRevoke t owner) = snd (revokeDealerSession t owner l)"
| "ledger_step w l (EvKick gateOpen t u) = snd (dealerKick gateOpen t u l)"
| "ledger_step w l (EvRebuy t u) = rebuy_step t u l"
| "ledger_step w l (EvHandOver t tb ps) = (if hand_ended t tb ps l then snd (eliminatePlayer t tb ps l) else l)"
| "ledger_step w l (EvStacks t ns) =
     (if list_all (\<lambda>(u, n). 0 \<le> n) ns then snd (syncTableInventoryToDb t ns l) else l)"
| "ledger_step w l (EvComplete t owner) = snd (completeSession t owner l)"
| "ledger_step w l (EvChop gateOpen waiting t owner) = snd (chopSession gateOpen waiting t owner l)"
| "ledger_step w l (EvAbort t owner) = snd (abortSession t owner l)"
| "ledger_step w l (EvCancel t owner) = snd (cancelSession t owner l)"

section \<open>What the books say\<close>

text \<open>The transactions that name a tournament, and those of a user.\<close>

definition tx_sum :: "string \<Rightarrow> ledger \<Rightarrow> int" where
  "tx_sum t l = sum_list (map txAmount (filter (\<lambda>tx. txTournament tx = Some t) (lTx l)))"

definition user_sum :: "string \<Rightarrow> ledger \<Rightarrow> int" where
  "user_sum u l = sum_list (map txAmount (filter (\<lambda>tx. txUser tx = u) (lTx l)))"

text \<open>What a user's points exceed their transactions by: nothing, for a user who began with none.\<close>

definition audit_gap :: "string \<Rightarrow> ledger \<Rightarrow> int" where
  "audit_gap u l = (case points u l of None \<Rightarrow> 0 | Some p \<Rightarrow> p) - user_sum u l"

definition closed_row :: "tournament \<Rightarrow> bool" where
  "closed_row row \<longleftrightarrow> isClosedTournament (tStatus row)"

definition total_buy_ins :: "tournament \<Rightarrow> int" where
  "total_buy_ins row = sum_list (map pBuyIns (tParts row))"

definition canonical_table :: "payout_tier json \<Rightarrow> bool" where
  "canonical_table raw \<longleftrightarrow> (case raw of
     JArray ts \<Rightarrow> parsePayoutTable (JArray ts) = Inr ts | _ \<Rightarrow> False)"

definition part_inv :: "string set \<Rightarrow> participation \<Rightarrow> bool" where
  "part_inv us p \<longleftrightarrow> pUser p \<in> us \<and> 0 \<le> pPrize p \<and> 0 \<le> pStack p \<and> 1 \<le> pBuyIns p
     \<and> (isFinishedParticipant (pStatus p) \<or> pPrize p = 0)"

definition row_inv :: "string set \<Rightarrow> tournament \<Rightarrow> bool" where
  "row_inv us row \<longleftrightarrow> tOwner row \<in> us \<and> (\<forall>p\<in>set (tParts row). part_inv us p)
     \<and> distinct (map pUser (tParts row))
     \<and> 1 \<le> tEntryFee row \<and> 0 \<le> tStartStack row \<and> 0 \<le> tRakePercent row \<and> tRakePercent row \<le> 100
     \<and> canonical_table (tPayoutTable row) \<and> 0 \<le> tBuyin row
     \<and> (tStarted row \<or> (\<forall>p\<in>set (tParts row). pPrize p = 0))
     \<and> (if closed_row row then tTables row = [] else tBuyin row = tEntryFee row * total_buy_ins row)"

definition ledger_inv :: "ledger \<Rightarrow> bool" where
  "ledger_inv l \<longleftrightarrow> distinct (map fst (lUsers l)) \<and> distinct (map fst (lTours l)) \<and> ledger_fits l
     \<and> (\<forall>u p. points u l = Some p \<longrightarrow> 0 \<le> p)
     \<and> (\<forall>t row. tour t l = Some row \<longrightarrow> row_inv (fst ` set (lUsers l)) row
          \<and> (\<not> closed_row row \<longrightarrow> tx_sum t l = paid_prizes row - tBuyin row))
     \<and> (\<forall>tx\<in>set (lTx l). \<forall>t. txTournament tx = Some t \<longrightarrow> tour t l \<noteq> None)"

definition part_money :: "participation \<Rightarrow> string \<times> int \<times> int" where
  "part_money p = (pUser p, pBuyIns p, pPrize p)"

text \<open>How a step may change a ledger: users stay auditable, and a closed tournament stays closed and settled.\<close>

definition evolves :: "ledger \<Rightarrow> ledger \<Rightarrow> bool" where
  "evolves l l' \<longleftrightarrow> (\<forall>u. audit_gap u l' = audit_gap u l) \<and> fst ` set (lUsers l') = fst ` set (lUsers l)
     \<and> (\<forall>t row. tour t l = Some row \<and> closed_row row \<longrightarrow>
          (\<exists>row'. tour t l' = Some row' \<and> tStatus row' = tStatus row \<and> tBuyin row' = tBuyin row
             \<and> map part_money (tParts row') = map part_money (tParts row) \<and> tx_sum t l' = tx_sum t l))"

end
