(* ===== verification/LedgerProps.thy ===== *)
theory LedgerProps
  imports LedgerRun PrizeProps SettlementProps
begin

text \<open>
  The calculus behind the money properties. \<open>effect t d row row' l l'\<close> says that \<open>l'\<close> comes from \<open>l\<close> by
  replacing the row of tournament \<open>t\<close> and by moving points with transactions that name \<open>t\<close> and add up to \<open>d\<close>;
  effects compose. Every operation of the ledger has an effect, and one lemma (\<open>effect_inv\<close>) turns an effect
  that keeps the row sound and the books balanced into the preservation of the ledger's invariant.
\<close>

section \<open>Rows\<close>

lemma map_of_alist_update: "map_of (alist_update k f kvs) k' = (if k' = k then map_option f (map_of kvs k') else map_of kvs k')"
  by (induction kvs) (auto simp: alist_update_def)

lemma alist_update_keys [simp]: "map fst (alist_update k f kvs) = map fst kvs"
  by (induction kvs) (auto simp: alist_update_def)

lemma alist_update_key_set [simp]: "fst ` set (alist_update k f kvs) = fst ` set kvs"
  by (metis alist_update_keys set_map)

lemma points_put_tour [simp]: "points u (put_tour t row l) = points u l"
  by (simp add: points_def put_tour_def)

lemma tour_put_tour: "tour t' (put_tour t row l) = (if t' = t then map_option (\<lambda>_. row) (tour t l) else tour t' l)"
  by (auto simp: tour_def put_tour_def map_of_alist_update)

lemma tour_move_points [simp]: "tour t (move_points u amt ty t' l) = tour t l"
  by (simp add: tour_def move_points_def)

lemma points_move_points:
  "points u (move_points v amt ty t l) = (if u = v then map_option (\<lambda>p. p + amt) (points u l) else points u l)"
  by (auto simp: points_def move_points_def map_of_alist_update)

lemma tx_sum_move_points [simp]:
  "tx_sum t (move_points u amt ty t' l) = tx_sum t l + (if t' = Some t then amt else 0)"
  by (simp add: tx_sum_def move_points_def)

lemma user_sum_move_points [simp]:
  "user_sum u (move_points v amt ty t l) = user_sum u l + (if v = u then amt else 0)"
  by (simp add: user_sum_def move_points_def)

lemma put_tour_sums [simp]: "tx_sum t' (put_tour t row l) = tx_sum t' l" "user_sum u (put_tour t row l) = user_sum u l"
  "lUsers (put_tour t row l) = lUsers l" "lTx (put_tour t row l) = lTx l"
  "map fst (lTours (put_tour t row l)) = map fst (lTours l)"
  by (simp_all add: tx_sum_def user_sum_def put_tour_def)

lemma move_points_lists [simp]: "map fst (lUsers (move_points v amt ty t l)) = map fst (lUsers l)"
  "fst ` set (lUsers (move_points v amt ty t l)) = fst ` set (lUsers l)"
  "lTours (move_points v amt ty t l) = lTours l"
  "lTx (move_points v amt ty t l) = lTx l @ [\<lparr>txUser = v, txAmount = amt, txType = ty, txTournament = t\<rparr>]"
  by (simp_all add: move_points_def)

lemma points_known: "points u l \<noteq> None \<longleftrightarrow> u \<in> fst ` set (lUsers l)"
  by (simp add: points_def map_of_eq_None_iff)

lemma audit_move_points: "v \<in> fst ` set (lUsers l) \<Longrightarrow> audit_gap u (move_points v amt ty t l) = audit_gap u l"
  using points_known[of v l] by (auto simp: audit_gap_def points_move_points split: option.splits)

section \<open>Effects\<close>

definition effect :: "string \<Rightarrow> int \<Rightarrow> tournament \<Rightarrow> tournament \<Rightarrow> ledger \<Rightarrow> ledger \<Rightarrow> bool" where
  "effect t d row row' l l' \<longleftrightarrow> tour t l = Some row \<and> tour t l' = Some row'
     \<and> (\<forall>t'. t' \<noteq> t \<longrightarrow> tour t' l' = tour t' l) \<and> map fst (lTours l') = map fst (lTours l)
     \<and> map fst (lUsers l') = map fst (lUsers l) \<and> (\<forall>u. audit_gap u l' = audit_gap u l)
     \<and> (\<forall>t'. tx_sum t' l' = tx_sum t' l + (if t' = t then d else 0))
     \<and> (\<forall>u p'. points u l' = Some p' \<and> p' < 0 \<longrightarrow> (\<exists>p. points u l = Some p \<and> p < 0))
     \<and> (\<forall>tx\<in>set (lTx l'). tx \<in> set (lTx l) \<or> txTournament tx = Some t)"

lemma effect_tours: "effect t d row row' l l' \<Longrightarrow> tour t l = Some row \<and> tour t l' = Some row'"
  by (simp add: effect_def)

lemma effect_users: "effect t d row row' l l' \<Longrightarrow> fst ` set (lUsers l') = fst ` set (lUsers l)"
  unfolding effect_def by (metis set_map)

lemma effect_refl: "tour t l = Some row \<Longrightarrow> effect t 0 row row l l"
  by (auto simp: effect_def)

lemma effect_trans:
  assumes "effect t d1 r1 r2 l1 l2" "effect t d2 r2 r3 l2 l3"
  shows "effect t (d1 + d2) r1 r3 l1 l3"
  using assms unfolding effect_def by (simp, metis)

lemma effect_put: "tour t l = Some row \<Longrightarrow> effect t 0 row row' l (put_tour t row' l)"
  by (auto simp: effect_def tour_put_tour audit_gap_def)

lemma effect_move:
  assumes "tour t l = Some row" "u \<in> fst ` set (lUsers l)" "0 \<le> amt \<or> (\<exists>p. points u l = Some p \<and> - amt \<le> p)"
  shows "effect t amt row row l (move_points u amt ty (Some t) l)"
  using assms unfolding effect_def
  by (auto simp: points_move_points audit_move_points split: if_splits)

section \<open>Participations\<close>

lemma find_part_SomeD: "find_part u ps = Some p \<Longrightarrow> p \<in> set ps \<and> pUser p = u"
  by (auto simp: find_part_def find_Some_iff)

lemma find_part_None: "find_part u ps = None \<longleftrightarrow> u \<notin> pUser ` set ps"
  by (auto simp: find_part_def find_None_iff)

lemma find_part_distinct: "distinct (map pUser ps) \<Longrightarrow> p \<in> set ps \<Longrightarrow> find_part (pUser p) ps = Some p"
  by (induction ps) (force simp: find_part_def)+

lemma update_part_users [simp]: "(\<And>p. pUser (f p) = pUser p) \<Longrightarrow> map pUser (update_part u f ps) = map pUser ps"
  by (simp add: update_part_def)

lemma update_part_ball:
  "(\<And>p. p \<in> set ps \<Longrightarrow> Q p) \<Longrightarrow> (\<And>p. p \<in> set ps \<Longrightarrow> pUser p = u \<Longrightarrow> Q (f p)) \<Longrightarrow> \<forall>p\<in>set (update_part u f ps). Q p"
  by (auto simp: update_part_def)

lemma update_part_sum:
  fixes g :: "participation \<Rightarrow> int"
  assumes "distinct (map pUser ps)" "find_part u ps = Some p"
  shows "sum_list (map g (update_part u f ps)) = sum_list (map g ps) + g (f p) - g p"
  using assms
proof (induction ps)
  case (Cons q qs)
  show ?case
  proof (cases "pUser q = u")
    case True
    then have "update_part u f qs = qs" using Cons.prems(1)
      unfolding update_part_def by (intro map_idI) (auto simp: image_iff)
    then show ?thesis using True Cons.prems(2) by (simp add: update_part_def find_part_def)
  next
    case False
    then have "find_part u qs = Some p" using Cons.prems(2) by (simp add: find_part_def)
    then have "sum_list (map g (update_part u f qs)) = sum_list (map g qs) + g (f p) - g p" using Cons by simp
    then show ?thesis using False by (simp add: update_part_def)
  qed
qed (simp add: find_part_def)

lemma update_part_same:
  "(\<And>p. g (f p) = g p) \<Longrightarrow> map g (update_part u f ps) = map g ps"
  by (simp add: update_part_def)

section \<open>Steps of a row\<close>

definition money_gap :: "tournament \<Rightarrow> int" where
  "money_gap row = paid_prizes row - tBuyin row"

definition row_step :: "string set \<Rightarrow> int \<Rightarrow> tournament \<Rightarrow> tournament \<Rightarrow> bool" where
  "row_step us d row row' \<longleftrightarrow> row_inv us row'
     \<and> (closed_row row' \<or> \<not> closed_row row \<and> money_gap row' = money_gap row + d)
     \<and> (\<not> closed_row row \<or> d = 0 \<and> tStatus row' = tStatus row \<and> tBuyin row' = tBuyin row
          \<and> map part_money (tParts row') = map part_money (tParts row))"

definition good :: "ledger \<Rightarrow> ledger \<Rightarrow> bool" where
  "good l l' \<longleftrightarrow> ledger_inv l' \<and> evolves l l'"

lemma ledger_inv_row: "ledger_inv l \<Longrightarrow> tour t l = Some row \<Longrightarrow> row_inv (fst ` set (lUsers l)) row"
  by (auto simp: ledger_inv_def)

lemma ledger_inv_books:
  "ledger_inv l \<Longrightarrow> tour t l = Some row \<Longrightarrow> \<not> closed_row row \<Longrightarrow> tx_sum t l = money_gap row"
  by (auto simp: ledger_inv_def money_gap_def)

lemma good_refl: "ledger_inv l \<Longrightarrow> good l l"
  by (auto simp: good_def evolves_def)

lemma effect_good:
  assumes inv: "ledger_inv l" and eff: "effect t d row row' l l'"
    and step: "row_step (fst ` set (lUsers l)) d row row'" and fits: "ledger_fits l'"
  shows "good l l'"
proof -
  have users: "fst ` set (lUsers l') = fst ` set (lUsers l)" using eff by (rule effect_users)
  have t: "tour t l = Some row" "tour t l' = Some row'" using effect_tours[OF eff] by auto
  have others: "t' \<noteq> t \<Longrightarrow> tour t' l' = tour t' l" for t' using eff by (simp add: effect_def)
  have sums: "tx_sum t' l' = tx_sum t' l + (if t' = t then d else 0)" for t' using eff by (simp add: effect_def)
  have distinct: "distinct (map fst (lUsers l'))" "distinct (map fst (lTours l'))"
    using eff inv by (auto simp: effect_def ledger_inv_def)
  have points: "0 \<le> p" if "points u l' = Some p" for u p
  proof (rule ccontr)
    assume "\<not> 0 \<le> p"
    then have "\<exists>q. points u l = Some q \<and> q < 0" using eff that unfolding effect_def by auto
    then show False using inv unfolding ledger_inv_def by force
  qed
  have rows: "row_inv (fst ` set (lUsers l')) r \<and> (\<not> closed_row r \<longrightarrow> tx_sum t' l' = paid_prizes r - tBuyin r)"
    if r: "tour t' l' = Some r" for t' r
  proof (cases "t' = t")
    case True
    then have "r = row'" using r t by simp
    then show ?thesis
      using step users sums[of t] True ledger_inv_books[OF inv t(1)] by (auto simp: row_step_def money_gap_def)
  next
    case False
    then show ?thesis using r others[OF False] sums[of t'] users inv by (auto simp: ledger_inv_def)
  qed
  have known: "tour t' l' \<noteq> None" if "tx \<in> set (lTx l')" "txTournament tx = Some t'" for tx t'
  proof (cases "t' = t")
    case False
    then have "tx \<in> set (lTx l)" using eff that unfolding effect_def by fastforce
    then show ?thesis using inv that others[OF False] unfolding ledger_inv_def by auto
  qed (simp add: t)
  have "ledger_inv l'"
    unfolding ledger_inv_def using distinct fits points rows known by blast
  moreover have "evolves l l'"
  proof -
    have "\<exists>row''. tour t' l' = Some row'' \<and> tStatus row'' = tStatus r \<and> tBuyin row'' = tBuyin r
       \<and> map part_money (tParts row'') = map part_money (tParts r) \<and> tx_sum t' l' = tx_sum t' l"
      if "tour t' l = Some r \<and> closed_row r" for t' r
      using that t step others[of t'] sums[of t'] by (cases "t' = t") (auto simp: row_step_def)
    then show ?thesis using eff users unfolding evolves_def effect_def by blast
  qed
  ultimately show ?thesis by (simp add: good_def)
qed

lemma commit_good:
  assumes "ledger_inv l" "ledger_fits l' \<Longrightarrow> good l l'"
  shows "good l (snd (commit x l l'))"
  using assms by (simp add: commit_def good_refl)

lemma put_tour_fits: "ledger_fits l \<Longrightarrow> row_fits row' \<Longrightarrow> ledger_fits (put_tour t row' l)"
  by (auto simp: ledger_fits_def put_tour_def alist_update_def list_all_iff split: if_splits)

lemma tour_fits: "ledger_fits l \<Longrightarrow> tour t l = Some row \<Longrightarrow> row_fits row"
  unfolding ledger_fits_def tour_def list_all_iff by (auto dest!: map_of_SomeD)

lemma put_tour_good:
  assumes "ledger_inv l" "tour t l = Some row" "row_step (fst ` set (lUsers l)) 0 row row'" "row_fits row'"
  shows "good l (put_tour t row' l)"
proof -
  have "ledger_fits (put_tour t row' l)" using assms put_tour_fits by (simp add: ledger_inv_def)
  then show ?thesis using effect_good[OF assms(1) effect_put[OF assms(2)] assms(3)] by simp
qed

end
