(* ===== verification/LedgerSteps.thy ===== *)
theory LedgerSteps
  imports LedgerProps
begin

text \<open>
  One lemma per operation of the ledger: from a sound ledger it leads to a sound ledger, within what
  \<open>evolves\<close> allows. Operations that move no money share \<open>same_books_step\<close>; the others give their effect.
\<close>

named_theorems good_steps \<open>operations that keep the ledger's invariant\<close>

section \<open>Operations that leave the books alone\<close>

definition same_books :: "tournament \<Rightarrow> tournament \<Rightarrow> bool" where
  "same_books row row' \<longleftrightarrow> tOwner row' = tOwner row \<and> tStarted row' = tStarted row \<and> tStatus row' = tStatus row
     \<and> tEntryFee row' = tEntryFee row \<and> tStartStack row' = tStartStack row \<and> tRakePercent row' = tRakePercent row
     \<and> tPayoutTable row' = tPayoutTable row \<and> tBuyin row' = tBuyin row
     \<and> map part_money (tParts row') = map part_money (tParts row)"

text \<open>What a participation must satisfy beside its money.\<close>

definition part_ok :: "participation \<Rightarrow> bool" where
  "part_ok p \<longleftrightarrow> 0 \<le> pStack p \<and> (isFinishedParticipant (pStatus p) \<or> pPrize p = 0)"

lemma money_sums:
  assumes "map part_money ps' = map part_money ps"
  shows "map pUser ps' = map pUser ps" "map pBuyIns ps' = map pBuyIns ps" "map pPrize ps' = map pPrize ps"
proof -
  have "map fst (map part_money ps') = map fst (map part_money ps)"
    "map (fst \<circ> snd) (map part_money ps') = map (fst \<circ> snd) (map part_money ps)"
    "map (snd \<circ> snd) (map part_money ps') = map (snd \<circ> snd) (map part_money ps)" using assms by simp_all
  then show "map pUser ps' = map pUser ps" "map pBuyIns ps' = map pBuyIns ps" "map pPrize ps' = map pPrize ps"
    by (simp_all add: comp_def part_money_def)
qed

lemma same_books_step:
  assumes inv: "row_inv us row" and same: "same_books row row'"
    and parts: "\<forall>p\<in>set (tParts row'). part_ok p"
    and tables: "closed_row row \<Longrightarrow> tTables row' = []"
  shows "row_step us 0 row row'"
proof -
  have m: "map part_money (tParts row') = map part_money (tParts row)" using same by (simp add: same_books_def)
  note sums = money_sums[OF m]
  have old: "\<exists>q\<in>set (tParts row). pUser q = pUser p \<and> pBuyIns q = pBuyIns p \<and> pPrize q = pPrize p"
    if "p \<in> set (tParts row')" for p
  proof -
    have "part_money p \<in> set (map part_money (tParts row))" using that unfolding m[symmetric] by simp
    then show ?thesis by (auto simp: part_money_def)
  qed
  have "part_inv us p" if "p \<in> set (tParts row')" for p
    using old[OF that] parts that inv by (fastforce simp: row_inv_def part_inv_def part_ok_def)
  moreover have "tStarted row' \<or> (\<forall>p\<in>set (tParts row'). pPrize p = 0)"
    using old inv same by (fastforce simp: row_inv_def same_books_def)
  moreover have "total_buy_ins row' = total_buy_ins row" by (simp add: total_buy_ins_def sums)
  ultimately have "row_inv us row'"
    using inv same tables by (auto simp: row_inv_def same_books_def sums closed_row_def split: if_splits)
  then show ?thesis
    using same by (auto simp: row_step_def same_books_def closed_row_def money_gap_def paid_prizes_def sums)
qed

lemma same_books_good:
  assumes "ledger_inv l" "tour t l = Some row" "same_books row row'" "row_fits row'"
    and "\<forall>p\<in>set (tParts row'). part_ok p"
    and "closed_row row \<Longrightarrow> tTables row' = []"
  shows "good l (put_tour t row' l)"
  using put_tour_good[OF assms(1,2) same_books_step[OF ledger_inv_row[OF assms(1,2)] assms(3,5,6)] assms(4)] .

lemma inv_parts:
  "ledger_inv l \<Longrightarrow> tour t l = Some row \<Longrightarrow> p \<in> set (tParts row)
   \<Longrightarrow> part_ok p"
  using ledger_inv_row by (fastforce simp: row_inv_def part_inv_def part_ok_def)

lemma inv_fits: "ledger_inv l \<Longrightarrow> tour t l = Some row \<Longrightarrow> row_fits row"
  by (rule tour_fits) (simp_all add: ledger_inv_def)

lemma commit_same_books:
  assumes "ledger_inv l" "tour t l = Some row" "same_books row row'"
    and "\<forall>p\<in>set (tParts row'). part_ok p"
    and "closed_row row \<Longrightarrow> tTables row' = []"
  shows "good l (snd (commit x l (put_tour t row' l)))"
proof (rule commit_good[OF assms(1)])
  assume "ledger_fits (put_tour t row' l)"
  then show "good l (put_tour t row' l)"
    using effect_good[OF assms(1) effect_put[OF assms(2)]] same_books_step[OF ledger_inv_row[OF assms(1,2)] assms(3,4,5)]
    by blast
qed

lemma closed_tables: "ledger_inv l \<Longrightarrow> tour t l = Some row \<Longrightarrow> closed_row row \<Longrightarrow> tTables row = []"
  using ledger_inv_row by (fastforce simp: row_inv_def)

lemma good_trans: "good l1 l2 \<Longrightarrow> good l2 l3 \<Longrightarrow> good l1 l3"
  unfolding good_def evolves_def by (metis closed_row_def)

lemma owned_Inr: "owned t owner l = Inr row \<longleftrightarrow> tour t l = Some row \<and> tOwner row = owner"
  by (auto simp: owned_def split: option.splits)

lemma closeRegistration_good [good_steps]: "ledger_inv l \<Longrightarrow> good l (closeRegistration t l)"
  by (auto simp: closeRegistration_def same_books_def good_refl inv_parts closed_tables row_fits_def
      split: option.splits intro!: same_books_good dest: inv_fits)

lemma createTable_good [good_steps]: "ledger_inv l \<Longrightarrow> good l (snd (createTable_tx t owner tb l))"
  by (auto simp: createTable_tx_def owned_Inr same_books_def good_refl inv_parts closed_row_def row_fits_def
      split: sum.splits intro!: same_books_good dest: inv_fits)

lemma deleteTable_good [good_steps]: "ledger_inv l \<Longrightarrow> good l (snd (deleteTable_tx t tb owner l))"
  by (auto simp: deleteTable_tx_def owned_Inr same_books_def good_refl inv_parts row_fits_def closed_tables
      split: sum.splits intro!: same_books_good dest: inv_fits)

lemma revokeDealerSession_good [good_steps]: "ledger_inv l \<Longrightarrow> good l (snd (revokeDealerSession t owner l))"
  by (auto simp: revokeDealerSession_def owned_Inr same_books_def good_refl inv_parts row_fits_def closed_tables
      split: sum.splits intro!: same_books_good dest: inv_fits)

lemma part_money_update:
  "(\<And>p. part_money (f p) = part_money p) \<Longrightarrow> map part_money (update_part u f ps) = map part_money ps"
  by (rule update_part_same)

lemma update_part_ok:
  assumes "\<forall>p\<in>set ps. part_ok p" "\<And>p. p \<in> set ps \<Longrightarrow> part_ok p \<Longrightarrow> part_ok (f p)"
  shows "\<forall>p\<in>set (update_part u f ps). part_ok p"
  using assms by (auto simp: update_part_def)

lemma row_fits_parts:
  "row_fits row \<Longrightarrow> map part_money ps = map part_money (tParts row) \<Longrightarrow> map pStack ps = map pStack (tParts row)
   \<Longrightarrow> list_all (\<lambda>p. int32 (pPrize p) \<and> int32 (pStack p) \<and> int32 (pBuyIns p)) ps"
proof -
  assume fits: "row_fits row" and m: "map part_money ps = map part_money (tParts row)"
    and st: "map pStack ps = map pStack (tParts row)"
  let ?g = "\<lambda>p. (part_money p, pStack p)"
  have "map ?g ps = zip (map part_money ps) (map pStack ps)" by (induction ps) auto
  also have "\<dots> = map ?g (tParts row)" unfolding m st by (induction "tParts row") (auto simp: zip_map_map zip_same_conv_map)
  finally have g: "map ?g ps = map ?g (tParts row)" .
  show ?thesis unfolding list_all_iff
  proof
    fix p assume "p \<in> set ps"
    then have "?g p \<in> set (map ?g (tParts row))" unfolding g[symmetric] by simp
    then show "int32 (pPrize p) \<and> int32 (pStack p) \<and> int32 (pBuyIns p)"
      using fits by (auto simp: row_fits_def list_all_iff part_money_def)
  qed
qed

lemma part_ok_updates [simp]:
  "part_ok (p\<lparr>pSeatVersion := v\<rparr>) = part_ok p" "part_ok (p\<lparr>pOtp := otp\<rparr>) = part_ok p"
  "part_ok p \<Longrightarrow> 0 \<le> n \<Longrightarrow> part_ok (p\<lparr>pStack := n\<rparr>)"
  "part_ok p \<Longrightarrow> part_ok (p\<lparr>pStatus := ELIMINATED\<rparr>)"
  "part_ok p \<Longrightarrow> \<not> isFinishedParticipant (pStatus p) \<Longrightarrow> part_ok (p\<lparr>pStatus := st\<rparr>)"
  by (auto simp: part_ok_def isFinishedParticipant_def FINISHED_PLAYER_STATUSES_def)

lemma part_money_updates [simp]:
  "part_money (p\<lparr>pSeatVersion := v\<rparr>) = part_money p" "part_money (p\<lparr>pOtp := otp\<rparr>) = part_money p"
  "part_money (p\<lparr>pStack := n\<rparr>) = part_money p" "part_money (p\<lparr>pStatus := st\<rparr>) = part_money p"
  by (simp_all add: part_money_def)

lemma not_finished [simp]: "\<not> isFinishedParticipant WAITING_PLAYER" "\<not> isFinishedParticipant PLAYING"
  "\<not> isFinishedParticipant RELEASED"
  by (simp_all add: isFinishedParticipant_def FINISHED_PLAYER_STATUSES_def)

text \<open>A row whose tables and books stay as they are.\<close>

definition keeps :: "tournament \<Rightarrow> tournament \<Rightarrow> bool" where
  "keeps row row' \<longleftrightarrow> same_books row row' \<and> tTables row' = tTables row \<and> (\<forall>p\<in>set (tParts row'). part_ok p)"

lemma keepsI:
  assumes "same_books row (row'\<lparr>tParts := tParts row\<rparr>)" "tTables row' = tTables row"
    and "map part_money (tParts row') = map part_money (tParts row)" "\<And>p. p \<in> set (tParts row') \<Longrightarrow> part_ok p"
  shows "keeps row row'"
  using assms by (simp add: keeps_def same_books_def)

lemma keeps_commit:
  assumes "ledger_inv l" "tour t l = Some row" "keeps row row'"
  shows "good l (snd (commit x l (put_tour t row' l)))"
  using assms closed_tables[OF assms(1,2)] by (intro commit_same_books[OF assms(1,2)]) (auto simp: keeps_def)

lemma keeps_good:
  assumes "ledger_inv l" "tour t l = Some row" "keeps row row'"
    and "map pStack (tParts row') = map pStack (tParts row)" "tActive row' = tActive row"
    and "tTotalPlayers row' = tTotalPlayers row"
  shows "good l (put_tour t row' l)"
proof (rule same_books_good[OF assms(1,2)])
  have "row_fits row" using assms(1,2) by (rule inv_fits)
  moreover have m: "map part_money (tParts row') = map part_money (tParts row)" "tBuyin row' = tBuyin row"
    using assms(3) by (simp_all add: keeps_def same_books_def)
  ultimately show "row_fits row'" using row_fits_parts[OF _ m(1) assms(4)] assms(5,6) m(2)
    by (simp add: row_fits_def)
qed (use assms closed_tables[OF assms(1,2)] in \<open>auto simp: keeps_def\<close>)

lemma keeps_update:
  assumes "ledger_inv l" "tour t l = Some row"
    and "\<And>p. part_money (f p) = part_money p" "\<And>p. part_ok p \<Longrightarrow> part_ok (f p)"
  shows "keeps row (row\<lparr>tSeats := seats, tActive := n, tParts := update_part u f (tParts row)\<rparr>)"
  using assms inv_parts[OF assms(1,2)]
  by (intro keepsI) (auto simp: same_books_def update_part_def)

section \<open>Seats and the dealer\<close>

lemma claimSeat_good [good_steps]:
  assumes "ledger_inv l"
  shows "good l (snd (claimSeat_tx t tb s u l))"
proof (cases "tour t l")
  case (Some row)
  let ?f = "\<lambda>p. if pStatus p \<in> {WAITING_PLAYER, RELEASED} then p\<lparr>pStatus := PLAYING\<rparr> else p"
  have "part_ok (?f p)" if "part_ok p" for p using that by auto
  then have "keeps row (row\<lparr>tSeats := seats, tActive := n, tParts := update_part u ?f (tParts row)\<rparr>)" for seats n
    by (intro keeps_update[OF assms Some]) auto
  then have sits: "good l (snd (commit x l (put_tour t
      (row\<lparr>tSeats := seats, tActive := n, tParts := update_part u ?f (tParts row)\<rparr>) l)))" for x :: unit and seats n
    by (rule keeps_commit[OF assms Some])
  have "good l (snd (commit x l (put_tour t
      (row\<lparr>tSeats := seats, tParts := update_part u ?f (tParts row)\<rparr>) l)))" for x :: unit and seats
    using sits[of x "tActive row" seats] by simp
  then show ?thesis using Some assms sits by (simp add: claimSeat_tx_def Let_def good_refl)
qed (simp add: claimSeat_tx_def good_refl assms)

lemma bump_seat_version_good [good_steps]: "ledger_inv l \<Longrightarrow> good l (bump_seat_version t u l)"
  unfolding bump_seat_version_def
  by (cases "tour t l")
     (auto simp: good_refl same_books_def update_part_def intro!: keeps_good keepsI simp: inv_parts)

lemma enterSeat_good [good_steps]:
  assumes "ledger_inv l"
  shows "good l (snd (enterSeat missing t tb s otp l))"
proof -
  have one: "good l l'" if "claimSeat_tx t tb s u l = (r, l')" for u r l'
    using claimSeat_good[OF assms, of t tb s u] that by simp
  have two: "good l (bump_seat_version t u l')" if "claimSeat_tx t tb s u l = (r, l')" for u r l'
  proof -
    have "ledger_inv l'" using one[OF that] by (simp add: good_def)
    then show ?thesis using good_trans[OF one[OF that] bump_seat_version_good] by blast
  qed
  show ?thesis
    by (auto simp: enterSeat_def Let_def good_refl assms bump_seat_version_good
        split: option.splits sum.splits prod.splits if_splits dest: one two)
qed

lemma loginDealer_good [good_steps]: "ledger_inv l \<Longrightarrow> good l (snd (loginDealer_tx t tb l))"
  unfolding loginDealer_tx_def
  by (cases "tour t l")
     (auto simp: good_refl Let_def comp_def same_books_def split: option.splits
       intro!: keeps_commit keepsI simp: inv_parts)

lemma fold_update_parts:
  assumes "\<And>u n p. (u, n) \<in> set xs \<Longrightarrow> part_money (f n p) = part_money p"
    and "\<And>u n p. (u, n) \<in> set xs \<Longrightarrow> part_ok p \<Longrightarrow> part_ok (f n p)"
  shows "map part_money (fold (\<lambda>(u, n) ps. update_part u (f n) ps) xs ps) = map part_money ps
    \<and> ((\<forall>p\<in>set ps. part_ok p) \<longrightarrow> (\<forall>p\<in>set (fold (\<lambda>(u, n) ps. update_part u (f n) ps) xs ps). part_ok p))"
  using assms
proof (induction xs arbitrary: ps)
  case (Cons x xs)
  let ?F = "\<lambda>(u, n) ps. update_part u (f n) ps"
  obtain u n where x: "x = (u, n)" by (cases x)
  let ?ps = "update_part u (f n) ps"
  have "map part_money ?ps = map part_money ps" using Cons.prems(1)[of u n] x by (intro part_money_update) simp
  moreover have "(\<forall>p\<in>set ps. part_ok p) \<longrightarrow> (\<forall>p\<in>set ?ps. part_ok p)"
    using Cons.prems(2)[of u n] x by (auto simp: update_part_def)
  moreover have "map part_money (fold ?F xs ?ps) = map part_money ?ps
      \<and> ((\<forall>p\<in>set ?ps. part_ok p) \<longrightarrow> (\<forall>p\<in>set (fold ?F xs ?ps). part_ok p))"
    using Cons.prems by (intro Cons.IH) (meson list.set_intros(2))+
  moreover have "fold ?F (x # xs) ps = fold ?F xs ?ps" by (simp add: x)
  ultimately show ?case by simp
qed simp

lemma fold_update_stacks:
  "(\<And>n p. pStack (f n p) = pStack p) \<Longrightarrow>
   map pStack (fold (\<lambda>(u, n) ps. update_part u (f n) ps) xs ps) = map pStack ps"
  by (induction xs arbitrary: ps) (auto simp: update_part_def)

lemma rotate_otps_good [good_steps]:
  assumes "ledger_inv l"
  shows "good l (rotate_otps t otps l)"
proof (cases "tour t l")
  case (Some row)
  let ?ps = "fold (\<lambda>(u, otp) ps. update_part u (\<lambda>p. p\<lparr>pOtp := otp\<rparr>) ps) otps (tParts row)"
  have "map part_money ?ps = map part_money (tParts row)
      \<and> ((\<forall>p\<in>set (tParts row). part_ok p) \<longrightarrow> (\<forall>p\<in>set ?ps. part_ok p))"
    by (rule fold_update_parts) simp_all
  then have "keeps row (row\<lparr>tParts := ?ps\<rparr>)"
    using inv_parts[OF assms Some] by (intro keepsI) (auto simp: same_books_def)
  then have "good l (put_tour t (row\<lparr>tParts := ?ps\<rparr>) l)"
    by (rule keeps_good[OF assms Some]) (simp_all add: fold_update_stacks)
  then show ?thesis using Some by (simp add: rotate_otps_def)
qed (simp add: rotate_otps_def good_refl assms)

lemma releaseSeats_tx_good [good_steps]:
  assumes "ledger_inv l"
  shows "good l (snd (releaseSeats_tx t tb seats l))"
proof (cases "tour t l")
  case (Some row)
  let ?us = "set (map snd seats)"
  let ?f = "\<lambda>p. if pUser p \<in> ?us then p\<lparr>pStatus := RELEASED, pSeatVersion := pSeatVersion p + 1\<rparr> else p"
  have "good l (put_tour t (row\<lparr>tSeats := ss, tParts := map ?f (tParts row)\<rparr>) l)"
    if playing: "list_all (\<lambda>p. pStatus p = PLAYING) (filter (\<lambda>p. pUser p \<in> ?us) (tParts row))" for ss
  proof (rule keeps_good[OF assms Some keepsI])
    have ok: "part_ok (?f q)" if "q \<in> set (tParts row)" for q
      using playing inv_parts[OF assms Some that] that by (auto simp: list_all_iff)
    fix p assume "p \<in> set (tParts (row\<lparr>tSeats := ss, tParts := map ?f (tParts row)\<rparr>))"
    then have "p \<in> ?f ` set (tParts row)" by simp
    then show "part_ok p" by (rule imageE) (simp only: ok)
  qed (auto simp: same_books_def)
  then show ?thesis using Some assms by (simp add: releaseSeats_tx_def Let_def good_refl)
qed (simp add: releaseSeats_tx_def good_refl assms)

lemma releaseSeats_good [good_steps]:
  assumes "ledger_inv l"
  shows "good l (snd (releaseSeats t tb seats owner otps l))"
proof -
  have two: "good l (rotate_otps t otps l')" if "releaseSeats_tx t tb seats l = (r, l')" for r l'
  proof -
    have one: "good l l'" using releaseSeats_tx_good[OF assms, of t tb seats] that by simp
    then show ?thesis using good_trans[OF one rotate_otps_good] by (simp add: good_def)
  qed
  show ?thesis
    by (auto simp: releaseSeats_def Let_def good_refl assms split: sum.splits prod.splits option.splits dest: two)
qed

lemma kick_good [good_steps]: "ledger_inv l \<Longrightarrow> good l (snd (kick_tx t u l))"
  unfolding kick_tx_def
  by (cases "tour t l")
     (auto simp: good_refl same_books_def update_part_def split: option.splits
       intro!: keeps_commit keepsI simp: inv_parts)

lemma dealerKick_good [good_steps]: "ledger_inv l \<Longrightarrow> good l (snd (dealerKick gate t u l))"
  by (auto simp: dealerKick_def good_refl good_steps split: option.splits ledger_error.splits)

lemma syncTableInventoryToDb_good [good_steps]:
  assumes "ledger_inv l" "list_all (\<lambda>(u, n). 0 \<le> n) ns"
  shows "good l (snd (syncTableInventoryToDb t ns l))"
proof (cases "tour t l")
  case (Some row)
  let ?ps = "fold (\<lambda>(u, n) ps. update_part u (\<lambda>p. p\<lparr>pStack := n\<rparr>) ps) ns (tParts row)"
  define row' where "row' = row\<lparr>tParts := ?ps\<rparr>"
  have "map part_money ?ps = map part_money (tParts row)
      \<and> ((\<forall>p\<in>set (tParts row). part_ok p) \<longrightarrow> (\<forall>p\<in>set ?ps. part_ok p))"
    using assms(2) by (intro fold_update_parts) (auto simp: list_all_iff)
  then have "keeps row row'"
    using inv_parts[OF assms(1) Some] by (intro keepsI) (auto simp: row'_def same_books_def)
  then have "good l (snd (commit () l (put_tour t row' l)))" by (rule keeps_commit[OF assms(1) Some])
  moreover obtain r l' where c: "commit () l (put_tour t row' l) = (r, l')" by fastforce
  moreover have "snd (syncTableInventoryToDb t ns l) \<in> {l, l'}"
    using Some c by (simp add: syncTableInventoryToDb_def row'_def[symmetric] split: sum.split)
  ultimately show ?thesis using good_refl[OF assms(1)] by auto
qed (simp add: syncTableInventoryToDb_def good_refl assms)

end
