(* ===== verification/LedgerMoney.thy ===== *)
theory LedgerMoney
  imports LedgerSteps
begin

text \<open>
  The operations that move money: their effects, and the preservation of the ledger's invariant.
\<close>

section \<open>Charging, joining, rebuying\<close>

lemma chargePoint_good [good_steps]:
  assumes inv: "ledger_inv l" and amt: "charge_ok amt"
  shows "good l (snd (chargePoint u amt l))"
proof -
  have "good l (move_points u amt CHARGE None l)"
    if u: "points u l \<noteq> None" and fits: "ledger_fits (move_points u amt CHARGE None l)"
  proof -
    let ?l = "move_points u amt CHARGE None l"
    have "0 \<le> p'" if "points v ?l = Some p'" for v p'
      using that inv amt by (force simp: points_move_points ledger_inv_def charge_ok_def split: if_splits)
    then have "ledger_inv ?l" using inv fits by (auto simp: ledger_inv_def)
    moreover have "evolves l ?l"
      using u points_known[of u l] by (auto simp: evolves_def audit_move_points)
    ultimately show ?thesis by (simp add: good_def)
  qed
  then show ?thesis
    using inv by (auto simp: chargePoint_def user_chargePoint_def good_refl split: option.splits intro!: commit_good)
qed

text \<open>A step of an open row, in a form that composes.\<close>

definition open_step :: "string set \<Rightarrow> int \<Rightarrow> tournament \<Rightarrow> tournament \<Rightarrow> bool" where
  "open_step us d row row' \<longleftrightarrow> row_inv us row' \<and> \<not> closed_row row' \<and> tStarted row' = tStarted row
     \<and> money_gap row' = money_gap row + d"

lemma open_row_step: "\<not> closed_row row \<Longrightarrow> open_step us d row row' \<Longrightarrow> row_step us d row row'"
  by (simp add: open_step_def row_step_def)

lemma effect_commit:
  assumes "ledger_inv l" "effect t d row row' l l'" "row_step (fst ` set (lUsers l)) d row row'"
  shows "good l (snd (commit x l l'))"
  using assms by (intro commit_good) (auto intro: effect_good)

lemma paymentPoint_effect:
  assumes "paymentPoint u t amt l = Inr l1" "tour t l = Some row"
  shows "effect t (- amt) row row l l1" "u \<in> fst ` set (lUsers l)"
proof -
  obtain p where p: "points u l = Some p" "amt \<le> p" "l1 = move_points u (- amt) BUY_IN (Some t) l"
    using assms(1) by (auto simp: paymentPoint_def split: option.splits if_splits)
  show u: "u \<in> fst ` set (lUsers l)" using p(1) points_known[of u l] by simp
  show "effect t (- amt) row row l l1" using p u assms(2) by (auto intro!: effect_move)
qed

lemma join_tx_effect:
  assumes inv: "ledger_inv l" and row: "tour t l = Some row" and join: "join_tx t u otp row l = Inr l'"
  obtains row' where "effect t (- tEntryFee row) row row' l l'"
    "open_step (fst ` set (lUsers l)) (- tEntryFee row) row row'" "\<not> closed_row row"
proof -
  obtain l1 where l1: "paymentPoint u t (tEntryFee row) l = Inr l1"
    using join by (auto simp: join_tx_def split: sum.splits)
  note pay = paymentPoint_effect[OF l1 row]
  have t1: "tour t l1 = Some row" using effect_tours[OF pay(1)] by simp
  define row' where "row' = row\<lparr>tParts := tParts row @ [new_participation u row otp],
    tTotalPlayers := tTotalPlayers row + 1, tBuyin := tBuyin row + tEntryFee row\<rparr>"
  have j: "find_part u (tParts row) = None" "\<not> closed_row row" "l' = put_tour t row' l1"
    using join l1 t1 by (auto simp: join_tx_def row'_def closed_row_def split: if_splits)
  have eff: "effect t (- tEntryFee row) row row' l l'"
    using effect_trans[OF pay(1) effect_put[OF t1]] j(3) by simp
  have "row_inv (fst ` set (lUsers l)) row'"
    using ledger_inv_row[OF inv row] j(1,2) pay(2) find_part_None[of u "tParts row"]
    by (auto simp: row_inv_def row'_def part_inv_def new_participation_def closed_row_def total_buy_ins_def algebra_simps)
  then have "open_step (fst ` set (lUsers l)) (- tEntryFee row) row row'"
    using j(2) by (simp add: open_step_def row'_def closed_row_def money_gap_def paid_prizes_def new_participation_def)
  then show ?thesis using that eff j(2) by blast
qed

lemma join_attempts_good:
  assumes "ledger_inv l" "tour t l = Some row"
  shows "good l (snd (join_attempts t u otps row l))"
proof (induction otps)
  case Nil
  show ?case by (simp add: good_refl assms)
next
  case (Cons otp otps)
  have "good l (snd (commit () l l'))" if "join_tx t u otp row l = Inr l'" for l'
  proof -
    note j = that
    obtain row' where e: "effect t (- tEntryFee row) row row' l l'"
      "open_step (fst ` set (lUsers l)) (- tEntryFee row) row row'" "\<not> closed_row row"
      by (rule join_tx_effect[OF assms j])
    show ?thesis by (rule effect_commit[OF assms(1) e(1) open_row_step[OF e(3,2)]])
  qed
  then show ?case using Cons by (auto simp: good_refl assms split: sum.splits join_failure.splits)
qed

lemma joinSession_good [good_steps]: "ledger_inv l \<Longrightarrow> good l (snd (joinSession gate otps t u l))"
  by (auto simp: joinSession_def good_refl good_steps join_attempts_good split: option.splits)

lemma rebuy_good [good_steps]:
  assumes inv: "ledger_inv l"
  shows "good l (rebuy_step t u l)"
proof (cases "tour t l")
  case (Some row)
  let ?us = "fst ` set (lUsers l)" and ?fee = "tEntryFee row"
  let ?f = "\<lambda>p. p\<lparr>pBuyIns := pBuyIns p + 1, pStack := pStack p + tStartStack row\<rparr>"
  define row' where "row' = row\<lparr>tBuyin := tBuyin row + ?fee, tParts := update_part u ?f (tParts row)\<rparr>"
  define l1 where "l1 = move_points u (- ?fee) REBUY (Some t) l"
  have "good l (snd (commit (tStartStack row) l (put_tour t row' l1)))"
    if p: "points u l = Some p" "?fee \<le> p" and op: "\<not> closed_row row" and q: "find_part u (tParts row) = Some q" for p q
  proof -
    have u: "u \<in> ?us" using p(1) points_known[of u l] by simp
    have move: "effect t (- ?fee) row row l l1" unfolding l1_def using p u Some by (auto intro!: effect_move)
    then have "tour t l1 = Some row" by (simp add: effect_def)
    then have eff: "effect t (- ?fee) row row' l (put_tour t row' l1)"
      using effect_trans[OF move effect_put] by simp
    note r = ledger_inv_row[OF inv Some]
    have d: "distinct (map pUser (tParts row))" using r by (simp add: row_inv_def)
    have sums: "total_buy_ins row' = total_buy_ins row + 1" "paid_prizes row' = paid_prizes row"
      using update_part_sum[OF d q, of pBuyIns ?f] update_part_sum[OF d q, of pPrize ?f]
      by (simp_all add: total_buy_ins_def paid_prizes_def row'_def)
    have "\<forall>p\<in>set (tParts row'). part_inv ?us p \<and> (tStarted row \<or> pPrize p = 0)"
      using r by (auto simp: row'_def update_part_def row_inv_def part_inv_def)
    then have "row_inv ?us row'"
      using r op sums(1) by (auto simp: row_inv_def row'_def closed_row_def algebra_simps)
    then have "open_step ?us (- ?fee) row row'"
      using op sums(2) by (simp add: open_step_def money_gap_def closed_row_def row'_def)
    then show ?thesis by (rule effect_commit[OF inv eff open_row_step[OF op]])
  qed
  then show ?thesis using Some inv
    by (auto simp: rebuy_step_def executeRebuyTransaction_def Let_def l1_def row'_def closed_row_def good_refl
        split: option.splits)
qed (simp add: rebuy_step_def good_refl inv)

section \<open>Prizes\<close>

lemma award_one_effect:
  assumes row: "tour t l = Some row" and inv: "row_inv (fst ` set (lUsers l)) row"
    and op: "\<not> closed_row row" "tStarted row" and amt: "0 \<le> amt"
  shows "\<exists>row' d. effect t d row row' l (award_one t (u, k, amt) l) \<and> open_step (fst ` set (lUsers l)) d row row'"
proof (cases "\<exists>p. find_part u (tParts row) = Some p \<and> \<not> isFinishedParticipant (pStatus p)")
  case False
  then have "award_one t (u, k, amt) l = l" using row by (auto simp: award_one_def split: option.splits)
  moreover have "open_step (fst ` set (lUsers l)) 0 row row" using inv op by (simp add: open_step_def)
  ultimately show ?thesis using effect_refl[OF row] by metis
next
  case True
  let ?us = "fst ` set (lUsers l)"
  obtain p where p: "find_part u (tParts row) = Some p" "\<not> isFinishedParticipant (pStatus p)" using True by blast
  let ?f = "\<lambda>p. p\<lparr>pPlace := Some k, pStatus := (if amt > 0 then AWARDED else ELIMINATED), pPrize := amt\<rparr>"
  define row' where "row' = row\<lparr>tParts := update_part u ?f (tParts row)\<rparr>"
  have d: "distinct (map pUser (tParts row))" using inv by (simp add: row_inv_def)
  have pp: "p \<in> set (tParts row)" "pUser p = u" using find_part_SomeD[OF p(1)] by auto
  then have "part_inv ?us p" using inv by (simp add: row_inv_def)
  then have p0: "pPrize p = 0" and u: "u \<in> ?us" using p(2) pp by (auto simp: part_inv_def)
  have sums: "total_buy_ins row' = total_buy_ins row" "paid_prizes row' = paid_prizes row + amt"
    using update_part_sum[OF d p(1), of pBuyIns ?f] update_part_sum[OF d p(1), of pPrize ?f] p0
    by (simp_all add: total_buy_ins_def paid_prizes_def row'_def)
  have "\<forall>p\<in>set (tParts row'). part_inv ?us p"
    using inv amt by (auto simp: row'_def update_part_def row_inv_def part_inv_def isFinishedParticipant_def
        FINISHED_PLAYER_STATUSES_def)
  then have "row_inv ?us row'"
    using inv op sums(1) by (auto simp: row_inv_def row'_def closed_row_def)
  then have step: "open_step ?us amt row row'"
    using op sums(2) by (simp add: open_step_def row'_def closed_row_def money_gap_def)
  have put: "effect t 0 row row' l (put_tour t row' l)" by (rule effect_put[OF row])
  have "effect t amt row row' l (award_one t (u, k, amt) l)"
  proof (cases "amt = 0")
    case True
    then show ?thesis using put row p by (simp add: award_one_def row'_def Let_def)
  next
    case False
    have "effect t amt row' row' (put_tour t row' l) (move_points u amt PRIZE (Some t) (put_tour t row' l))"
      using u amt row by (intro effect_move) (auto simp: tour_put_tour)
    then have "effect t amt row row' l (move_points u amt PRIZE (Some t) (put_tour t row' l))"
      using effect_trans[OF put] by simp
    then show ?thesis using row p False amt by (simp add: award_one_def row'_def Let_def)
  qed
  then show ?thesis using step by blast
qed

lemma open_step_trans: "open_step us d1 r1 r2 \<Longrightarrow> open_step us d2 r2 r3 \<Longrightarrow> open_step us (d1 + d2) r1 r3"
  by (simp add: open_step_def)

lemma awardPrize_effect:
  assumes "tour t l = Some row" "row_inv (fst ` set (lUsers l)) row" "\<not> closed_row row" "tStarted row"
    and "\<forall>(u, k, amt)\<in>set awards. 0 \<le> amt"
  shows "\<exists>row' d. effect t d row row' l (awardPrize t awards l) \<and> open_step (fst ` set (lUsers l)) d row row'"
  using assms
proof (induction awards arbitrary: l row)
  case Nil
  then show ?case using effect_refl by (fastforce simp: awardPrize_def open_step_def)
next
  case (Cons a awards)
  obtain u k amt where a: "a = (u, k, amt)" by (cases a)
  then have "0 \<le> amt" using Cons.prems(5) by simp
  then obtain row1 d1 where e1: "effect t d1 row row1 l (award_one t a l)"
    "open_step (fst ` set (lUsers l)) d1 row row1"
    unfolding a using award_one_effect[OF Cons.prems(1-4)] by blast
  note u1 = effect_users[OF e1(1)]
  obtain row2 d2 where e2: "effect t d2 row1 row2 (award_one t a l) (awardPrize t awards (award_one t a l))"
    "open_step (fst ` set (lUsers l)) d2 row1 row2"
  proof -
    have i: "row_inv (fst ` set (lUsers (award_one t a l))) row1" and c: "\<not> closed_row row1" "tStarted row1"
      using e1(2) Cons.prems(4) unfolding u1 by (simp_all add: open_step_def)
    have t1: "tour t (award_one t a l) = Some row1" using effect_tours[OF e1(1)] by simp
    have "\<forall>(u, k, amt)\<in>set awards. 0 \<le> amt" using Cons.prems(5) by simp
    from Cons.IH[OF t1 i c this] show ?thesis unfolding u1 using that by blast
  qed
  have "awardPrize t (a # awards) l = awardPrize t awards (award_one t a l)" by (simp add: awardPrize_def)
  then show ?case using effect_trans[OF e1(1) e2(1)] open_step_trans[OF e1(2) e2(2)] by metis
qed

lemma award_commit_good:
  assumes inv: "ledger_inv l" and row: "tour t l = Some row" and row1: "effect t 0 row row1 l l1"
    and step: "open_step (fst ` set (lUsers l)) 0 row row1"
    and op: "\<not> closed_row row" "tStarted row" and amts: "\<forall>(u, k, amt)\<in>set awards. 0 \<le> amt"
  shows "good l (snd (commit x l (awardPrize t awards l1)))"
proof -
  have t1: "tour t l1 = Some row1" using effect_tours[OF row1] by simp
  have u: "fst ` set (lUsers l1) = fst ` set (lUsers l)" using effect_users[OF row1] .
  have i: "row_inv (fst ` set (lUsers l1)) row1" and c: "\<not> closed_row row1" "tStarted row1"
    using step op(2) unfolding u by (simp_all add: open_step_def)
  obtain row2 d where e: "effect t d row1 row2 l1 (awardPrize t awards l1)"
    "open_step (fst ` set (lUsers l)) d row1 row2"
    using awardPrize_effect[OF t1 i c amts] unfolding u by blast
  have whole: "effect t d row row2 l (awardPrize t awards l1)" using effect_trans[OF row1 e(1)] by simp
  have "open_step (fst ` set (lUsers l)) d row row2" using open_step_trans[OF step e(2)] by simp
  from effect_commit[OF inv whole open_row_step[OF op(1) this]] show ?thesis .
qed

text \<open>The amounts are not negative.\<close>

lemma rank_groups_nonneg:
  assumes "sound_prizes pool ps" "int (length bs) < max_safe" "a \<in> set (rank_groups pool (JArray ps) k bs)"
  shows "0 \<le> awardAmount a"
  using assms(2,3)
proof (induction "length bs" arbitrary: bs k rule: less_induct)
  case (less xs)
  show ?case
  proof (cases xs)
    case Nil
    then show ?thesis using less.prems by simp
  next
    case (Cons b bs)
    let ?same = "\<lambda>x. handStartStack x = handStartStack b"
    define grp where "grp = b # takeWhile ?same bs"
    define tot where "tot = interval_total pool (JArray ps) k (length grp)"
    have len: "length xs = length grp + length (dropWhile ?same bs)"
      unfolding Cons grp_def by (simp flip: length_append)
    have n: "0 < int (length grp)" by (simp add: grp_def)
    have "js_floor_div tot (int (length grp)) = tot div int (length grp)"
      unfolding tot_def using n len less.prems by (intro group_share[OF assms(1)]) auto
    moreover have "0 \<le> tot" using interval_total_bounds(1)[OF assms(1)] by (simp add: tot_def)
    ultimately have each: "0 \<le> js_floor_div tot (int (length grp))" using n by (simp add: pos_imp_zdiv_nonneg_iff)
    have "a \<in> set (share_group k (js_floor_div tot (int (length grp)))
          (tot - js_floor_div tot (int (length grp)) * int (length grp)) grp)
        \<or> a \<in> set (rank_groups pool (JArray ps) (k + int (length grp)) (dropWhile ?same bs))"
      using less.prems(2) unfolding Cons rank_groups.simps Let_def grp_def[symmetric] tot_def[symmetric] by simp
    then show ?thesis
    proof
      assume "a \<in> set (share_group k (js_floor_div tot (int (length grp)))
          (tot - js_floor_div tot (int (length grp)) * int (length grp)) grp)"
      from share_group_amounts[OF this] each show ?thesis by auto
    next
      assume "a \<in> set (rank_groups pool (JArray ps) (k + int (length grp)) (dropWhile ?same bs))"
      then show ?thesis using len n less.prems(1) by (intro less.hyps) auto
    qed
  qed
qed

lemma choose_tier_in: "choose_tier n c ts \<in> set (c # ts)"
  by (induction n c ts rule: choose_tier.induct) auto

lemma int32_safe: "int32 x \<Longrightarrow> x * 100 < max_safe"
  by (simp add: int32_def max_safe_def)

lemma rake_bounds:
  assumes "0 \<le> b" "int32 b" "0 \<le> r" "r \<le> 100"
  shows "0 \<le> rakeOf b r" "rakeOf b r \<le> b"
proof -
  have "b * r \<le> b * 100" using assms by (intro mult_left_mono) auto
  then have "b * r < max_safe" using int32_safe[OF assms(2)] by linarith
  then have "js_floor_div (b * r) 100 = b * r div 100"
    using assms by (intro js_floor_div_exact) (auto simp: max_safe_def)
  moreover have "b * r div 100 \<le> b" using \<open>b * r \<le> b * 100\<close> by linarith
  moreover have "0 \<le> b * r div 100" using assms by (simp add: pos_imp_zdiv_nonneg_iff)
  ultimately show "0 \<le> rakeOf b r" "rakeOf b r \<le> b" using assms(1) by (auto simp: rakeOf_def)
qed

lemma payouts_sound:
  assumes "row_inv us row" "row_fits row"
  obtains ps where "payouts_now row = JArray ps" "sound_prizes (pool_now row) ps"
proof -
  obtain ts where ts: "tPayoutTable row = JArray ts" "parsePayoutTable (JArray ts) = Inr ts"
    using assms(1) by (auto simp: row_inv_def canonical_table_def split: json.splits)
  obtain u us' where us: "ts = u # us'" "\<forall>u\<in>set ts. \<exists>ps. parsePayouts ps = Inr (payouts u)"
    by (rule parsePayoutTable_Inr[OF ts(2)])
  define c where "c = choose_tier (entryCountOf (tBuyin row) (tEntryFee row)) u ts"
  have "c \<in> set ts" using choose_tier_in[of _ u ts] us(1) by (auto simp: c_def)
  then obtain qs where "parsePayouts qs = Inr (payouts c)" using us(2) by blast
  moreover have "0 \<le> tBuyin row" "int32 (tBuyin row)" "0 \<le> tRakePercent row" "tRakePercent row \<le> 100"
    using assms by (auto simp: row_inv_def row_fits_def)
  then have "0 \<le> pool_now row" "pool_now row * 100 < max_safe"
    using rake_bounds[of "tBuyin row" "tRakePercent row"] int32_safe[of "tBuyin row"]
    by (auto simp: pool_now_def prizePoolOf_def)
  ultimately have "sound_prizes (pool_now row) (payouts c)" by (rule sound_prizes_parsed)
  moreover have "payouts_now row = JArray (payouts c)"
    by (simp add: payouts_now_def payoutsForRaw_def payoutsFor_def ts(1) us(1) c_def del: choose_tier.simps)
  ultimately show ?thesis using that by blast
qed

end
