(* ===== verification/LedgerClose.thy ===== *)
theory LedgerClose
  imports LedgerMoney
begin

text \<open>
  The end of a hand for the ledger (eliminations and the winner's prize), the four ways a tournament closes,
  and the operations that create, change and start one; with \<open>ledger_step_good\<close>, the lemma for every event.
\<close>

section \<open>Eliminations and the winner\<close>

lemma eliminatePlayer_tx_good:
  assumes inv: "ledger_inv l" and hand: "hand_ended t tb ps l"
  shows "good l (snd (eliminatePlayer_tx t tb ps l))"
proof -
  obtain row where row: "tour t l = Some row" "tStarted row" "length ps \<le> 9"
    using hand by (auto simp: hand_ended_def split: option.splits)
  let ?us = "fst ` set (lUsers l)"
  define seats where "seats = filter (\<lambda>(tb', s, u). \<not> (tb' = tb \<and> u \<in> set (map bsUser ps))) (tSeats row)"
  define pending where "pending = filter (\<lambda>p. case find_part (bsUser p) (tParts row) of
      None \<Rightarrow> False | Some q \<Rightarrow> \<not> isFinishedParticipant (pStatus q)) ps"
  define busted where "busted = map (\<lambda>p. \<lparr>bustedId = bsUser p, bustedSeat = bsSeat p,
      handStartStack = bsStack p + bsContributed p\<rparr>) pending"
  define n where "n = int (length busted)"
  define row1 where "row1 = row\<lparr>tSeats := seats, tActive := tActive row - n\<rparr>"
  define awards where "awards = splitBustedRanks busted (tActive row1 + n) (pool_now row1) (payouts_now row1)"
  have r: "row_inv ?us row" and f: "row_fits row" using ledger_inv_row[OF inv row(1)] inv_fits[OF inv row(1)] .
  have same: "pool_now row1 = pool_now row" "payouts_now row1 = payouts_now row"
    by (simp_all add: row1_def pool_now_def payouts_now_def)
  obtain pays where pays: "payouts_now row = JArray pays" "sound_prizes (pool_now row) pays"
    by (rule payouts_sound[OF r f])
  have "length busted \<le> 9" using row(3) unfolding busted_def pending_def length_map
    by (meson le_trans length_filter_le)
  then have small: "int (length (busted_order busted)) < max_safe"
    using mset_eq_length[OF busted_order_mset[of busted]] by (simp add: max_safe_def)
  have nonneg: "\<forall>(u, k, amt)\<in>set (map (\<lambda>a. (awardUser a, awardPlace a, awardAmount a)) awards). 0 \<le> amt"
    using rank_groups_nonneg[OF pays(2) small]
    by (auto simp: awards_def splitBustedRanks_def Let_def same pays(1))
  have awards_good: "good l (snd (commit x l
      (awardPrize t (map (\<lambda>a. (awardUser a, awardPlace a, awardAmount a)) awards) (put_tour t row1 l))))"
    if op: "\<not> closed_row row" for x :: "int \<times> int"
  proof (rule award_commit_good[OF inv row(1) effect_put[OF row(1)] _ op row(2) nonneg])
    show "open_step ?us 0 row row1"
      using r op by (simp add: open_step_def row_inv_def row1_def closed_row_def money_gap_def paid_prizes_def total_buy_ins_def)
  qed
  have seats_good: "good l (put_tour t (row\<lparr>tSeats := seats\<rparr>) l)"
    by (rule keeps_good[OF inv row(1)]) (auto simp: keeps_def same_books_def inv_parts[OF inv row(1)])
  show ?thesis
    using seats_good awards_good good_refl[OF inv]
    unfolding eliminatePlayer_tx_def row(1) Let_def option.case
      pending_def[symmetric] busted_def[symmetric] seats_def[symmetric] n_def[symmetric] row1_def[symmetric]
      awards_def[symmetric]
    by (simp add: closed_row_def)
qed

lemma tournamentFinished_good:
  assumes inv: "ledger_inv l" and row: "tour t l = Some row" and op: "\<not> closed_row row" "tStarted row"
  shows "good l (snd (tournamentFinished t l))"
proof -
  let ?us = "fst ` set (lUsers l)"
  define row1 where "row1 = row\<lparr>tRegOpen := False\<rparr>"
  have r: "row_inv ?us row" and f: "row_fits row" using ledger_inv_row[OF inv row] inv_fits[OF inv row] .
  obtain pays where pays: "payouts_now row = JArray pays" "sound_prizes (pool_now row) pays"
    by (rule payouts_sound[OF r f])
  have step: "open_step ?us 0 row row1"
    using r op by (simp add: open_step_def row_inv_def row1_def closed_row_def money_gap_def paid_prizes_def total_buy_ins_def)
  have "good l (snd (commit () l (awardPrize t [(u, 1, prizeFor (pool_now row) (payouts_now row) 1)] (put_tour t row1 l))))" for u
    using prizeFor_nonneg[OF pays(2)] pays(1)
    by (intro award_commit_good[OF inv row effect_put[OF row] step op]) simp
  then show ?thesis
    using row good_refl[OF inv] by (auto simp: tournamentFinished_def row1_def split: option.splits)
qed

lemma awardPrize_status:
  "map_option (\<lambda>r. (tStatus r, tStarted r)) (tour t (awardPrize t awards l))
   = map_option (\<lambda>r. (tStatus r, tStarted r)) (tour t l)"
proof (induction awards arbitrary: l)
  case (Cons a awards)
  have "map_option (\<lambda>r. (tStatus r, tStarted r)) (tour t (award_one t a l))
      = map_option (\<lambda>r. (tStatus r, tStarted r)) (tour t l)"
    by (cases a) (auto simp: award_one_def tour_put_tour Let_def split: option.splits)
  then show ?case using Cons[of "award_one t a l"] by (simp add: awardPrize_def)
qed (simp add: awardPrize_def)

lemma put_tour_status:
  "tour t l = Some row \<Longrightarrow> map_option g (tour t (put_tour t row' l)) = Some (g row')"
  by (simp add: tour_put_tour)

lemma eliminatePlayer_tx_shape:
  assumes row: "tour t l = Some row" and tx: "eliminatePlayer_tx t tb ps l = (Inr v, l')"
  obtains seats where "l' = put_tour t (row\<lparr>tSeats := seats\<rparr>) l"
  | ws seats n where "l' = awardPrize t ws (put_tour t (row\<lparr>tSeats := seats, tActive := n\<rparr>) l)"
proof -
  have c: "commit x l l'' = (Inr v, l') \<Longrightarrow> l' = l''" for x :: "int \<times> int" and l''
    by (simp add: commit_def split: if_splits)
  show ?thesis
    using tx row that unfolding eliminatePlayer_tx_def row option.case Let_def
    by (auto dest!: c simp del: split_paired_Ex split: if_split_asm)
qed

lemma eliminatePlayer_tx_status:
  assumes row: "tour t l = Some row" and tx: "eliminatePlayer_tx t tb ps l = (Inr v, l')"
  shows "map_option (\<lambda>r. (tStatus r, tStarted r)) (tour t l') = Some (tStatus row, tStarted row)"
  by (rule eliminatePlayer_tx_shape[OF row tx])
    (simp_all add: awardPrize_status put_tour_status[OF row])

lemma eliminatePlayer_good [good_steps]:
  assumes inv: "ledger_inv l" and hand: "hand_ended t tb ps l"
  shows "good l (snd (eliminatePlayer t tb ps l))"
proof -
  obtain row where row: "tour t l = Some row" "tStarted row" "tb \<in> set (tTables row)"
    using hand by (auto simp: hand_ended_def split: option.splits)
  then have op: "\<not> closed_row row" using closed_tables[OF inv row(1)] by auto
  obtain r l' where tx: "eliminatePlayer_tx t tb ps l = (r, l')" by fastforce
  have g: "good l l'" using eliminatePlayer_tx_good[OF inv hand] tx by simp
  have "\<exists>row'. tour t l' = Some row' \<and> \<not> closed_row row' \<and> tStarted row'" if "r = Inr v" for v
  proof -
    have "map_option (\<lambda>r. (tStatus r, tStarted r)) (tour t l') = Some (tStatus row, tStarted row)"
      using eliminatePlayer_tx_status[OF row(1)] tx that by simp
    then show ?thesis using op row(2) by (auto simp: closed_row_def)
  qed
  then have fin: "good l (snd (tournamentFinished t l'))" if "r = Inr v" for v
    using that g good_trans[OF g tournamentFinished_good] by (fastforce simp: good_def)
  show ?thesis using tx g good_refl[OF inv] fin
    by (auto simp: eliminatePlayer_def split: sum.splits prod.splits)
qed

section \<open>Closing\<close>

lemma js_floor_div_nonneg: "0 \<le> a \<Longrightarrow> 0 < b \<Longrightarrow> 0 \<le> js_floor_div a b"
proof -
  assume ab: "0 \<le> a" "0 < b"
  have "0 \<le> round_half_even (a * 2 ^ js_scale a b) b" using ab by (intro round_half_even_ge) simp_all
  then show ?thesis using ab by (auto simp: js_floor_div_def js_mantissa_def pos_imp_zdiv_nonneg_iff)
qed

lemma bump_nonneg: "\<forall>x\<in>set xs. (0::int) \<le> x \<Longrightarrow> \<forall>x\<in>set (bump r idx xs). 0 \<le> x"
proof (induction r idx xs rule: bump.induct)
  case (2 r i idx xs)
  have "\<forall>x\<in>set (xs[i := xs ! i + 1]). 0 \<le> x"
  proof
    fix x assume "x \<in> set (xs[i := xs ! i + 1])"
    then show "0 \<le> x"
      using 2(2) set_update_subset_insert[of xs i "xs ! i + 1"] nth_mem[of i xs]
      by (cases "i < length xs") (auto simp: list_update_beyond)
  qed
  then show ?case using 2 by simp
qed simp

lemma split_nonneg:
  assumes "\<forall>w\<in>set ws. 0 \<le> weight w"
  shows "\<forall>r\<in>set (splitByRatio amt ws). 0 \<le> refundAmount r"
proof (cases "sum_list (map weight ws) \<le> 0 \<or> amt \<le> 0")
  case False
  then have "\<forall>x\<in>set (map (\<lambda>w. js_floor_div (amt * weight w) (sum_list (map weight ws))) ws). 0 \<le> x"
    using assms by (auto intro!: js_floor_div_nonneg)
  from bump_nonneg[OF this] show ?thesis using False
    by (auto simp: splitByRatio_def Let_def dest!: set_zip_rightD)
qed (auto simp: splitByRatio_def)

lemma refund_lookup_nonneg:
  assumes "\<forall>r\<in>set rs. 0 \<le> refundAmount r"
  shows "0 \<le> refund_lookup rs u"
proof (cases "map_of (rev (map (\<lambda>r. (refundUser r, refundAmount r)) rs)) u")
  case (Some a)
  from map_of_SomeD[OF this] show ?thesis using assms Some by (auto simp: refund_lookup_def)
qed (simp add: refund_lookup_def)

lemma chop_nonneg:
  assumes "\<forall>p\<in>set ps. 0 \<le> currentStack p" "a \<in> set (calculateChop ps prize)"
  shows "0 \<le> chopAmount a"
proof -
  let ?ws = "map (\<lambda>p. \<lparr>rwUser = cpUser p, weight = currentStack p\<rparr>) (sort_key (\<lambda>p. - currentStack p) ps)"
  have "\<forall>r\<in>set (splitByRatio prize ?ws). 0 \<le> refundAmount r" using assms(1) by (intro split_nonneg) auto
  from refund_lookup_nonneg[OF this] show ?thesis
    using assms(2) by (auto simp: calculateChop_def Let_def dest!: set_zip_leftD)
qed

lemma abort_refunds:
  "map refundUser (refunds (calculateAbortSettlement ps fee buyin)) = map spUser ps"
  "\<forall>r\<in>set (refunds (calculateAbortSettlement ps fee buyin)). 0 \<le> refundAmount r"
proof -
  have c: "\<forall>w\<in>set (map (abort_claim fee) ps). 0 \<le> weight w" by (simp add: abort_claim_def Let_def)
  show "map refundUser (refunds (calculateAbortSettlement ps fee buyin)) = map spUser ps"
    by (simp add: calculateAbortSettlement_def Let_def split_users comp_def abort_claim_def)
  show "\<forall>r\<in>set (refunds (calculateAbortSettlement ps fee buyin)). 0 \<le> refundAmount r"
    using c split_nonneg[OF c] by (auto simp: calculateAbortSettlement_def Let_def)
qed

lemma close_row_step:
  assumes "row_inv us row" "\<not> closed_row row" "isClosedTournament s" "0 \<le> b"
  shows "row_step us d row (close_row s (row\<lparr>tBuyin := b, tActive := a\<rparr>))"
  using assms by (simp add: row_step_def row_inv_def close_row_def closed_row_def)

lemma pay_refunds_effect:
  assumes "tour t l = Some row" "\<forall>r\<in>set rs. refundUser r \<in> fst ` set (lUsers l) \<and> 0 \<le> refundAmount r"
  shows "effect t (sum_list (map refundAmount rs)) row row l (pay_refunds t rs l)"
  using assms
proof (induction rs arbitrary: l)
  case Nil
  then show ?case by (simp add: pay_refunds_def effect_refl)
next
  case (Cons r rs)
  define l1 where "l1 = (if refundAmount r \<le> 0 then l else move_points (refundUser r) (refundAmount r) REFUND (Some t) l)"
  have e1: "effect t (refundAmount r) row row l l1"
  proof (cases "refundAmount r \<le> 0")
    case True
    then have "refundAmount r = 0" using Cons.prems(2) by simp
    then show ?thesis using effect_refl[OF Cons.prems(1)] by (simp add: l1_def)
  next
    case False
    have "effect t (refundAmount r) row row l (move_points (refundUser r) (refundAmount r) REFUND (Some t) l)"
      by (rule effect_move[OF Cons.prems(1)]) (use Cons.prems(2) in simp_all)
    then show ?thesis using False by (simp only: l1_def if_False)
  qed
  have "effect t (sum_list (map refundAmount rs)) row row l1 (pay_refunds t rs l1)"
    using Cons.prems effect_tours[OF e1] effect_users[OF e1] by (intro Cons.IH) auto
  moreover have "pay_refunds t (r # rs) l = pay_refunds t rs l1" by (simp add: pay_refunds_def l1_def)
  ultimately show ?case using effect_trans[OF e1] by simp
qed

text \<open>What a closing adds to the transactions of its tournament.\<close>

lemma completeSession_effect:
  assumes inv: "ledger_inv l" and ok: "completeSession t owner l = (Inr (), l')"
  obtains row row' where "tour t l = Some row" "\<not> closed_row row" "tStatus row' = FINISHED"
    "effect t (rakeOf (tBuyin row) (tRakePercent row)) row row' l l'"
    "paid_prizes row + rakeOf (tBuyin row) (tRakePercent row) = tBuyin row"
    "row_step (fst ` set (lUsers l)) (rakeOf (tBuyin row) (tRakePercent row)) row row'" "ledger_fits l'"
proof -
  obtain row where row: "owned t owner l = Inr row" "\<not> closed_row row"
    using ok by (auto simp: completeSession_def closed_row_def split: sum.splits if_splits)
  then have t: "tour t l = Some row" by (simp add: owned_Inr)
  let ?us = "fst ` set (lUsers l)" and ?rake = "rakeOf (tBuyin row) (tRakePercent row)"
  define row' where "row' = close_row FINISHED row"
  note r = ledger_inv_row[OF inv t]
  have rake: "0 \<le> ?rake"
    using r inv_fits[OF inv t] by (intro rake_bounds) (auto simp: row_inv_def row_fits_def)
  define l2 where "l2 = (if ?rake > 0 then move_points (tOwner row) ?rake SETTLEMENT (Some t) (put_tour t row' l)
    else put_tour t row' l)"
  have c: "completeBlocker (tBuyin row) (paid_prizes row) ?rake = None" "commit () l l2 = (Inr (), l')"
    using ok row unfolding completeSession_def row(1) sum.case Let_def row'_def[symmetric] l2_def[symmetric]
    by (auto simp: closed_row_def split: option.splits)
  then have l': "l' = l2" "ledger_fits l'" by (auto simp: commit_def split: if_splits)
  have paid: "paid_prizes row + ?rake = tBuyin row" using c(1) by (auto simp: completeBlocker_def Let_def split: if_splits)
  have put: "effect t 0 row row' l (put_tour t row' l)" by (rule effect_put[OF t])
  have "effect t ?rake row row' l l2"
  proof (cases "?rake > 0")
    case True
    have "effect t ?rake row' row' (put_tour t row' l) (move_points (tOwner row) ?rake SETTLEMENT (Some t) (put_tour t row' l))"
      using r t True by (intro effect_move) (auto simp: tour_put_tour row_inv_def)
    from effect_trans[OF put this] show ?thesis using True by (simp add: l2_def)
  next
    case False
    then show ?thesis using put rake by (simp add: l2_def)
  qed
  moreover have "0 \<le> tBuyin row" using r by (simp add: row_inv_def)
  then have "row_step ?us ?rake row row'"
    using close_row_step[OF r row(2), of FINISHED "tBuyin row" ?rake "tActive row"]
    by (simp add: row'_def isClosedTournament_def)
  moreover have "tStatus row' = FINISHED" by (simp add: row'_def close_row_def)
  ultimately show ?thesis using that t row(2) paid l' by blast
qed

lemma completeSession_good [good_steps]:
  assumes inv: "ledger_inv l"
  shows "good l (snd (completeSession t owner l))"
proof (cases "\<exists>l'. completeSession t owner l = (Inr (), l')")
  case True
  then obtain l' where ok: "completeSession t owner l = (Inr (), l')" by blast
  obtain row row' where e: "effect t (rakeOf (tBuyin row) (tRakePercent row)) row row' l l'"
    "row_step (fst ` set (lUsers l)) (rakeOf (tBuyin row) (tRakePercent row)) row row'" "ledger_fits l'"
    by (rule completeSession_effect[OF inv ok])
  from effect_good[OF inv e] show ?thesis using ok by simp
next
  case False
  then have "snd (completeSession t owner l) = l"
    by (auto simp: completeSession_def Let_def commit_def split: sum.splits option.splits if_splits)
  then show ?thesis using good_refl[OF inv] by simp
qed

lemma chop_tx_good:
  assumes inv: "ledger_inv l" and row: "tour t l = Some row" and op: "\<not> closed_row row" "tStarted row"
  shows "good l (snd (commit () l (chop_tx t row l)))"
proof -
  let ?us = "fst ` set (lUsers l)"
  note r = ledger_inv_row[OF inv row]
  have "\<forall>p\<in>set (alive_view row). 0 \<le> currentStack p"
    using r by (auto simp: alive_view_def row_inv_def part_inv_def)
  then have "\<forall>(u, k, amt)\<in>set (map (\<lambda>a. (chopUser a, chopPlace a, chopAmount a))
      (calculateChop (alive_view row) (max 0 (pool_now row - paid_prizes row)))). 0 \<le> amt"
    using chop_nonneg by auto
  moreover have "open_step ?us 0 row row" using r op by (simp add: open_step_def)
  ultimately show ?thesis
    unfolding chop_tx_def by (intro award_commit_good[OF inv row effect_refl[OF row] _ op])
qed

lemma chopSession_good [good_steps]:
  assumes inv: "ledger_inv l"
  shows "good l (snd (chopSession gate waiting t owner l))"
proof (cases "owned t owner l")
  case (Inr row)
  then have t: "tour t l = Some row" by (simp add: owned_Inr)
  have tx: "good l l1" if "commit () l (chop_tx t row l) = (r, l1)" "\<not> closed_row row" "tStarted row" for r l1
    using chop_tx_good[OF inv t that(2,3)] that(1) by simp
  have "good l (snd (completeSession t owner l1))"
    if "commit () l (chop_tx t row l) = (r, l1)" "\<not> closed_row row" "tStarted row" for r l1
    using good_trans[OF tx[OF that] completeSession_good] tx[OF that] by (simp add: good_def)
  then show ?thesis using Inr good_refl[OF inv]
    by (auto simp: chopSession_def chopBlocker_def closed_row_def split: sum.splits prod.splits option.splits if_splits)
qed (simp add: chopSession_def good_refl inv)

lemma abortSession_effect:
  assumes inv: "ledger_inv l" and ok: "abortSession t owner l = (Inr s, l')"
  obtains row row' where "tour t l = Some row" "\<not> closed_row row" "tStatus row' = CANCELLED"
    "s = calculateAbortSettlement (settlement_view row) (tEntryFee row) (tBuyin row)"
    "effect t (sum_list (map refundAmount (refunds s)) + max 0 (storeAmount s)) row row' l l'"
    "row_step (fst ` set (lUsers l)) (sum_list (map refundAmount (refunds s)) + max 0 (storeAmount s)) row row'"
    "ledger_fits l'"
proof -
  obtain row where row: "owned t owner l = Inr row" "\<not> closed_row row" "tStarted row"
    using ok by (auto simp: abortSession_def closed_row_def split: sum.splits if_splits)
  then have t: "tour t l = Some row" by (simp add: owned_Inr)
  let ?us = "fst ` set (lUsers l)"
  define s' where "s' = calculateAbortSettlement (settlement_view row) (tEntryFee row) (tBuyin row)"
  define row' where "row' = close_row CANCELLED (row\<lparr>tBuyin := 0, tActive := 0\<rparr>)"
  define l1 where "l1 = put_tour t row' l"
  define l2 where "l2 = pay_refunds t (refunds s') l1"
  define l3 where "l3 = (if storeAmount s' > 0
      then move_points (tOwner row) (storeAmount s') SETTLEMENT (Some t) l2 else l2)"
  have c: "commit s' l l3 = (Inr s, l')"
    using ok row unfolding abortSession_def row(1) sum.case Let_def s'_def[symmetric] row'_def[symmetric]
      l1_def[symmetric] l2_def[symmetric] l3_def[symmetric] by (simp add: closed_row_def)
  then have l': "l' = l3" "s = s'" "ledger_fits l'" by (auto simp: commit_def split: if_splits)
  note r = ledger_inv_row[OF inv t]
  have e1: "effect t 0 row row' l l1" unfolding l1_def by (rule effect_put[OF t])
  have users: "fst ` set (lUsers l1) = ?us" using effect_users[OF e1] .
  have "\<forall>x\<in>set (refunds s'). refundUser x \<in> ?us \<and> 0 \<le> refundAmount x"
  proof
    fix x assume x: "x \<in> set (refunds s')"
    then have "refundUser x \<in> set (map spUser (settlement_view row))"
      unfolding s'_def abort_refunds(1)[symmetric, of _ "tEntryFee row" "tBuyin row"] by simp
    then show "refundUser x \<in> ?us \<and> 0 \<le> refundAmount x"
      using x r abort_refunds(2) by (auto simp: s'_def settlement_view_def row_inv_def part_inv_def)
  qed
  then have e2: "effect t (sum_list (map refundAmount (refunds s'))) row' row' l1 l2"
    unfolding l2_def using effect_tours[OF e1] users by (intro pay_refunds_effect) auto
  note e12 = effect_trans[OF e1 e2]
  have "effect t (max 0 (storeAmount s')) row' row' l2 l3"
  proof (cases "storeAmount s' > 0")
    case True
    have "tOwner row \<in> fst ` set (lUsers l2)" using r effect_users[OF e12] by (simp add: row_inv_def)
    then show ?thesis using True effect_tours[OF e12] by (auto simp: l3_def intro!: effect_move)
  next
    case False
    then show ?thesis using effect_refl effect_tours[OF e12] by (simp add: l3_def)
  qed
  from effect_trans[OF e12 this]
  have "effect t (sum_list (map refundAmount (refunds s)) + max 0 (storeAmount s)) row row' l l'"
    using l'(1,2) by (simp add: add.assoc)
  moreover have "row_step ?us (sum_list (map refundAmount (refunds s)) + max 0 (storeAmount s)) row row'"
    unfolding row'_def by (rule close_row_step[OF r row(2)]) (simp_all add: isClosedTournament_def)
  ultimately show ?thesis using that[of row row'] t row(2) l'(2,3) by (simp add: row'_def close_row_def s'_def)
qed

lemma abortSession_good [good_steps]:
  assumes inv: "ledger_inv l"
  shows "good l (snd (abortSession t owner l))"
proof (cases "\<exists>s l'. abortSession t owner l = (Inr s, l')")
  case True
  then obtain s l' where ok: "abortSession t owner l = (Inr s, l')" by blast
  obtain row row' where e:
    "effect t (sum_list (map refundAmount (refunds s)) + max 0 (storeAmount s)) row row' l l'"
    "row_step (fst ` set (lUsers l)) (sum_list (map refundAmount (refunds s)) + max 0 (storeAmount s)) row row'"
    "ledger_fits l'"
    by (rule abortSession_effect[OF inv ok])
  from effect_good[OF inv e] show ?thesis using ok by simp
next
  case False
  then have "snd (abortSession t owner l) = l"
    by (auto simp: abortSession_def Let_def commit_def split: sum.splits if_splits)
  then show ?thesis using good_refl[OF inv] by simp
qed

section \<open>Opening and changing\<close>

lemma parsePayouts_again: "parsePayouts ps = Inr qs \<Longrightarrow> parsePayouts qs = Inr qs"
  using parsePayouts_Inr[of ps qs] contiguous_sorted[of 1 qs]
  by (force simp: parsePayouts_def list_ex_iff)

lemma parse_tiers_again: "parse_tiers ts = Inr us \<Longrightarrow> parse_tiers us = Inr us"
  by (induction ts arbitrary: us) (auto split: sum.splits simp: parsePayouts_again)

lemma parsePayoutTable_canonical: "parsePayoutTable raw = Inr us \<Longrightarrow> canonical_table (JArray us)"
proof -
  assume p: "parsePayoutTable raw = Inr us"
  then obtain t ts where ts: "raw = JArray (t # ts)" "parse_tiers (t # ts) = Inr us"
    unfolding parsePayoutTable_def by (auto split: json.splits list.splits if_splits)
  obtain u us' where us: "us = u # us'" "minEntries u = 0" "sorted_wrt (<) (map minEntries us)"
    by (rule parsePayoutTable_Inr[OF p])
  then show ?thesis
    using parse_tiers_again[OF ts(2)] unfolding canonical_table_def parsePayoutTable_def by simp
qed

lemma startSession_good [good_steps]:
  assumes inv: "ledger_inv l"
  shows "good l (snd (startSession n ready now t owner l))"
proof (cases "owned t owner l")
  case (Inr row)
  then have row: "tour t l = Some row" by (simp add: owned_Inr)
  have "good l (put_tour t (row\<lparr>tStatus := ONGOING, tStarted := True\<rparr>) l)" if "tStatus row = PENDING"
    using that ledger_inv_row[OF inv row] inv_fits[OF inv row]
    by (intro put_tour_good[OF inv row])
      (auto simp: row_step_def row_inv_def closed_row_def isClosedTournament_def money_gap_def paid_prizes_def
        total_buy_ins_def row_fits_def)
  then show ?thesis using Inr good_refl[OF inv] by (auto simp: startSession_def split: sum.splits)
qed (simp add: startSession_def good_refl inv)

lemma no_fees_no_players:
  assumes "row_inv us row" "\<not> closed_row row" "tBuyin row \<le> 0"
  shows "tParts row = []"
proof (rule ccontr)
  assume "tParts row \<noteq> []"
  then obtain p ps where p: "tParts row = p # ps" by (cases "tParts row") auto
  have "0 \<le> sum_list (map pBuyIns ps)" using assms(1) p by (intro sum_list_nonneg) (auto simp: row_inv_def part_inv_def)
  then have "1 \<le> total_buy_ins row" using assms(1) p by (auto simp: row_inv_def part_inv_def total_buy_ins_def)
  moreover have "tBuyin row = tEntryFee row * total_buy_ins row" "1 \<le> tEntryFee row"
    using assms by (auto simp: row_inv_def)
  ultimately have "1 \<le> tBuyin row" by (metis mult_mono mult_1 zero_le_one order_trans le_numeral_extra(4))
  then show False using assms(3) by simp
qed

lemma updateSession_step:
  assumes r: "row_inv us row" "\<not> closed_row row" and ok: "update_dto_ok d"
    and fees: "\<not> (tBuyin row > 0 \<and> (udEntryFee d \<noteq> None \<or> udStartStack d \<noteq> None \<or> udRakePercent d \<noteq> None))"
    and table: "canonical_table table"
  shows "row_step us 0 row (row\<lparr>tName := nm, tBlinds := bl, tStartStack := set_to (udStartStack d) (tStartStack row),
     tRebuyUntil := rb, tEntryFee := set_to (udEntryFee d) (tEntryFee row),
     tRakePercent := set_to (udRakePercent d) (tRakePercent row), tPayoutTable := table\<rparr>)"
proof -
  have fee: "1 \<le> set_to (udEntryFee d) (tEntryFee row)" "0 \<le> set_to (udStartStack d) (tStartStack row)"
    "0 \<le> set_to (udRakePercent d) (tRakePercent row)" "set_to (udRakePercent d) (tRakePercent row) \<le> 100"
    using r ok by (auto simp: set_to_def update_dto_ok_def row_inv_def split: option.splits)
  have "tBuyin row = set_to (udEntryFee d) (tEntryFee row) * total_buy_ins row"
  proof (cases "tBuyin row > 0")
    case True
    then have "udEntryFee d = None" using fees by blast
    then show ?thesis using r by (simp add: row_inv_def set_to_def)
  next
    case False
    then show ?thesis using no_fees_no_players[OF r] r by (simp add: total_buy_ins_def row_inv_def)
  qed
  moreover have "0 \<le> tEntryFee row * sum_list (map pBuyIns (tParts row))"
    using r by (simp add: row_inv_def total_buy_ins_def)
  ultimately show ?thesis using r table fee
    by (simp add: row_step_def row_inv_def closed_row_def money_gap_def paid_prizes_def total_buy_ins_def)
qed

lemma updateSession_good:
  assumes inv: "ledger_inv l" and ok: "update_dto_ok d"
  shows "good l (snd (updateSession store t owner d l))"
proof (cases "owned t owner l")
  case (Inr row)
  then have row: "tour t l = Some row" by (simp add: owned_Inr)
  note r = ledger_inv_row[OF inv row]
  define R where "R table = row\<lparr>tName := set_to (udName d) (tName row),
     tBlinds := set_to (map_option snd (udBlinds d)) (tBlinds row),
     tStartStack := set_to (udStartStack d) (tStartStack row),
     tRebuyUntil := set_to (udRebuyUntil d) (tRebuyUntil row), tEntryFee := set_to (udEntryFee d) (tEntryFee row),
     tRakePercent := set_to (udRakePercent d) (tRakePercent row), tPayoutTable := table\<rparr>" for table
  have old: "canonical_table (tPayoutTable row)" using r by (simp add: row_inv_def)
  have step: "good l (put_tour t (R table) l)"
    if "\<not> isClosedTournament (tStatus row)" "canonical_table table"
      "\<not> (tBuyin row > 0 \<and> (udEntryFee d \<noteq> None \<or> udStartStack d \<noteq> None \<or> udRakePercent d \<noteq> None))" for table
    using updateSession_step[OF r _ ok that(3,2)] inv_fits[OF inv row] that(1) unfolding R_def
    by (intro put_tour_good[OF inv row]) (simp_all add: row_fits_def closed_row_def)
  show ?thesis
    unfolding updateSession_def Inr sum.case R_def[symmetric]
    using step[OF _ old] step[OF _ parsePayoutTable_canonical] good_refl[OF inv]
    by (auto split: option.split sum.split)
qed (simp add: updateSession_def good_refl inv)

section \<open>Every event\<close>

lemma append_row_good:
  assumes inv: "ledger_inv l" and fresh: "tour t l = None" and row: "row_inv (fst ` set (lUsers l)) row"
    and money: "paid_prizes row = tBuyin row" "\<not> closed_row row"
    and fits: "ledger_fits (l\<lparr>lTours := lTours l @ [(t, row)]\<rparr>)"
  shows "good l (l\<lparr>lTours := lTours l @ [(t, row)]\<rparr>)"
proof -
  let ?l = "l\<lparr>lTours := lTours l @ [(t, row)]\<rparr>"
  have t: "tour t' ?l = (case tour t' l of None \<Rightarrow> if t' = t then Some row else None | Some r \<Rightarrow> Some r)" for t'
    by (auto simp: tour_def map_add_def split: option.splits)
  have no_tx: "filter (\<lambda>tx. txTournament tx = Some t) (lTx l) = []"
    using inv fresh by (auto simp: ledger_inv_def filter_empty_conv)
  have "ledger_inv ?l"
    using inv fresh row money fits no_tx
    by (auto simp: ledger_inv_def t points_def tx_sum_def tour_def map_of_eq_None_iff split: option.splits if_splits)
  moreover have "evolves l ?l"
    by (auto simp: evolves_def audit_gap_def points_def user_sum_def tx_sum_def t)
  ultimately show ?thesis by (simp add: good_def)
qed

lemma createSession_good:
  assumes inv: "ledger_inv l" and ok: "create_dto_ok d" and owner: "points owner l \<noteq> None"
  shows "good l (snd (createSession stores blinds d owner t tb l))"
proof -
  have row: "row_inv (fst ` set (lUsers l)) (new_tournament d owner table levels tb)"
    if "parsePayoutTable raw = Inr table" for table levels raw
    using ok owner points_known[of owner l] parsePayoutTable_canonical[OF that]
    by (auto simp: row_inv_def new_tournament_def create_dto_ok_def closed_row_def isClosedTournament_def
        total_buy_ins_def split: option.splits)
  have new: "paid_prizes (new_tournament d owner table levels tb) = tBuyin (new_tournament d owner table levels tb)"
    "\<not> closed_row (new_tournament d owner table levels tb)" for table levels
    by (simp_all add: new_tournament_def paid_prizes_def closed_row_def isClosedTournament_def)
  have step: "good l (snd (commit () l (l\<lparr>lTours := lTours l @ [(t, new_tournament d owner table levels tb)]\<rparr>)))"
    if "parsePayoutTable raw = Inr table" "tour t l = None" for table levels raw
    by (rule commit_good[OF inv]) (rule append_row_good[OF inv that(2) row[OF that(1)] new])
  show ?thesis
    unfolding createSession_def
    by (auto simp: good_refl[OF inv] step split: option.split sum.split)
qed

lemma cancel_effect:
  assumes "\<forall>p\<in>set ps. pUser p \<in> fst ` set (lUsers l)" "tour t l = Some row" "0 \<le> fee"
  shows "effect t (int (length ps) * fee) row row l (fold (\<lambda>p l. move_points (pUser p) fee REFUND (Some t) l) ps l)"
  using assms
proof (induction ps arbitrary: l)
  case (Cons p ps)
  have e: "effect t fee row row l (move_points (pUser p) fee REFUND (Some t) l)"
    by (rule effect_move[OF Cons.prems(2)]) (use Cons.prems in simp_all)
  have "effect t (int (length ps) * fee) row row (move_points (pUser p) fee REFUND (Some t) l)
      (fold (\<lambda>p l. move_points (pUser p) fee REFUND (Some t) l) ps (move_points (pUser p) fee REFUND (Some t) l))"
    using Cons.prems by (intro Cons.IH) simp_all
  from effect_trans[OF e this] show ?case by (simp add: algebra_simps)
qed (simp add: effect_refl)

lemma cancelSession_effect:
  assumes inv: "ledger_inv l" and ok: "cancelSession t owner l = (Inr (), l')"
  obtains row row' where "tour t l = Some row" "\<not> closed_row row" "\<not> tStarted row" "tStatus row' = CANCELLED"
    "effect t (tBuyin row) row row' l l'" "row_step (fst ` set (lUsers l)) (tBuyin row) row row'" "ledger_fits l'"
proof -
  obtain row where row: "owned t owner l = Inr row" "\<not> closed_row row" "\<not> tStarted row"
    "int (length (tParts row)) * tEntryFee row = tBuyin row"
    using ok by (auto simp: cancelSession_def closed_row_def Let_def split: sum.splits if_splits)
  then have t: "tour t l = Some row" by (simp add: owned_Inr)
  let ?us = "fst ` set (lUsers l)"
  define row' where "row' = close_row CANCELLED (row\<lparr>tBuyin := 0, tActive := 0\<rparr>)"
  define l1 where "l1 = put_tour t row' l"
  define l2 where "l2 = fold (\<lambda>p l. move_points (pUser p) (tEntryFee row) REFUND (Some t) l) (tParts row) l1"
  have "commit () l l2 = (Inr (), l')"
    using ok row unfolding cancelSession_def row(1) sum.case Let_def row'_def[symmetric] l1_def[symmetric]
      l2_def[symmetric] by (simp add: closed_row_def)
  then have l': "l' = l2" "ledger_fits l'" by (auto simp: commit_def split: if_splits)
  note r = ledger_inv_row[OF inv t]
  have e1: "effect t 0 row row' l l1" unfolding l1_def by (rule effect_put[OF t])
  have "effect t (int (length (tParts row)) * tEntryFee row) row' row' l1 l2"
    unfolding l2_def using effect_tours[OF e1] effect_users[OF e1] r
    by (intro cancel_effect) (auto simp: row_inv_def part_inv_def)
  from effect_trans[OF e1 this] have e: "effect t (tBuyin row) row row' l l'" using row(4) l' by simp
  have "row_step ?us (tBuyin row) row row'"
    unfolding row'_def by (rule close_row_step[OF r row(2)]) (simp_all add: isClosedTournament_def)
  then show ?thesis using that[of row row'] t row(2,3) e l'(2) by (simp add: row'_def close_row_def)
qed

lemma cancelSession_good [good_steps]:
  assumes inv: "ledger_inv l"
  shows "good l (snd (cancelSession t owner l))"
proof (cases "\<exists>l'. cancelSession t owner l = (Inr (), l')")
  case True
  then obtain l' where ok: "cancelSession t owner l = (Inr (), l')" by blast
  obtain row row' where e: "effect t (tBuyin row) row row' l l'"
    "row_step (fst ` set (lUsers l)) (tBuyin row) row row'" "ledger_fits l'"
    by (rule cancelSession_effect[OF inv ok])
  from effect_good[OF inv e] show ?thesis using ok by simp
next
  case False
  then have "snd (cancelSession t owner l) = l"
    by (auto simp: cancelSession_def Let_def commit_def split: sum.splits if_splits)
  then show ?thesis using good_refl[OF inv] by simp
qed

lemma ledger_step_good:
  assumes "ledger_inv l"
  shows "good l (ledger_step w l e)"
  by (cases e)
    (auto simp: good_refl[OF assms] good_steps[OF assms] createSession_good[OF assms] updateSession_good[OF assms]
      list_all_iff split: if_split)

end
