(* ===== verification/LedgerClaims.thy ===== *)
theory LedgerClaims
  imports LedgerClose
begin

text \<open>
  What the database guarantees about money over whole histories: the books of every ledger that the events can
  reach, the settlement of each way of closing, and the peace of closed tournaments. The histories start from
  registered users without points.
\<close>

section \<open>The database as an instance of the machines\<close>

definition new_ledger :: "string list \<Rightarrow> ledger" where
  "new_ledger us = \<lparr>lUsers = map (\<lambda>u. (u, 0)) us, lTx = [], lTours = []\<rparr>"

definition ledger_run :: "world \<Rightarrow> ledger \<Rightarrow> ledger_event list \<Rightarrow> ledger" where
  "ledger_run w l es = foldl (ledger_step w) l es"

lemma evolves_trans: "evolves l1 l2 \<Longrightarrow> evolves l2 l3 \<Longrightarrow> evolves l1 l3"
  unfolding evolves_def by (metis closed_row_def)

interpretation ledger_evolution: evolving_machine "ledger_step w" ledger_inv evolves for w
  using ledger_step_good good_refl evolves_trans by unfold_locales (auto simp: good_def)

interpretation ledger_audit: conserved_machine "ledger_step w" ledger_inv "audit_gap u" for w u
  using ledger_step_good by unfold_locales (auto simp: good_def evolves_def)

lemma new_ledger_inv: "distinct us \<Longrightarrow> ledger_inv (new_ledger us)"
  by (auto simp: ledger_inv_def new_ledger_def points_def tour_def ledger_fits_def int32_def list_all_iff o_def
      dest!: map_of_SomeD)

lemma new_ledger_gap: "audit_gap u (new_ledger us) = 0"
  by (auto simp: audit_gap_def new_ledger_def points_def user_sum_def split: option.splits dest!: map_of_SomeD)

lemma reached_inv: "distinct us \<Longrightarrow> ledger_inv (ledger_run w (new_ledger us) es)"
  unfolding ledger_run_def by (rule ledger_evolution.run_inv[OF new_ledger_inv])

lemma run_evolves: "ledger_inv l \<Longrightarrow> evolves l (ledger_run w l es)"
  unfolding ledger_run_def by (rule ledger_evolution.run_rel)

section \<open>A history\<close>

text \<open>Four players and a store owner; three paid places for entries of 100 each.\<close>

definition demo_world :: world where
  "demo_world = \<lparr>wStores = (\<lambda>_. Some ''O''), wBlinds = (\<lambda>_. None), wStoreOf = (\<lambda>_. ''S'')\<rparr>"

definition demo_dto :: create_dto where
  "demo_dto = \<lparr>cdName = ''T'', cdStore = ''S'', cdBlindId = None,
     cdBlindStructure = Some (''S'', JArray [\<lparr>rawLv = VNum 1, rawSb = VNum 10, rawAnte = VBool False, rawDuration = VNum 10\<rparr>]),
     cdPayoutTable = Some (JArray [tier 0 [50, 30, 20]]), cdStartStack = 1000, cdEntryFee = 100,
     cdRakePercent = None, cdRebuyUntil = 0, cdRegOpen = None\<rparr>"

definition demo_users :: "string list" where
  "demo_users = [''O'', ''A'', ''B'', ''C'', ''D'']"

definition demo_entry :: "string \<Rightarrow> ledger_event list" where
  "demo_entry u = [EvCharge u 100, EvJoin True [u] ''T'' u]"

definition demo_start :: "ledger_event list" where
  "demo_start = EvCreate demo_dto ''O'' ''T'' ''X'' # concat (map demo_entry [''A'', ''B'', ''C'', ''D''])
     @ [EvEnter False ''T'' ''X'' 0 ''A'', EvEnter False ''T'' ''X'' 1 ''B'', EvEnter False ''T'' ''X'' 2 ''C'']"

definition demo_bust :: "string \<Rightarrow> int \<Rightarrow> ledger_event" where
  "demo_bust u s = EvHandOver ''T'' ''X'' [\<lparr>bsUser = u, bsSeat = s, bsStack = 0, bsContributed = 1000\<rparr>]"

text \<open>The fourth player sits down before the first elimination, or only after it.\<close>

definition demo_on_time :: "ledger_event list" where
  "demo_on_time = demo_start @ [EvEnter False ''T'' ''X'' 3 ''D'', EvStart 2 True 0 ''T'' ''O'',
     demo_bust ''C'' 2, demo_bust ''D'' 3, demo_bust ''B'' 1]"


definition demo_ledger :: "ledger_event list \<Rightarrow> ledger" where
  "demo_ledger es = ledger_run demo_world (new_ledger demo_users) es"

lemma demo_inv: "ledger_inv (demo_ledger es)"
  unfolding demo_ledger_def by (rule reached_inv) (simp add: demo_users_def)

section \<open>Points of single users\<close>

lemma points_run_refunds:
  "points u (fold (\<lambda>p l. move_points (pUser p) fee REFUND (Some t) l) ps l)
   = map_option (\<lambda>x. x + fee * int (length (filter (\<lambda>p. pUser p = u) ps))) (points u l)"
  by (induction ps arbitrary: l) (auto simp: points_move_points algebra_simps option.map_comp comp_def option.map_ident)

lemma once_each: "distinct (map pUser ps) \<Longrightarrow> int (length (filter (\<lambda>p. pUser p = u) ps)) = of_bool (u \<in> pUser ` set ps)"
  by (induction ps) (auto simp: filter_empty_conv image_iff)


lemma settled_money:
  assumes "ledger_inv l" "tour t l = Some row" "\<not> closed_row row" "effect t d row row' l l'"
  shows "tx_sum t l' = money_gap row + d"
  using ledger_inv_books[OF assms(1-3)] assms(4) by (simp add: effect_def)

lemma complete_money:
  assumes "ledger_inv l" "completeSession t owner l = (Inr (), l')"
  obtains row where "tour t l' = Some row" "tStatus row = FINISHED" "tx_sum t l' = 0" "ledger_inv l'"
proof -
  obtain row row' where e: "tour t l = Some row" "\<not> closed_row row" "tStatus row' = FINISHED"
    "effect t (rakeOf (tBuyin row) (tRakePercent row)) row row' l l'"
    "paid_prizes row + rakeOf (tBuyin row) (tRakePercent row) = tBuyin row"
    by (rule completeSession_effect[OF assms])
  have "tx_sum t l' = 0" using settled_money[OF assms(1) e(1,2,4)] e(5) by (simp add: money_gap_def)
  moreover have "ledger_inv l'" using completeSession_good[OF assms(1), of t owner] assms(2) by (simp add: good_def)
  ultimately show ?thesis using that effect_tours[OF e(4)] e(3) by blast
qed

section \<open>Properties\<close>

text \<open>C34. Whatever is asked of the server and in whatever order, no user has negative points, every user's points are the sum
  of the user's transactions, and for every open tournament the transactions that name it add up to the
  prizes it has paid less the buy-ins it has collected, which are the entry fee times the number of buy-ins.\<close>

theorem books_always_balance:
  assumes "distinct us" and "l = ledger_run w (new_ledger us) es"
  shows "(\<forall>u p. points u l = Some p \<longrightarrow> 0 \<le> p \<and> p = user_sum u l)
    \<and> (\<forall>t row. tour t l = Some row \<and> \<not> isClosedTournament (tStatus row) \<longrightarrow>
         tx_sum t l = paid_prizes row - tBuyin row \<and> tBuyin row = tEntryFee row * total_buy_ins row)"
proof -
  have inv: "ledger_inv l" using reached_inv[OF assms(1)] assms(2) by simp
  have gap: "audit_gap u l = 0" for u
    unfolding assms(2) ledger_run_def
    using ledger_audit.run_val[OF new_ledger_inv[OF assms(1)]] new_ledger_gap by simp
  have "0 \<le> p \<and> p = user_sum u l" if "points u l = Some p" for u p
    using inv gap[of u] that by (auto simp: ledger_inv_def audit_gap_def)
  moreover have "tx_sum t l = paid_prizes row - tBuyin row \<and> tBuyin row = tEntryFee row * total_buy_ins row"
    if "tour t l = Some row \<and> \<not> isClosedTournament (tStatus row)" for t row
    using that ledger_inv_books[OF inv] ledger_inv_row[OF inv] by (auto simp: closed_row_def money_gap_def row_inv_def)
  ultimately show ?thesis by blast
qed

theorem books_always_balance_witness:
  "0 \<le> (200::int) \<and> 200 = user_sum ''A'' (ledger_run demo_world (new_ledger demo_users) demo_on_time)"
proof -
  have d: "distinct demo_users" by code_simp
  have "points ''A'' (ledger_run demo_world (new_ledger demo_users) demo_on_time) = Some 200" by code_simp
  then show ?thesis using conjunct1[OF books_always_balance[OF d refl]] by blast
qed

text \<open>C35. Completing a tournament settles it: the transactions that name it (entry fees and rebuys taken,
  prizes and the store's share paid) cancel out to zero.\<close>

theorem complete_settles:
  assumes "distinct us" and "completeSession t owner (ledger_run w (new_ledger us) es) = (Inr (), l')"
  shows "\<exists>row. tour t l' = Some row \<and> tStatus row = FINISHED \<and> tx_sum t l' = 0"
  by (rule complete_money[OF reached_inv[OF assms(1)] assms(2)]) blast

theorem complete_settles_witness:
  "\<exists>l'. completeSession ''T'' ''O'' (ledger_run demo_world (new_ledger demo_users) demo_on_time) = (Inr (), l')
     \<and> tx_sum ''T'' l' = 0"
proof -
  have d: "distinct demo_users" by code_simp
  have "fst (completeSession ''T'' ''O'' (ledger_run demo_world (new_ledger demo_users) demo_on_time)) = Inr ()"
    by code_simp
  then obtain l' where c: "completeSession ''T'' ''O'' (ledger_run demo_world (new_ledger demo_users) demo_on_time) = (Inr (), l')"
    by (metis prod.collapse)
  then show ?thesis using complete_settles[OF d c] by blast
qed

text \<open>A deal that goes through settles the tournament as well: the whole remaining pool is paid out and the
  tournament is finished, with nothing left in its transactions.\<close>

theorem chop_settles:
  assumes "distinct us" and "chopSession gateOpen waiting t owner (ledger_run w (new_ledger us) es) = (Inr (), l')"
  shows "\<exists>row. tour t l' = Some row \<and> tStatus row = FINISHED \<and> tx_sum t l' = 0"
proof -
  let ?l = "ledger_run w (new_ledger us) es"
  note inv = reached_inv[OF assms(1), of w es]
  obtain row l1 where row: "tour t ?l = Some row" "\<not> closed_row row" "tStarted row"
    and l1: "commit () ?l (chop_tx t row ?l) = (Inr (), l1)" "completeSession t owner l1 = (Inr (), l')"
    using assms(2) by (auto simp: chopSession_def chopBlocker_def owned_Inr closed_row_def
        split: sum.splits prod.splits option.splits if_splits)
  have "ledger_inv l1" using chop_tx_good[OF inv row] l1(1) by (simp add: good_def)
  then show ?thesis by (rule complete_money[OF _ l1(2)]) blast
qed

text \<open>Three live players at one table, before the end.\<close>

definition demo_deal :: "ledger_event list" where
  "demo_deal = demo_start @ [EvEnter False ''T'' ''X'' 3 ''D'', EvStart 2 True 0 ''T'' ''O'', demo_bust ''C'' 2,
     EvStacks ''T'' [(''A'', 2000), (''B'', 1500), (''D'', 500)]]"

theorem chop_settles_witness:
  "\<exists>l'. chopSession False True ''T'' ''O'' (ledger_run demo_world (new_ledger demo_users) demo_deal) = (Inr (), l')
     \<and> tx_sum ''T'' l' = 0"
proof -
  have d: "distinct demo_users" by code_simp
  have "fst (chopSession False True ''T'' ''O'' (ledger_run demo_world (new_ledger demo_users) demo_deal)) = Inr ()"
    by code_simp
  then obtain l' where c: "chopSession False True ''T'' ''O'' (ledger_run demo_world (new_ledger demo_users) demo_deal) = (Inr (), l')"
    by (metis prod.collapse)
  then show ?thesis using chop_settles[OF d c] by blast
qed

text \<open>Cancelling a tournament that has not started gives every participant the entry fee back, once, touches
  nobody else's points, and leaves nothing in its transactions.\<close>

theorem cancel_refunds:
  assumes "distinct us" and "l = ledger_run w (new_ledger us) es" and "cancelSession t owner l = (Inr (), l')"
    and "tour t l = Some row" and "points u l = Some p"
  shows "points u l' = Some (p + (if u \<in> pUser ` set (tParts row) then tEntryFee row else 0)) \<and> tx_sum t l' = 0"
proof -
  have inv: "ledger_inv l" using reached_inv[OF assms(1)] assms(2) by simp
  obtain r r' where e: "tour t l = Some r" "\<not> closed_row r" "\<not> tStarted r" "effect t (tBuyin r) r r' l l'"
    by (rule cancelSession_effect[OF inv assms(3)])
  have r: "r = row" using e(1) assms(4) by simp
  note rinv = ledger_inv_row[OF inv assms(4)]
  have "paid_prizes row = 0" using rinv e(3) unfolding r paid_prizes_def row_inv_def by (intro sum_list_all_zero) auto
  then have tx: "tx_sum t l' = 0" using settled_money[OF inv e(1,2,4)] by (simp add: r money_gap_def)
  have "l' = fold (\<lambda>p l. move_points (pUser p) (tEntryFee row) REFUND (Some t) l) (tParts row)
      (put_tour t (close_row CANCELLED (row\<lparr>tBuyin := 0, tActive := 0\<rparr>)) l)"
    using assms(3,4) by (auto simp: cancelSession_def owned_Inr commit_def Let_def split: sum.splits if_splits)
  then have "points u l' = Some (p + tEntryFee row * int (length (filter (\<lambda>q. pUser q = u) (tParts row))))"
    using assms(5) by (simp add: points_run_refunds)
  moreover have "distinct (map pUser (tParts row))" using rinv by (simp add: row_inv_def)
  ultimately show ?thesis using once_each[of "tParts row" u] tx by simp
qed

theorem cancel_refunds_witness:
  "\<exists>l'. cancelSession ''T'' ''O'' (demo_ledger demo_start) = (Inr (), l') \<and> points ''A'' l' = Some 100"
proof -
  have d: "distinct demo_users" by code_simp
  have "fst (cancelSession ''T'' ''O'' (demo_ledger demo_start)) = Inr ()" by code_simp
  then obtain l' where c: "cancelSession ''T'' ''O'' (demo_ledger demo_start) = (Inr (), l')"
    by (metis prod.collapse)
  have "map_option (\<lambda>row. ''A'' \<in> pUser ` set (tParts row) \<and> tEntryFee row = 100) (tour ''T'' (demo_ledger demo_start)) = Some True"
    by code_simp
  then obtain row where row: "tour ''T'' (demo_ledger demo_start) = Some row" "''A'' \<in> pUser ` set (tParts row)" "tEntryFee row = 100"
    by auto
  have p: "points ''A'' (demo_ledger demo_start) = Some 0" by code_simp
  from conjunct1[OF cancel_refunds[OF d demo_ledger_def c row(1) p]] show ?thesis using c row by simp
qed



text \<open>A closed tournament is closed for good: nothing that happens later changes its status, what it
  collected, what each participant bought or won, or the transactions that name it; no second refund, no
  prize after the books are closed.\<close>

theorem closed_frozen:
  assumes "distinct us" and "l = ledger_run w (new_ledger us) es" and "tour t l = Some row"
    and "isClosedTournament (tStatus row)"
  shows "\<exists>row'. tour t (ledger_run w l es') = Some row' \<and> tStatus row' = tStatus row \<and> tBuyin row' = tBuyin row
    \<and> map part_money (tParts row') = map part_money (tParts row) \<and> tx_sum t (ledger_run w l es') = tx_sum t l"
proof -
  have "evolves l (ledger_run w l es')" using run_evolves reached_inv[OF assms(1)] assms(2) by simp
  then show ?thesis using assms(3,4) unfolding evolves_def closed_row_def by blast
qed

definition demo_closed :: "ledger_event list" where
  "demo_closed = demo_on_time @ [EvComplete ''T'' ''O'']"

theorem closed_frozen_witness:
  "tx_sum ''T'' (ledger_run demo_world (demo_ledger demo_closed) [EvAbort ''T'' ''O'', EvJoin True [''9''] ''T'' ''O'']) = 0"
proof -
  have d: "distinct demo_users" by code_simp
  have "map_option (\<lambda>row. isClosedTournament (tStatus row)) (tour ''T'' (demo_ledger demo_closed)) = Some True" by code_simp
  then obtain row where row: "tour ''T'' (demo_ledger demo_closed) = Some row" "isClosedTournament (tStatus row)" by auto
  have "tx_sum ''T'' (demo_ledger demo_closed) = 0" by code_simp
  then show ?thesis using closed_frozen[OF d demo_ledger_def row, of "[EvAbort ''T'' ''O'', EvJoin True [''9''] ''T'' ''O'']"]
    by auto
qed


end
