(* ===== verification/LedgerTokens.thy ===== *)
theory LedgerTokens
  imports LedgerClaims
begin

text \<open>
  Tokens against the database. Seat and dealer tokens carry a version; the server compares it with the row on
  every use. No operation ever lowers a version or brings a dealer session back, so a token that was superseded
  or revoked is dead in every later state.
\<close>

section \<open>Versions only grow\<close>

definition row_versions :: "tournament \<Rightarrow> tournament \<Rightarrow> bool" where
  "row_versions row row' \<longleftrightarrow>
     (case tDealer row of None \<Rightarrow> tDealer row' = None
      | Some v \<Rightarrow> (case tDealer row' of None \<Rightarrow> True | Some v' \<Rightarrow> v \<le> v'))
     \<and> (\<forall>u p. find_part u (tParts row) = Some p \<longrightarrow>
          (\<exists>p'. find_part u (tParts row') = Some p' \<and> pSeatVersion p \<le> pSeatVersion p'))"

definition versions :: "ledger \<Rightarrow> ledger \<Rightarrow> bool" where
  "versions l l' \<longleftrightarrow> (\<forall>t row. tour t l = Some row \<longrightarrow> (\<exists>row'. tour t l' = Some row' \<and> row_versions row row'))"

named_theorems version_steps \<open>operations that lower no version\<close>

lemma row_versions_refl [simp]: "row_versions row row"
  by (auto simp: row_versions_def split: option.splits)

lemma row_versions_trans: "row_versions r1 r2 \<Longrightarrow> row_versions r2 r3 \<Longrightarrow> row_versions r1 r3"
  unfolding row_versions_def by (force split: option.splits)

lemma versions_refl [simp]: "versions l l"
  by (auto simp: versions_def)

lemma versions_trans: "versions l1 l2 \<Longrightarrow> versions l2 l3 \<Longrightarrow> versions l1 l3"
  unfolding versions_def using row_versions_trans by meson

lemma versions_put: "tour t l = Some row \<Longrightarrow> row_versions row row' \<Longrightarrow> versions l (put_tour t row' l)"
  by (auto simp: versions_def tour_put_tour)

lemma versions_move [simp]: "versions l (move_points u amt ty t l)" "versions l l' \<Longrightarrow> versions l (move_points u amt ty t l')"
  by (auto simp: versions_def)

lemma versions_commit: "versions l l' \<Longrightarrow> versions l (snd (commit x l l'))"
  by (simp add: commit_def)

lemma find_part_map: "(\<And>p. pUser (f p) = pUser p) \<Longrightarrow> find_part u (map f ps) = map_option f (find_part u ps)"
  by (induction ps) (auto simp: find_part_def)

lemma find_part_append: "find_part u (ps @ qs) = (case find_part u ps of None \<Rightarrow> find_part u qs | Some p \<Rightarrow> Some p)"
  by (induction ps) (auto simp: find_part_def)

text \<open>Changing participations one by one without lowering a version, or appending new ones, is harmless.\<close>

lemma row_versions_map:
  assumes "tDealer row' = tDealer row \<or> tDealer row' = None" "tParts row' = map f (tParts row)"
    and "\<And>p. pUser (f p) = pUser p \<and> pSeatVersion p \<le> pSeatVersion (f p)"
  shows "row_versions row row'"
  using assms(1) assms(3) unfolding row_versions_def assms(2) by (auto simp: find_part_map split: option.splits)

lemma row_versions_same:
  "tDealer row' = tDealer row \<or> tDealer row' = None \<Longrightarrow> tParts row' = tParts row \<Longrightarrow> row_versions row row'"
  by (rule row_versions_map[of _ _ id]) auto

lemma row_versions_append:
  "tDealer row' = tDealer row \<Longrightarrow> tParts row' = tParts row @ qs \<Longrightarrow> row_versions row row'"
  unfolding row_versions_def by (auto simp: find_part_append split: option.splits)

lemma row_versions_update:
  assumes "tDealer row' = tDealer row" "tParts row' = update_part u f (tParts row)"
    and "\<And>p. pUser (f p) = pUser p \<and> pSeatVersion p \<le> pSeatVersion (f p)"
  shows "row_versions row row'"
  using assms by (intro row_versions_map[of _ _ "\<lambda>p. if pUser p = u then f p else p"]) (auto simp: update_part_def)

lemma versions_put_move:
  "tour t l = Some row \<Longrightarrow> row_versions row row' \<Longrightarrow> versions l (put_tour t row' (move_points u amt ty t' l))"
  by (rule versions_trans[OF versions_move(1) versions_put]) simp_all

lemma versions_fold:
  "(\<And>x l. x \<in> set xs \<Longrightarrow> versions l (f x l)) \<Longrightarrow> versions l (fold f xs l)"
proof (induction xs arbitrary: l)
  case (Cons x xs)
  have "versions l (f x l)" using Cons.prems by simp
  moreover have "versions (f x l) (fold f xs (f x l))" using Cons by simp
  ultimately show ?case using versions_trans by simp
qed simp

section \<open>Every operation\<close>

lemma chargePoint_versions [version_steps]: "versions l (snd (chargePoint u amt l))"
  by (auto simp: chargePoint_def user_chargePoint_def intro!: versions_commit split: option.splits sum.splits)

lemma closeRegistration_versions [version_steps]: "versions l (closeRegistration t l)"
  by (auto simp: closeRegistration_def intro!: versions_put row_versions_same split: option.splits)

lemma join_tx_versions: "join_tx t u otp s l = Inr l' \<Longrightarrow> versions l l'"
proof -
  assume "join_tx t u otp s l = Inr l'"
  then obtain row row' l1 where l1: "paymentPoint u t (tEntryFee s) l = Inr l1" "tour t l1 = Some row"
    and l': "l' = put_tour t row' l1" "tDealer row' = tDealer row" "tParts row' = tParts row @ [new_participation u s otp]"
    by (auto simp: join_tx_def split: sum.splits option.splits if_splits)
  have "versions l l1" using l1(1) by (auto simp: paymentPoint_def split: option.splits if_splits)
  then show ?thesis
    using versions_put[OF l1(2) row_versions_append[OF l'(2,3)]] l'(1) versions_trans by blast
qed

lemma join_attempts_versions: "versions l (snd (join_attempts t u otps s l))"
  by (induction t u otps s l rule: join_attempts.induct)
    (auto intro: versions_commit[OF join_tx_versions] split: sum.splits join_failure.splits)

lemma joinSession_versions [version_steps]: "versions l (snd (joinSession gate otps t u l))"
  by (auto simp: joinSession_def join_attempts_versions version_steps split: option.splits)

lemma rebuy_versions [version_steps]: "versions l (rebuy_step t u l)"
  by (auto simp: rebuy_step_def executeRebuyTransaction_def Let_def
      intro!: versions_commit versions_put_move row_versions_update split: option.splits)

lemma award_one_versions: "versions l (award_one t a l)"
proof -
  have "versions l (put_tour t (row\<lparr>tParts := update_part u (\<lambda>p. p\<lparr>pPlace := k, pStatus := s, pPrize := amt\<rparr>) (tParts row)\<rparr>) l)"
    if "tour t l = Some row" for row u k s amt
    by (rule versions_put[OF that row_versions_update]) auto
  then show ?thesis by (auto simp: award_one_def Let_def split: prod.splits option.splits)
qed

lemma awardPrize_versions: "versions l (awardPrize t ws l)"
  unfolding awardPrize_def by (rule versions_fold) (rule award_one_versions)

lemma eliminatePlayer_tx_versions: "versions l (snd (eliminatePlayer_tx t tb ps l))"
proof (cases "tour t l")
  case (Some row)
  have "versions l (put_tour t row' l) \<and> versions l (awardPrize t ws (put_tour t row' l))"
    if "tDealer row' = tDealer row" "tParts row' = tParts row" for row' ws
    using versions_put[OF Some row_versions_same] that versions_trans[OF _ awardPrize_versions] by blast
  then show ?thesis unfolding eliminatePlayer_tx_def Some option.case Let_def
    by (auto intro!: versions_commit)
qed (simp add: eliminatePlayer_tx_def)

lemma tournamentFinished_versions: "versions l (snd (tournamentFinished t l))"
proof (cases "tour t l")
  case (Some row)
  have "versions l (awardPrize t ws (put_tour t (row\<lparr>tRegOpen := False\<rparr>) l))" for ws
    by (rule versions_trans[OF versions_put[OF Some row_versions_same] awardPrize_versions]) simp_all
  then show ?thesis by (auto simp: tournamentFinished_def Some intro!: versions_commit split: option.splits)
qed (simp add: tournamentFinished_def)

lemma eliminatePlayer_versions [version_steps]: "versions l (snd (eliminatePlayer t tb ps l))"
proof -
  obtain r l' where tx: "eliminatePlayer_tx t tb ps l = (r, l')" by fastforce
  then have "versions l l'" using eliminatePlayer_tx_versions[of l t tb ps] by simp
  then show ?thesis using tx versions_trans[OF _ tournamentFinished_versions]
    by (auto simp: eliminatePlayer_def split: sum.splits prod.splits)
qed

lemma completeSession_versions [version_steps]: "versions l (snd (completeSession t owner l))"
  by (auto simp: completeSession_def owned_Inr Let_def close_row_def
      intro!: versions_commit versions_move(2) versions_put row_versions_same split: sum.splits option.splits)

lemma chopSession_versions [version_steps]: "versions l (snd (chopSession gate waiting t owner l))"
proof -
  have "versions l l1" if "commit () l (chop_tx t row l) = (r, l1)" for row r l1
    using versions_commit[of l "chop_tx t row l" "()"] awardPrize_versions that by (simp add: chop_tx_def)
  then have "versions l (snd (completeSession t owner l1))" "versions l l1" if "commit () l (chop_tx t row l) = (r, l1)" for row r l1
    using that versions_trans[OF _ completeSession_versions] by blast+
  then show ?thesis
    by (auto simp: chopSession_def split: sum.splits prod.splits option.splits)
qed

lemma pay_refunds_versions: "versions l (pay_refunds t rs l)"
  unfolding pay_refunds_def by (rule versions_fold) simp

lemma abortSession_versions [version_steps]: "versions l (snd (abortSession t owner l))"
proof -
  have step: "versions l (pay_refunds t rs (put_tour t row' l))"
    if "tour t l = Some row" "tDealer row' = None" "tParts row' = tParts row" for rs row row'
    using that by (intro versions_trans[OF versions_put[OF that(1) row_versions_same] pay_refunds_versions]) auto
  then show ?thesis
    by (auto simp: abortSession_def owned_Inr Let_def close_row_def intro!: versions_commit versions_move(2) step split: sum.splits)
qed

lemma cancelSession_versions [version_steps]: "versions l (snd (cancelSession t owner l))"
proof -
  have step: "versions l (fold (\<lambda>p l. move_points (pUser p) amt ty (Some t) l) ps (put_tour t row' l))"
    if "tour t l = Some row" "tDealer row' = None" "tParts row' = tParts row" for ps row row' amt ty
    using that by (intro versions_trans[OF versions_put[OF that(1) row_versions_same] versions_fold]) auto
  then show ?thesis
    by (auto simp: cancelSession_def owned_Inr Let_def close_row_def intro!: versions_commit step split: sum.splits)
qed

lemma createSession_versions [version_steps]: "versions l (snd (createSession stores blinds d owner t tb l))"
proof -
  have "versions l (l\<lparr>lTours := lTours l @ [(t, row)]\<rparr>)" for row
    by (auto simp: versions_def tour_def map_add_Some_iff)
  then show ?thesis by (auto simp: createSession_def intro!: versions_commit split: option.splits sum.splits)
qed

lemma tables_versions [version_steps]:
  "versions l (snd (createTable_tx t owner tb l))" "versions l (snd (deleteTable_tx t tb owner l))"
  by (auto simp: createTable_tx_def deleteTable_tx_def owned_Inr intro!: versions_put row_versions_same split: sum.splits)

lemma updateSession_versions [version_steps]: "versions l (snd (updateSession store t owner d l))"
  by (auto simp: updateSession_def owned_Inr intro!: versions_put row_versions_same split: sum.splits option.splits)

lemma startSession_versions [version_steps]: "versions l (snd (startSession n ready now t owner l))"
  by (auto simp: startSession_def owned_Inr intro!: versions_put row_versions_same split: sum.splits)

lemma claimSeat_versions: "versions l (snd (claimSeat_tx t tb s u l))"
  by (auto simp: claimSeat_tx_def Let_def intro!: versions_commit versions_put row_versions_update split: option.splits)

lemma bump_seat_version_versions: "versions l (bump_seat_version t u l)"
  by (auto simp: bump_seat_version_def intro!: versions_put row_versions_update split: option.splits)

lemma enterSeat_versions [version_steps]: "versions l (snd (enterSeat missing t tb s otp l))"
proof -
  have "versions l l'" if "claimSeat_tx t tb s u l = (r, l')" for u r l'
    using claimSeat_versions[of l t tb s u] that by simp
  then show ?thesis
    using versions_trans[OF _ bump_seat_version_versions] bump_seat_version_versions
    by (auto simp: enterSeat_def Let_def split: option.splits sum.splits prod.splits)
qed

lemma releaseSeats_tx_versions: "versions l (snd (releaseSeats_tx t tb seats l))"
proof (cases "tour t l")
  case (Some row)
  have "row_versions row (row\<lparr>tSeats := x, tParts := map (\<lambda>p. if pUser p \<in> us then p\<lparr>pStatus := RELEASED,
      pSeatVersion := pSeatVersion p + 1\<rparr> else p) (tParts row)\<rparr>)" for x us
    by (rule row_versions_map[where f = "\<lambda>p. if pUser p \<in> us then p\<lparr>pStatus := RELEASED,
      pSeatVersion := pSeatVersion p + 1\<rparr> else p"]) auto
  then show ?thesis by (auto simp: releaseSeats_tx_def Some Let_def versions_put[OF Some])
qed (simp add: releaseSeats_tx_def)

lemma fold_update_map:
  "fold (\<lambda>(u, x) ps. update_part u (f x) ps) xs ps = map (\<lambda>p. fold (\<lambda>(u, x) p. if pUser p = u then f x p else p) xs p) ps"
  by (induction xs arbitrary: ps) (auto simp: update_part_def)

lemma fold_part_keeps:
  "(\<And>x p. pUser (f x p) = pUser p \<and> pSeatVersion (f x p) = pSeatVersion p) \<Longrightarrow>
   pUser (fold (\<lambda>(u, x) p. if pUser p = u then f x p else p) xs p) = pUser p
   \<and> pSeatVersion (fold (\<lambda>(u, x) p. if pUser p = u then f x p else p) xs p) = pSeatVersion p"
  by (induction xs arbitrary: p) (auto split: prod.splits)

lemma row_versions_fold:
  assumes "\<And>x p. pUser (f x p) = pUser p \<and> pSeatVersion (f x p) = pSeatVersion p"
  shows "row_versions row (row\<lparr>tParts := fold (\<lambda>(u, x) ps. update_part u (f x) ps) xs (tParts row)\<rparr>)"
proof (rule row_versions_map)
  let ?f = "\<lambda>p. fold (\<lambda>(u, x) p. if pUser p = u then f x p else p) xs p"
  show "tParts (row\<lparr>tParts := fold (\<lambda>(u, x) ps. update_part u (f x) ps) xs (tParts row)\<rparr>) = map ?f (tParts row)"
    by (simp add: fold_update_map)
  show "pUser (?f p) = pUser p \<and> pSeatVersion p \<le> pSeatVersion (?f p)" for p
    using fold_part_keeps[of f, OF assms] by simp
qed simp

lemma rotate_otps_versions: "versions l (rotate_otps t otps l)"
  unfolding rotate_otps_def
  by (auto intro!: versions_put row_versions_fold split: option.splits)

lemma releaseSeats_versions [version_steps]: "versions l (snd (releaseSeats t tb seats owner otps l))"
proof -
  have "versions l l'" if "releaseSeats_tx t tb seats l = (r, l')" for r l'
    using releaseSeats_tx_versions[of l t tb seats] that by simp
  then show ?thesis
    using versions_trans[OF _ rotate_otps_versions]
    by (auto simp: releaseSeats_def Let_def split: option.splits sum.splits prod.splits)
qed

lemma loginDealer_versions [version_steps]: "versions l (snd (loginDealer_tx t tb l))"
proof (cases "tour t l")
  case (Some row)
  have "row_versions row (row\<lparr>tActive := n, tParts := map (\<lambda>p. if pUser p \<in> us \<and> pStatus p = WAITING_PLAYER
      then p\<lparr>pStatus := PLAYING\<rparr> else p) (tParts row)\<rparr>)" for n us
    by (rule row_versions_map[where f = "\<lambda>p. if pUser p \<in> us \<and> pStatus p = WAITING_PLAYER
      then p\<lparr>pStatus := PLAYING\<rparr> else p"]) auto
  then show ?thesis
    by (auto simp: loginDealer_tx_def Some Let_def intro!: versions_commit versions_put[OF Some] split: option.splits)
qed (simp add: loginDealer_tx_def)

lemma revokeDealerSession_versions [version_steps]: "versions l (snd (revokeDealerSession t owner l))"
  by (auto simp: revokeDealerSession_def owned_Inr row_versions_def intro!: versions_put split: sum.splits option.splits)

lemma dealerKick_versions [version_steps]: "versions l (snd (dealerKick gate t u l))"
proof -
  have "versions l (snd (kick_tx t u l))"
    by (auto simp: kick_tx_def intro!: versions_commit versions_put row_versions_update split: option.splits)
  then show ?thesis by (auto simp: dealerKick_def version_steps split: option.splits ledger_error.splits)
qed

lemma syncTableInventoryToDb_versions [version_steps]: "versions l (snd (syncTableInventoryToDb t ns l))"
proof (cases "tour t l")
  case (Some row)
  have "versions l (snd (commit x l (put_tour t (row\<lparr>tParts := fold (\<lambda>(u, n) ps. update_part u (\<lambda>p. p\<lparr>pStack := n\<rparr>) ps) ns (tParts row)\<rparr>) l)))" for x :: unit
    by (intro versions_commit versions_put[OF Some] row_versions_fold) simp
  then show ?thesis unfolding syncTableInventoryToDb_def Some
    by (auto split: prod.splits sum.splits)
qed (simp add: syncTableInventoryToDb_def)

lemma ledger_step_versions: "versions l (ledger_step w l e)"
  by (cases e) (simp_all add: version_steps)

interpretation version_growth: evolving_machine "ledger_step w" "\<lambda>_. True" versions for w
  using ledger_step_versions versions_trans by unfold_locales auto

lemma run_versions: "versions l (ledger_run w l es)"
  unfolding ledger_run_def by (rule version_growth.run_rel) simp

section \<open>Dead tokens\<close>

lemma seat_token_iff:
  "assertSeatTokenCurrent t u k l \<longleftrightarrow> (\<exists>row p. tour t l = Some row \<and> find_part u (tParts row) = Some p \<and> pSeatVersion p = k)"
  by (auto simp: assertSeatTokenCurrent_def split: option.splits)

lemma outdated_stays_dead:
  assumes "assertSeatTokenCurrent t u v l" "k < v"
  shows "\<not> assertSeatTokenCurrent t u k (ledger_run w l es)"
proof -
  obtain row p where row: "tour t l = Some row" "find_part u (tParts row) = Some p" "pSeatVersion p = v"
    using assms(1) by (auto simp: seat_token_iff)
  obtain row' where row': "tour t (ledger_run w l es) = Some row'" "row_versions row row'"
    using run_versions[of l w es] row(1) unfolding versions_def by blast
  then obtain p' where "find_part u (tParts row') = Some p'" "v \<le> pSeatVersion p'"
    using row(2,3) unfolding row_versions_def by blast
  then show ?thesis using row'(1) assms(2) by (auto simp: seat_token_iff)
qed

lemma claimSeat_version:
  assumes "claimSeat_tx t tb s u l = (Inr x, l')" "assertSeatTokenCurrent t v k l"
  shows "assertSeatTokenCurrent t v k l'"
  using assms
  by (auto simp: claimSeat_tx_def Let_def commit_def seat_token_iff tour_put_tour update_part_def find_part_map split: if_splits)

lemma bump_version:
  assumes "assertSeatTokenCurrent t u k l"
  shows "assertSeatTokenCurrent t u (k + 1) (bump_seat_version t u l)"
proof -
  obtain row p where row: "tour t l = Some row" "find_part u (tParts row) = Some p" "pSeatVersion p = k" "pUser p = u"
    using assms find_part_SomeD by (auto simp: seat_token_iff)
  then show ?thesis
    by (simp add: bump_seat_version_def seat_token_iff tour_put_tour update_part_def find_part_map)
qed

lemma enterSeat_token:
  assumes inv: "ledger_inv l" and ok: "enterSeat missing t tb s otp l = (Inr (u, v), l')"
  shows "assertSeatTokenCurrent t u (v - 1) l \<and> assertSeatTokenCurrent t u v l'"
proof -
  obtain row p l1 x where row: "tour t l = Some row" "List.find (\<lambda>p. pOtp p = otp) (tParts row) = Some p"
    and u: "u = pUser p" "v = pSeatVersion p + 1" "l' = bump_seat_version t u l1"
    and l1: "l1 = l \<or> claimSeat_tx t tb s u l = (Inr x, l1)"
    using ok by (auto simp: enterSeat_def Let_def split: option.splits if_splits sum.splits prod.splits)
  have "p \<in> set (tParts row)" using row(2) by (auto simp: find_Some_iff)
  moreover have "distinct (map pUser (tParts row))" using ledger_inv_row[OF inv row(1)] by (simp add: row_inv_def)
  ultimately have "find_part u (tParts row) = Some p" using find_part_distinct u(1) by simp
  then have c: "assertSeatTokenCurrent t u (v - 1) l" using row(1) u(2) by (simp add: seat_token_iff)
  then have "assertSeatTokenCurrent t u (v - 1) l1" using l1 claimSeat_version by blast
  then show ?thesis using c bump_version u(3) by fastforce
qed

text \<open>Every entry with the one-time password issues a seat token that is current, and the token that was current before is
  rejected from then on, whatever happens later: one player, one device.\<close>

theorem seat_token_superseded:
  assumes "distinct us" and "l = ledger_run w (new_ledger us) es"
    and "enterSeat missing t tb s otp l = (Inr (u, v), l')" and "assertSeatTokenCurrent t u k l"
  shows "assertSeatTokenCurrent t u v l' \<and> \<not> assertSeatTokenCurrent t u k (ledger_run w l' es')"
proof -
  have inv: "ledger_inv l" using reached_inv[OF assms(1)] assms(2) by simp
  note tok = enterSeat_token[OF inv assms(3)]
  have "k < v" using tok assms(4) by (auto simp: seat_token_iff)
  then show ?thesis using tok outdated_stays_dead by blast
qed

theorem seat_token_superseded_witness:
  "\<exists>l'. enterSeat False ''T'' ''X'' 0 ''A'' (demo_ledger demo_start) = (Inr (''A'', 2), l')
     \<and> \<not> assertSeatTokenCurrent ''T'' ''A'' 1 (ledger_run demo_world l' [EvStart 2 True 0 ''T'' ''O''])"
proof -
  have d: "distinct demo_users" by code_simp
  have "fst (enterSeat False ''T'' ''X'' 0 ''A'' (demo_ledger demo_start)) = Inr (''A'', 2)" by code_simp
  then obtain l' where c: "enterSeat False ''T'' ''X'' 0 ''A'' (demo_ledger demo_start) = (Inr (''A'', 2), l')"
    by (metis prod.collapse)
  have "assertSeatTokenCurrent ''T'' ''A'' 1 (demo_ledger demo_start)" by code_simp
  then show ?thesis using seat_token_superseded[OF d demo_ledger_def c] c by blast
qed

lemma released_version:
  assumes "releaseSeats t tb seats owner otps l = (Inr x, l')" "(s, u) \<in> set seats" "assertSeatTokenCurrent t u k l"
  shows "assertSeatTokenCurrent t u (k + 1) l'"
proof -
  obtain row p where row: "tour t l = Some row" "find_part u (tParts row) = Some p" "pSeatVersion p = k"
    using assms(3) by (auto simp: seat_token_iff)
  obtain y l1 where l1: "releaseSeats_tx t tb seats l = (Inr y, l1)" "l' = rotate_otps t otps l1"
    using assms(1) by (auto simp: releaseSeats_def Let_def split: sum.splits prod.splits if_splits)
  define f where "f p = (if pUser p \<in> set (map snd seats) then p\<lparr>pStatus := RELEASED, pSeatVersion := pSeatVersion p + 1\<rparr> else p)" for p :: participation
  obtain row1 where row1: "tour t l1 = Some row1" "tParts row1 = map f (tParts row)"
    using l1(1) row(1) by (auto simp: releaseSeats_tx_def Let_def tour_put_tour f_def split: if_splits)
  have f: "pUser (f p) = pUser p" for p by (simp add: f_def)
  have u: "u \<in> set (map snd seats)" "pUser p = u"
    using assms(2) find_part_SomeD[OF row(2)] by (force, simp)
  then have p1: "find_part u (tParts row1) = Some (f p)" "pSeatVersion (f p) = k + 1"
    using row(2,3) unfolding row1(2) find_part_map[OF f] by (simp_all add: f_def)
  define g where "g p = fold (\<lambda>(u, otp) p. if pUser p = u then p\<lparr>pOtp := otp\<rparr> else p) otps p" for p :: participation
  have g: "pUser (g p) = pUser p" "pSeatVersion (g p) = pSeatVersion p" for p :: participation
    unfolding g_def using fold_part_keeps[of "\<lambda>otp p. p\<lparr>pOtp := otp\<rparr>" otps p] by simp_all
  have "tour t l' = Some (row1\<lparr>tParts := map g (tParts row1)\<rparr>)"
    unfolding g_def[abs_def] using row1(1) l1(2) fold_update_map[of "\<lambda>otp p. p\<lparr>pOtp := otp\<rparr>" otps "tParts row1"]
    by (simp add: rotate_otps_def tour_put_tour)
  then show ?thesis using p1 by (simp add: seat_token_iff find_part_map[OF g(1)] g(2))
qed

text \<open>Taking players off their seats ends their seat tokens: after a release none of the tokens that were current is
  ever accepted again, not even when the player comes back.\<close>

theorem release_ends_tokens:
  assumes "releaseSeats t tb seats owner otps l = (Inr x, l')" and "(s, u) \<in> set seats"
    and "assertSeatTokenCurrent t u k l"
  shows "\<not> assertSeatTokenCurrent t u k (ledger_run w l' es)"
  using outdated_stays_dead[OF released_version[OF assms]] by simp

theorem release_ends_tokens_witness:
  "\<exists>l'. releaseSeats ''T'' ''X'' [(0, ''A'')] ''O'' [(''A'', ''Z'')] (demo_ledger demo_start) = (Inr (), l')
     \<and> \<not> assertSeatTokenCurrent ''T'' ''A'' 1 (ledger_run demo_world l' [EvEnter False ''T'' ''X'' 0 ''Z''])"
proof -
  have "fst (releaseSeats ''T'' ''X'' [(0, ''A'')] ''O'' [(''A'', ''Z'')] (demo_ledger demo_start)) = Inr ()" by code_simp
  then obtain l' where c: "releaseSeats ''T'' ''X'' [(0, ''A'')] ''O'' [(''A'', ''Z'')] (demo_ledger demo_start) = (Inr (), l')"
    by (metis prod.collapse)
  have "assertSeatTokenCurrent ''T'' ''A'' 1 (demo_ledger demo_start)" by code_simp
  from release_ends_tokens[OF c _ this, of 0] show ?thesis using c by auto
qed

text \<open>Revoking the dealer's session ends every dealer token of the tournament that was accepted before, at every table
  and for ever; a login afterwards gets a token of a later version.\<close>

theorem dealer_token_revoked:
  assumes "revokeDealerSession t owner l = (Inr x, l')" and "assertDealerSessionValid t tb k l"
  shows "\<not> assertDealerSessionValid t tb' k (ledger_run w l' es)"
proof -
  obtain row where row: "tour t l = Some row" "tDealer row = Some k"
    using assms(2) by (auto simp: assertDealerSessionValid_def split: option.splits)
  then have "tour t l' = Some (row\<lparr>tDealer := Some (k + 1)\<rparr>)"
    using assms(1) by (auto simp: revokeDealerSession_def owned_Inr tour_put_tour split: sum.splits)
  then obtain row' where row': "tour t (ledger_run w l' es) = Some row'"
    "row_versions (row\<lparr>tDealer := Some (k + 1)\<rparr>) row'"
    using run_versions[of l' w es] unfolding versions_def by blast
  then have "\<exists>v. tDealer row' = Some v \<and> k < v \<or> tDealer row' = None"
    unfolding row_versions_def by (auto split: option.splits)
  then show ?thesis using row'(1) by (auto simp: assertDealerSessionValid_def)
qed

theorem dealer_token_revoked_witness:
  "\<exists>l'. revokeDealerSession ''T'' ''O'' (demo_ledger demo_start) = (Inr (), l')
     \<and> \<not> assertDealerSessionValid ''T'' ''X'' 0 (ledger_run demo_world l' [EvStart 2 True 0 ''T'' ''O'', EvLogin ''T'' ''X''])"
proof -
  have "fst (revokeDealerSession ''T'' ''O'' (demo_ledger demo_start)) = Inr ()" by code_simp
  then obtain l' where c: "revokeDealerSession ''T'' ''O'' (demo_ledger demo_start) = (Inr (), l')"
    by (metis prod.collapse)
  have "assertDealerSessionValid ''T'' ''X'' 0 (demo_ledger demo_start)" by code_simp
  from dealer_token_revoked[OF c this] show ?thesis using c by blast
qed

end
