(* ===== verification/TablePlay.thy ===== *)
theory TablePlay
  imports TableEngine Blinds
begin

text \<open>
  One table as the services run it: the snapshot in Redis, the queue of turn timeouts, and who was kicked.
  Modelled from \<open>playsync/playsync.service.ts\<close> (player actions, turn clock, marks for the database and the
  rebuys), \<open>playsync/timeout.processor.ts\<close>, \<open>playsync/turn-clock.ts\<close>, \<open>dealer/dealer.service.ts\<close> (start of a hand,
  fold and kick, winners, resume, end of a hand), \<open>recovery/recovery.service.ts\<close> (\<open>pauseTable\<close>) and the
  snapshot parts of \<open>claimSeat\<close> and \<open>releaseSeats\<close>. Every operation runs inside \<open>mutateSnapshot\<close>: it reads the snapshot
  under the lock of the table and writes the result, or nothing if it throws or declines. The clock, what
  Postgres and the other services say, and whether the queue could remove a job are arguments.
\<close>

section \<open>The table and its queue\<close>

text \<open>A delayed job of the queue; its id is the table's id and the epoch.\<close>

record turn_job =
  jobUser :: string
  jobEpoch :: int
  jobDue :: int

record table_service =
  svState :: "table_state option"
  svJobs :: "turn_job list"
  svKicked :: "string list"
  svUp :: bool
  svLineDown :: bool
  svPauseDue :: bool

text \<open>
  \<open>svUp\<close> is \<open>outage.isUp()\<close> and \<open>svLineDown\<close> the line pause of the tournament. \<open>svPauseDue\<close> holds between
  \<open>markDown\<close> and the end of the freeze that follows it in the same task of the queue of the tournament.
\<close>

definition new_table :: "string \<Rightarrow> table_service" where
  "new_table t = \<lparr>svState = Some (createEmptyTableState t), svJobs = [], svKicked = [], svUp = True,
     svLineDown = False, svPauseDue = False\<rparr>"

datatype service_error =
    ServerRecovering
  | TableNotFound
  | UserNotSeated
  | WaitingForResume
  | EngineRejected engine_error
  | NotStarted
  | OnBreak
  | NotWaiting
  | TargetNotFound
  | NoValidWinner
  | NotHandEnd
  | NotPaused
  | HandRunning
  | SeatsChanged

type_synonym 'a service_result = "(service_error + 'a) \<times> table_service"

definition TURN_TIMEOUT_MS :: int where
  "TURN_TIMEOUT_MS = 30000"

definition TIMEOUT_HOLD_MS :: int where
  "TIMEOUT_HOLD_MS = 2000"

text \<open>\<open>state.timerEpoch ?? 0\<close>.\<close>

definition epoch :: "table_state \<Rightarrow> int" where
  "epoch st = (case timerEpoch st of None \<Rightarrow> 0 | Some e \<Rightarrow> e)"

definition put_state :: "table_state \<Rightarrow> table_service \<Rightarrow> table_service" where
  "put_state st s = s\<lparr>svState := Some st\<rparr>"

section \<open>The turn clock\<close>

definition turnOwner :: "table_state \<Rightarrow> table_player option" where
  "turnOwner st = (if phase st = SHOWDOWN \<or> currentTurnSeatIndex st = -1 then None
                   else seat st (currentTurnSeatIndex st))"

definition planPause :: "table_state \<Rightarrow> int option" where
  "planPause st = (case turnOwner st of None \<Rightarrow> None | Some _ \<Rightarrow> Some (epoch st + 1))"

text \<open>A failure to remove the old job is swallowed (\<open>removed = False\<close>).\<close>

definition removeTimeoutJob :: "bool \<Rightarrow> int \<Rightarrow> turn_job list \<Rightarrow> turn_job list" where
  "removeTimeoutJob removed e js = (if removed then filter (\<lambda>j. jobEpoch j \<noteq> e) js else js)"

text \<open>The queue ignores a job whose id it already holds.\<close>

definition add_job :: "turn_job \<Rightarrow> turn_job list \<Rightarrow> turn_job list" where
  "add_job j js = (if jobEpoch j \<in> jobEpoch ` set js then js else js @ [j])"

definition scheduleTurnTimeout ::
  "bool \<Rightarrow> int \<Rightarrow> table_state \<Rightarrow> turn_job list \<Rightarrow> table_state \<times> turn_job list" where
  "scheduleTurnTimeout removed now st js =
     (let js1 = removeTimeoutJob removed (epoch st) js;
          st1 = st\<lparr>timerEpoch := Some (epoch st + 1)\<rparr>
      in case turnOwner st1 of
           None \<Rightarrow> (st1\<lparr>actionDeadline := None\<rparr>, js1)
         | Some p \<Rightarrow>
             (st1\<lparr>actionDeadline := Some (now + TURN_TIMEOUT_MS)\<rparr>,
              add_job \<lparr>jobUser = player_id p, jobEpoch = epoch st1, jobDue = now + TURN_TIMEOUT_MS\<rparr> js1))"

definition schedule :: "bool \<Rightarrow> int \<Rightarrow> table_state \<Rightarrow> table_service \<Rightarrow> table_service" where
  "schedule removed now st s =
     (case scheduleTurnTimeout removed now st (svJobs s) of
        (st', js) \<Rightarrow> s\<lparr>svState := Some st', svJobs := js\<rparr>)"

section \<open>Player actions\<close>

text \<open>
  The value says whether the action was applied. \<open>expected\<close> is the epoch a timeout job carries. A kicked
  player folds, a player whose deadline has passed is timed out, whatever was asked for.
\<close>

definition handleAction ::
  "bool \<Rightarrow> int \<Rightarrow> string \<Rightarrow> action_type \<Rightarrow> js_number option \<Rightarrow> int option \<Rightarrow> table_service \<Rightarrow> bool service_result" where
  "handleAction removed now u a amt expected s =
     (if \<not> svUp s then (Inl ServerRecovering, s)
      else case svState s of
        None \<Rightarrow> (Inl TableNotFound, s)
      | Some st \<Rightarrow>
        let idx = seat_index_of u st in
        if idx = -1 then (Inl UserNotSeated, s)
        else if a = TIME_OUT \<and> (currentTurnSeatIndex st \<noteq> idx
                \<or> (case expected of None \<Rightarrow> False | Some e \<Rightarrow> e \<noteq> epoch st) \<or> svLineDown s)
        then (Inr False, s)
        else if resumePending st \<noteq> None then (Inl WaitingForResume, s)
        else
          let isExpired = (case actionDeadline st of None \<Rightarrow> False | Some d \<Rightarrow> now > d);
              effectiveAction = (if u \<in> set (svKicked s) then FOLD else if isExpired then TIME_OUT else a);
              effectiveAmount = (if effectiveAction = a then amt else None)
          in (case act idx effectiveAction effectiveAmount st of
                (Inl e, _) \<Rightarrow> (Inl (EngineRejected e), s)
              | (Inr False, _) \<Rightarrow> (Inr False, s)
              | (Inr True, st') \<Rightarrow> (Inr True, schedule removed now st' s)))"

text \<open>
  A job of the queue runs. It is dropped when it no longer fits the snapshot, put back when no dealer
  answers, and otherwise becomes a timeout; the queue forgets it afterwards whether that fails or not.
\<close>

definition forget_job :: "int \<Rightarrow> table_service \<Rightarrow> table_service" where
  "forget_job e s = s\<lparr>svJobs := filter (\<lambda>j. jobEpoch j \<noteq> e) (svJobs s)\<rparr>"

definition process :: "bool \<Rightarrow> int \<Rightarrow> turn_job \<Rightarrow> table_service \<Rightarrow> table_service" where
  "process dealerAlive now j s =
     (case svState s of
        None \<Rightarrow> forget_job (jobEpoch j) s
      | Some st \<Rightarrow>
        if map_option player_id (seat st (currentTurnSeatIndex st)) \<noteq> Some (jobUser j)
           \<or> jobEpoch j \<noteq> epoch st
        then forget_job (jobEpoch j) s
        else if \<not> dealerAlive then
          s\<lparr>svJobs := map (\<lambda>j'. if jobEpoch j' = jobEpoch j then j'\<lparr>jobDue := now + TIMEOUT_HOLD_MS\<rparr> else j') (svJobs s)\<rparr>
        else forget_job (jobEpoch j)
               (snd (handleAction False now (jobUser j) TIME_OUT None (Some (jobEpoch j)) s)))"

definition fire_job :: "bool \<Rightarrow> int \<Rightarrow> int \<Rightarrow> table_service \<Rightarrow> table_service" where
  "fire_job dealerAlive now e s =
     (case List.find (\<lambda>j. jobEpoch j = e) (svJobs s) of None \<Rightarrow> s | Some j \<Rightarrow> process dealerAlive now j s)"

section \<open>The dealer\<close>

text \<open>\<open>blind\<close> is the blind level on the board, if the tournament has started.\<close>

definition dealer_startPreFlop :: "bool \<Rightarrow> int \<Rightarrow> (bool \<times> blind_level) option \<Rightarrow> table_service \<Rightarrow> unit service_result" where
  "dealer_startPreFlop removed now blind s =
     (case blind of
        None \<Rightarrow> (Inl NotStarted, s)
      | Some (isBrk, level) \<Rightarrow>
        if isBrk then (Inl OnBreak, s)
        else (case svState s of
          None \<Rightarrow> (Inl TableNotFound, s)
        | Some st \<Rightarrow>
          if phase st \<noteq> WAITING then (Inl NotWaiting, s)
          else (case startPreFlop (st\<lparr>smallBlind := sb level, ante := deriveAnteAmount (sb level) (hasAnte level)\<rparr>) of
                  Inl e \<Rightarrow> (Inl (EngineRejected e), s)
                | Inr st' \<Rightarrow> (Inr (), schedule removed now st' s))))"

text \<open>Fold or kick of a player by the dealer, behind the guards of the tournament.\<close>

definition handleDealerAction :: "bool \<Rightarrow> int \<Rightarrow> string \<Rightarrow> bool \<Rightarrow> table_service \<Rightarrow> unit service_result" where
  "handleDealerAction removed now target kick s =
     (case svState s of
        None \<Rightarrow> (Inl TableNotFound, s)
      | Some st \<Rightarrow>
        if resumePending st \<noteq> None then (Inl WaitingForResume, s)
        else let idx = seat_index_of target st in
        if idx = -1 then (Inl TargetNotFound, s)
        else (case act idx (if kick then DEALER_KICK else DEALER_FOLD) None st of
                (Inl e, _) \<Rightarrow> (Inl (EngineRejected e), s)
              | (Inr _, st') \<Rightarrow>
                  (Inr (), schedule removed now st'
                     (if kick then s\<lparr>svKicked := target # svKicked s\<rparr> else s))))"

text \<open>The settlement of a hand, the first critical section of \<open>resolveWinners\<close>.\<close>

definition settle_hand :: "string list list \<Rightarrow> table_service \<Rightarrow> unit service_result" where
  "settle_hand winnerGroups s =
     (if winnerGroups = [] \<or> [] \<in> set winnerGroups then (Inl NoValidWinner, s)
      else case svState s of
        None \<Rightarrow> (Inl TableNotFound, s)
      | Some st \<Rightarrow>
        (case resolveWinner winnerGroups st of
           (Inl e, _) \<Rightarrow> (Inl (EngineRejected e), s)
         | (Inr _, st') \<Rightarrow> (Inr (), put_state st' s)))"

text \<open>The players \<open>resolveWinners\<close> asks for a rebuy: out of chips and not kicked.\<close>

definition broke_players :: "table_service \<Rightarrow> string list" where
  "broke_players s =
     (case svState s of
        None \<Rightarrow> []
      | Some st \<Rightarrow> filter (\<lambda>u. u \<notin> set (svKicked s)) (map player_id (filter (\<lambda>p. stack p \<le> 0) (occupants (players st)))))"

text \<open>\<open>finishHand\<close>: only a finished hand is cleared; otherwise nothing is written. The busted players leave,
  and with them their contexts.\<close>

definition finishHand :: "table_service \<Rightarrow> unit service_result" where
  "finishHand s =
     (case svState s of
        None \<Rightarrow> (Inl TableNotFound, s)
      | Some st \<Rightarrow>
        if phase st \<noteq> HAND_END then (Inr (), s)
        else
          let busted = map player_id (filter (\<lambda>p. stack p \<le> 0) (occupants (players st)))
          in (Inr (), (put_state (initTable (st\<lparr>dbSyncStatus := None, rebuyPending := None\<rparr>)) s)
                        \<lparr>svKicked := filter (\<lambda>u. u \<notin> set busted) (svKicked s)\<rparr>))"

text \<open>\<open>retryCheckpoint\<close>: \<open>rebuying\<close> and \<open>saving\<close> are the two in-flight sets, \<open>synced\<close> the outcome of the save.\<close>

definition retryCheckpoint :: "bool \<Rightarrow> bool \<Rightarrow> bool \<Rightarrow> table_service \<Rightarrow> unit service_result" where
  "retryCheckpoint rebuying saving synced s =
     (case svState s of
        None \<Rightarrow> (Inl TableNotFound, s)
      | Some st \<Rightarrow>
        if phase st \<noteq> HAND_END then (Inl NotHandEnd, s)
        else if rebuying \<or> saving then (Inl HandRunning, s)
        else if \<not> synced then (Inr (), s)
        else finishHand s)"

definition resumeTable :: "bool \<Rightarrow> int \<Rightarrow> table_service \<Rightarrow> unit service_result" where
  "resumeTable removed now s =
     (case svState s of
        None \<Rightarrow> (Inl TableNotFound, s)
      | Some st \<Rightarrow>
        if resumePending st = None then (Inl NotPaused, s)
        else (Inr (), schedule removed now (st\<lparr>resumePending := None\<rparr>) s))"

section \<open>Pauses and marks\<close>

text \<open>\<open>overwrite\<close> and \<open>lineDown\<close> are the options of the freeze; \<open>sameOutage\<close> says that no further outage has begun since
  the recovery started (a boot and a line pause do not ask).\<close>

definition pauseTable :: "bool \<Rightarrow> bool \<Rightarrow> bool \<Rightarrow> int \<Rightarrow> table_service \<Rightarrow> table_service" where
  "pauseTable overwrite lineDown sameOutage downTime s =
     (case svState s of
        None \<Rightarrow> s
      | Some st \<Rightarrow>
        (case (if overwrite then None else resumePending st) of
           Some rp \<Rightarrow>
             if pauseReason rp = Some LineDown \<and> \<not> lineDown
             then put_state (st\<lparr>resumePending := Some \<lparr>downMs = downMs rp, pauseReason = None\<rparr>\<rparr>) s
             else s
         | None \<Rightarrow>
             if \<not> sameOutage then s
             else (case planPause st of
                None \<Rightarrow> s
              | Some e \<Rightarrow>
                  put_state (st\<lparr>timerEpoch := Some e, actionDeadline := None,
                    resumePending := Some \<lparr>downMs = downTime,
                      pauseReason = (if lineDown then Some LineDown else None)\<rparr>\<rparr>) s)))"

definition markDbSyncStatus :: "db_sync_status option \<Rightarrow> table_service \<Rightarrow> table_service" where
  "markDbSyncStatus status s =
     (case svState s of None \<Rightarrow> s | Some st \<Rightarrow> put_state (st\<lparr>dbSyncStatus := status\<rparr>) s)"

definition asked_seats :: "string list \<Rightarrow> table_state \<Rightarrow> int list" where
  "asked_seats us st = filter (\<lambda>i. case seat st i of None \<Rightarrow> False | Some p \<Rightarrow> player_id p \<in> set us)
                         (map int [0..<length (players st)])"

definition markRebuyPending :: "string list option \<Rightarrow> int \<Rightarrow> table_service \<Rightarrow> table_service" where
  "markRebuyPending us deadline s =
     (case svState s of
        None \<Rightarrow> s
      | Some st \<Rightarrow>
        (case us of
           None \<Rightarrow> put_state (st\<lparr>rebuyPending := None\<rparr>) s
         | Some asked \<Rightarrow>
             let idx = asked_seats asked st in
             if idx = [] then put_state (st\<lparr>rebuyPending := None\<rparr>) s
             else put_state (st\<lparr>rebuyPending := Some \<lparr>seatIndexes = idx, rebuyDeadline = deadline\<rparr>\<rparr>) s))"

definition markRebuyInterrupted :: "int \<Rightarrow> pause_reason option \<Rightarrow> table_service \<Rightarrow> bool \<times> table_service" where
  "markRebuyInterrupted downTime reason s =
     (case svState s of
        None \<Rightarrow> (False, s)
      | Some st \<Rightarrow>
        (True, put_state (st\<lparr>rebuyPending := None,
           resumePending := (case resumePending st of Some rp \<Rightarrow> Some rp
             | None \<Rightarrow> Some \<lparr>downMs = downTime, pauseReason = reason\<rparr>)\<rparr>) s))"

section \<open>Rebuy chips\<close>

text \<open>The chips of a rebuy go on the table before the money is taken; a failure takes them off again.\<close>

definition give_rebuy :: "string \<Rightarrow> int \<Rightarrow> table_service \<Rightarrow> bool \<times> table_service" where
  "give_rebuy u amt s =
     (case svState s of
        None \<Rightarrow> (False, s)
      | Some st \<Rightarrow>
        if seat_index_of u st = -1 then (False, s) else (True, put_state (applyRebuy u amt st) s))"

definition revertRebuy :: "string \<Rightarrow> int \<Rightarrow> table_service \<Rightarrow> table_service" where
  "revertRebuy u amt s =
     (case svState s of
        None \<Rightarrow> s
      | Some st \<Rightarrow>
        (case seat st (seat_index_of u st) of
           None \<Rightarrow> s
         | Some p \<Rightarrow> if stack p < amt then s
                     else put_state (put_seat (seat_index_of u st) (p\<lparr>stack := stack p - amt\<rparr>) st) s))"

section \<open>Seats\<close>

text \<open>
  The snapshot part of \<open>claimSeat\<close>, for a player who owns the seat in the database and past
  \<open>shouldBlockEmptySnapshot\<close>. A newcomer sits out the hand that is running.
\<close>

definition new_seat :: "string \<Rightarrow> string \<Rightarrow> string \<Rightarrow> int \<Rightarrow> int \<Rightarrow> game_phase \<Rightarrow> table_player" where
  "new_seat u tb nick i chips ph =
     \<lparr>player_id = u, tableId = tb, nickname = nick, seatIndex = i, stack = chips, bet = 0,
      hasFolded = (ph \<noteq> WAITING), hasChecked = False, isAllIn = False, totalContributed = 0\<rparr>"

definition set_seat :: "int \<Rightarrow> table_player option \<Rightarrow> table_state \<Rightarrow> table_state" where
  "set_seat i sp st = st\<lparr>players := (players st)[nat i := sp]\<rparr>"

definition claimSeat :: "string \<Rightarrow> string \<Rightarrow> int \<Rightarrow> string \<Rightarrow> string \<Rightarrow> int \<Rightarrow> table_service \<Rightarrow> table_service" where
  "claimSeat t tb i u nick chips s =
     (let st = (case svState s of None \<Rightarrow> createEmptyTableState t | Some st \<Rightarrow> st);
          s1 = s\<lparr>svKicked := filter (\<lambda>v. v \<noteq> u) (svKicked s)\<rparr>
      in case seat st i of
           Some p \<Rightarrow> if player_id p = u then s1
                     else put_state (set_seat i (Some (new_seat u tb nick i chips (phase st))) st) s1
         | None \<Rightarrow> put_state (set_seat i (Some (new_seat u tb nick i chips (phase st))) st) s1)"

text \<open>The snapshot part of \<open>releaseSeats\<close>.\<close>

definition releaseSeats_snapshot :: "(int \<times> string) list \<Rightarrow> table_service \<Rightarrow> unit service_result" where
  "releaseSeats_snapshot seats s =
     (case svState s of
        None \<Rightarrow> (Inl TableNotFound, s)
      | Some st \<Rightarrow>
        if phase st \<noteq> WAITING then (Inl HandRunning, s)
        else if \<not> list_all (\<lambda>(i, u). map_option player_id (seat st i) = Some u) seats then (Inl SeatsChanged, s)
        else (Inr (), (put_state (fold (\<lambda>(i, u). set_seat i None) seats st) s)
                        \<lparr>svKicked := filter (\<lambda>v. v \<notin> snd ` set seats) (svKicked s)\<rparr>))"

text \<open>\<open>initializeGame\<close> draws the first button among the seats of the table.\<close>

definition draw_button :: "int \<Rightarrow> table_service \<Rightarrow> table_service" where
  "draw_button i s =
     (case svState s of None \<Rightarrow> s | Some st \<Rightarrow> put_state (st\<lparr>buttonUser := i\<rparr>) s)"

section \<open>The table as a machine\<close>

text \<open>
  One event per critical section. The guards of \<open>table_step\<close> say what the callers guarantee: rebuys happen
  between the settlement and the next hand, a seat that the database gives to a player is free in the
  snapshot while a hand runs and the player sits nowhere else, a player sits down with chips, blinds are
  positive, the button is drawn among the seats, and the queue of the tournament ends a line pause only after
  the freeze, and the freeze of a recovery or a line pause reaches the table (\<open>freezeTournament\<close> logs a failure and goes
  on). The gateway takes no command of the dealer while the tournament is paused for its line or for Redis.
\<close>

datatype table_event =
    PlayerAction bool int string action_type "js_number option"
  | JobFires bool int int
  | StartHand bool int "(bool \<times> blind_level) option"
  | DealerActs bool int string bool
  | Winners "string list list"
  | RetryCheckpoint bool bool bool
  | FinishHand
  | Resume bool int
  | BootPause int
  | RedisLost
  | RedisRecovered bool int
  | LineMarked
  | LinePaused int
  | SyncCompleted
  | DbSync "db_sync_status option"
  | RebuyPending "string list option" int
  | RebuyInterrupted int "pause_reason option"
  | RebuyChips string int
  | RebuyReverted string int
  | SeatClaimed string string int string string int
  | SeatsReleased "(int \<times> string) list"
  | ButtonDrawn int

definition at_phase :: "game_phase \<Rightarrow> table_service \<Rightarrow> bool" where
  "at_phase ph s \<longleftrightarrow> (case svState s of None \<Rightarrow> False | Some st \<Rightarrow> phase st = ph)"

definition free_seat :: "string \<Rightarrow> int \<Rightarrow> table_service \<Rightarrow> bool" where
  "free_seat u i s \<longleftrightarrow> (case svState s of None \<Rightarrow> False
     | Some st \<Rightarrow> 0 \<le> i \<and> i < int (length (players st)) \<and> seat_index_of u st \<in> {-1, i}
         \<and> (phase st \<in> {WAITING, HAND_END} \<or> seat st i = None))"

definition dealer_gate :: "table_service \<Rightarrow> bool" where
  "dealer_gate s \<longleftrightarrow> svUp s \<and> \<not> svLineDown s"

fun table_step :: "table_service \<Rightarrow> table_event \<Rightarrow> table_service" where
  "table_step s (PlayerAction removed now u a amt) =
     (if a \<in> {DEALER_FOLD, DEALER_KICK} then s else snd (handleAction removed now u a amt None s))"
| "table_step s (JobFires dealerAlive now e) = fire_job dealerAlive now e s"
| "table_step s (StartHand removed now blind) =
     (if dealer_gate s \<and> (case blind of None \<Rightarrow> True | Some (_, level) \<Rightarrow> 0 < sb level)
      then snd (dealer_startPreFlop removed now blind s) else s)"
| "table_step s (DealerActs removed now u kick) =
     (if dealer_gate s then snd (handleDealerAction removed now u kick s) else s)"
| "table_step s (Winners gs) = (if dealer_gate s then snd (settle_hand gs s) else s)"
| "table_step s (RetryCheckpoint rebuying saving synced) =
     (if dealer_gate s then snd (retryCheckpoint rebuying saving synced s) else s)"
| "table_step s FinishHand = snd (finishHand s)"
| "table_step s (Resume removed now) =
     (if dealer_gate s then snd (resumeTable removed now s) else s)"
| "table_step s (BootPause d) = pauseTable True False True d s"
| "table_step s RedisLost = s\<lparr>svUp := False, svLineDown := False, svPauseDue := False\<rparr>"
| "table_step s (RedisRecovered sameOutage d) =
     (let s' = pauseTable False False sameOutage d s in if sameOutage then s'\<lparr>svUp := True\<rparr> else s')"
| "table_step s LineMarked = (if svUp s then s\<lparr>svLineDown := True, svPauseDue := True\<rparr> else s)"
| "table_step s (LinePaused d) =
     (pauseTable False True True d s)\<lparr>svPauseDue := False\<rparr>"
| "table_step s SyncCompleted = (if svPauseDue s then s else s\<lparr>svLineDown := False\<rparr>)"
| "table_step s (DbSync status) = markDbSyncStatus status s"
| "table_step s (RebuyPending us deadline) = markRebuyPending us deadline s"
| "table_step s (RebuyInterrupted d reason) = snd (markRebuyInterrupted d reason s)"
| "table_step s (RebuyChips u amt) = (if at_phase HAND_END s then snd (give_rebuy u amt s) else s)"
| "table_step s (RebuyReverted u amt) = (if at_phase HAND_END s \<and> 0 < amt then revertRebuy u amt s else s)"
| "table_step s (SeatClaimed t tb i u nick chips) =
     (if free_seat u i s \<and> 0 < chips then claimSeat t tb i u nick chips s else s)"
| "table_step s (SeatsReleased seats) = snd (releaseSeats_snapshot seats s)"
| "table_step s (ButtonDrawn i) =
     (if (case svState s of None \<Rightarrow> False | Some st \<Rightarrow> seat st i \<noteq> None) then draw_button i s else s)"

definition table_run :: "string \<Rightarrow> table_event list \<Rightarrow> table_service" where
  "table_run t es = foldl table_step (new_table t) es"

end
