(* ===== verification/TablePlayProps.thy ===== *)
theory TablePlayProps
  imports TablePlay EngineProps
begin

text \<open>
  What the services guarantee about one table, on top of the engine: who sits where and whose turn it is stay
  consistent, epochs only grow, and the turn clock is never lost.
\<close>

section \<open>What the engine leaves alone\<close>

definition seat_numbers :: "table_state \<Rightarrow> int option list" where
  "seat_numbers st = map (map_option seatIndex) (players st)"

definition same_table :: "table_state \<Rightarrow> table_state \<Rightarrow> bool" where
  "same_table st st' \<longleftrightarrow> ids st' = ids st \<and> timerEpoch st' = timerEpoch st \<and> resumePending st' = resumePending st
     \<and> seat_numbers st' = seat_numbers st \<and> smallBlind st' = smallBlind st \<and> ante st' = ante st
     \<and> actionDeadline st' = actionDeadline st \<and> rebuyPending st' = rebuyPending st \<and> tournamentId st' = tournamentId st"

named_theorems same_tables \<open>operations that keep seats, epoch and pause\<close>

lemma same_table_refl [simp]: "same_table st st"
  by (simp add: same_table_def)

lemma same_table_trans: "same_table a b \<Longrightarrow> same_table b c \<Longrightarrow> same_table a c"
  by (simp add: same_table_def)

lemma same_table_fields [simp]:
  "same_table a (b\<lparr>phase := x1\<rparr>) = same_table a b" "same_table a (b\<lparr>pot := x2\<rparr>) = same_table a b"
  "same_table a (b\<lparr>sidePots := x3\<rparr>) = same_table a b" "same_table a (b\<lparr>currentBet := x4\<rparr>) = same_table a b"
  "same_table a (b\<lparr>lastRaiseSize := x5\<rparr>) = same_table a b" "same_table a (b\<lparr>currentTurnSeatIndex := x6\<rparr>) = same_table a b"
  "same_table a (b\<lparr>buttonUser := x7\<rparr>) = same_table a b"
  by (simp_all add: same_table_def ids_def seat_numbers_def)

lemma same_table_put:
  "same_table a b \<Longrightarrow> seat b i = Some q \<Longrightarrow> player_id p = player_id q \<Longrightarrow> seatIndex p = seatIndex q \<Longrightarrow> same_table a (put_seat i p b)"
  unfolding same_table_def seat_numbers_def by (simp add: ids_put_seat map_put_seat) (simp add: put_seat_def)

lemma same_table_map:
  "(\<And>p. player_id (f p) = player_id p) \<Longrightarrow> (\<And>p. seatIndex (f p) = seatIndex p) \<Longrightarrow> same_table st (st\<lparr>players := map (map_option f) (players st)\<rparr>)"
  by (auto simp: same_table_def ids_def seat_numbers_def option.map_comp comp_def)

lemma seat_pot [simp]: "seat (st\<lparr>pot := x\<rparr>) i = seat st i"
  by (simp add: seat_def)

lemma executeBet_same [same_tables]: "same_table st (executeBet i amt st)"
  by (auto simp: executeBet_def Let_def split: option.splits intro!: same_table_put)

lemma mark_same [same_tables]: "same_table st (mark_checked i st)" "same_table st (mark_folded i st)"
  by (auto simp: mark_checked_def mark_folded_def split: option.splits intro!: same_table_put)

lemma handleCall_same [same_tables]: "same_table st (handleCall i p st)"
  unfolding handleCall_def Let_def by (rule same_table_trans[OF executeBet_same mark_same(1)])

lemma resetChecked_same [same_tables]: "same_table st (resetChecked st)"
  unfolding resetChecked_def by (rule same_table_map) simp_all

lemma raise_bet_same [same_tables]: "same_table st (raise_bet i b m st)"
  using resetChecked_same[of st] by (auto simp: raise_bet_def Let_def split: option.splits)

lemma handleRaise_same: "handleRaise i p b st = Inr st' \<Longrightarrow> same_table st st'"
  by (auto simp: handleRaise_def Let_def split: if_splits
      intro!: same_table_trans[OF same_table_trans[OF executeBet_same raise_bet_same] mark_same(1)])

lemma apply_action_same: "apply_action i p a r st = Inr (Some st') \<Longrightarrow> same_table st st'"
  by (cases a) (auto simp: apply_action_def same_tables handleRaise_same
      split: if_splits option.splits js_number.splits sum.splits)

lemma calculateSidePots_same [same_tables]: "same_table st (calculateSidePots st)"
  by (simp add: calculateSidePots_def Let_def)

lemma enter_phase_same [same_tables]: "same_table st (enter_phase ph st)"
proof -
  have "same_table st (st\<lparr>players := map (map_option clear_round) (players st)\<rparr>)"
    by (rule same_table_map) (simp_all add: clear_round_def)
  then show ?thesis by (simp add: enter_phase_def Let_def same_table_def ids_def seat_numbers_def)
qed

lemma nextPhase_same [same_tables]: "same_table st (nextPhase st)"
  by (simp add: nextPhase_def Let_def same_tables same_table_trans[OF calculateSidePots_same enter_phase_same])

lemma to_showdown_same [same_tables]: "same_table st (to_showdown st)"
  by (simp add: to_showdown_def same_tables)

lemma after_action_same [same_tables]: "same_table st (after_action b st)"
  by (simp add: after_action_def Let_def same_tables)

lemma act_same [same_tables]: "same_table st (snd (act i a r st))"
proof (cases rule: act_cases[of i a r st])
  case (acted p st')
  then show ?thesis using same_table_trans[OF apply_action_same[OF acted(3)] after_action_same] by simp
qed simp_all

lemma same_table_fold: "(\<And>x st. same_table st (f x st)) \<Longrightarrow> same_table st (fold f xs st)"
  by (induction xs arbitrary: st) (auto intro: same_table_trans)

lemma pay_ante_seat_same: "same_table st (pay_ante_seat amt i st)"
  using executeBet_same[of st i amt]
  by (auto simp: pay_ante_seat_def Let_def split: option.splits intro!: same_table_put)

lemma deal_hand_same: "same_table st (deal_hand b s t st)"
proof -
  have blinds: "same_table st (payBlind s t amt st')" if "same_table st st'" for st' amt
    unfolding payBlind_def by (rule same_table_trans[OF same_table_trans[OF that executeBet_same] executeBet_same])
  have antes: "same_table st (payAnte x (st\<lparr>buttonUser := b\<rparr>))" for x
    unfolding payAnte_def by (rule same_table_trans[OF _ same_table_fold[OF pay_ante_seat_same]]) simp
  show ?thesis unfolding deal_hand_def Let_def
    by (auto intro!: same_table_trans[OF _ to_showdown_same] blinds antes)
qed

lemma startPreFlop_same: "startPreFlop st = Inr st' \<Longrightarrow> same_table st st'"
  by (auto simp: startPreFlop_def Let_def deal_hand_same split: if_splits)

lemma refund_same_table [same_tables]: "same_table st (refundUncalledBets st)"
  by (cases rule: refund_cases[of st]) (auto intro: same_table_put simp: seat_def)

lemma give_chips_same: "same_table st (give_chips i n st)"
  by (auto simp: give_chips_def split: option.splits intro!: same_table_put)

lemma pay_order_same: "same_table st (pay_order share remainder order st)"
  by (induction share remainder order st rule: pay_order.induct)
    (auto simp: Let_def intro: same_table_trans give_chips_same)

lemma splitPot_same: "same_table st (splitPot amt ws st)"
  by (simp add: splitPot_def Let_def pay_order_same)

lemma pay_claims_same: "same_table st (pay_claims ranked pots st)"
  unfolding pay_claims_def by (rule same_table_fold) (auto simp: splitPot_same split: option.splits)

lemma resetStatus_same: "same_table st (resetStatus st)"
  unfolding resetStatus_def by (rule same_table_map) simp_all

lemma resolveWinner_same:
  assumes "resolveWinner ranked st = (Inr x, st')"
  shows "same_table st st'"
proof -
  let ?st1 = "calculateSidePots (refundUncalledBets st)"
  have "same_table st (pay_claims ranked (sidePots ?st1) ?st1)"
    by (meson same_tables same_table_trans pay_claims_same)
  then have "same_table st (resetStatus ((pay_claims ranked (sidePots ?st1) ?st1)\<lparr>pot := 0, sidePots := [], phase := HAND_END\<rparr>))"
    by (rule same_table_trans[OF _ same_table_trans[OF _ resetStatus_same]]) simp
  then show ?thesis using assms by (auto simp: resolveWinner_def Let_def split: if_splits)
qed

lemma applyRebuy_same [same_tables]: "same_table st (applyRebuy u amt st)"
  by (auto simp: applyRebuy_def split: option.splits intro!: same_table_put)

section \<open>Who sits where\<close>

definition one_seat :: "table_state \<Rightarrow> bool" where
  "one_seat st \<longleftrightarrow> (\<forall>i j u. slot (ids st) i = Some u \<and> slot (ids st) j = Some u \<longrightarrow> i = j)"

lemma slot_ids: "slot (ids st) i = map_option player_id (seat st i)"
  by (auto simp: slot_def ids_def seat_def)

lemma seat_index_of_known:
  assumes "one_seat st" "seat st i = Some p"
  shows "seat_index_of (player_id p) st = i"
proof -
  have "seat_index_of (player_id p) st \<noteq> -1"
  proof
    assume a: "seat_index_of (player_id p) st = -1"
    have "nat i < length (players st)" "players st ! nat i = Some p"
      using assms(2) by (auto simp: seat_def dest!: slot_SomeD)
    then have "Some p \<in> set (players st)" using nth_mem[of "nat i" "players st"] by simp
    then show False using a unfolding seat_index_of_def find_index_none by fastforce
  qed
  then obtain q where "seat st (seat_index_of (player_id p) st) = Some q" "player_id q = player_id p"
    by (rule seat_index_of_seat)
  then show ?thesis using assms unfolding one_seat_def by (simp add: slot_ids)
qed

definition table_inv :: "table_state \<Rightarrow> bool" where
  "table_inv st \<longleftrightarrow> one_seat st \<and> button_ok st
     \<and> (phase st \<in> set betting_phases \<or> phase st = SHOWDOWN \<longrightarrow> hand_inv st \<and> (\<exists>i. seat st i \<noteq> None))
     \<and> (phase st = WAITING \<longrightarrow> (\<forall>i p. seat st i = Some p \<longrightarrow> ready_player p) \<and> pot st = 0)
     \<and> (phase st = HAND_END \<longrightarrow> pot st = 0)"

lemma same_table_one_seat: "same_table st st' \<Longrightarrow> one_seat st' = one_seat st"
  by (simp add: same_table_def one_seat_def)

lemma same_table_epoch: "same_table st st' \<Longrightarrow> epoch st' = epoch st"
  by (simp add: same_table_def epoch_def)

lemma same_table_seated: "same_table st st' \<Longrightarrow> (seat st' i \<noteq> None) = (seat st i \<noteq> None)"
  by (metis seat_ids same_table_def)

lemma ids_length: "ids st' = ids st \<Longrightarrow> length (players st') = length (players st)"
  by (metis ids_def length_map)

definition betting :: "table_state \<Rightarrow> bool" where
  "betting st \<longleftrightarrow> phase st \<in> set betting_phases"

lemma betting_not: "betting st \<Longrightarrow> phase st \<notin> {WAITING, SHOWDOWN, HAND_END}"
  by (auto simp: betting_def betting_phases_def)

lemma engine_table:
  assumes "engine_inv st" "one_seat st" "\<exists>i. seat st i \<noteq> None"
  shows "table_inv st"
  using assms engine_inv_phase[OF assms(1)]
  by (auto simp: table_inv_def engine_inv_def betting_phases_def)

lemma table_engine: "table_inv st \<Longrightarrow> betting st \<Longrightarrow> engine_inv st"
  by (auto simp: table_inv_def engine_inv_def betting_def)

lemma act_table:
  assumes inv: "table_inv st" and ok: "act i a r st = (Inr True, st')"
  shows "table_inv st'"
proof -
  have "betting st" using ok by (auto simp: act_def betting_def split: option.splits if_splits)
  then have e: "engine_inv st" "\<exists>i. seat st i \<noteq> None" using inv by (auto simp: table_engine table_inv_def betting_def)
  have same: "same_table st st'" using act_same[of st i a r] ok by simp
  have "engine_inv st'" using act_inv[OF e(1), of i a r] ok by simp
  then show ?thesis
    using engine_table same_table_one_seat[OF same] same_table_seated[OF same] e(2) inv by (auto simp: table_inv_def)
qed

lemma start_table:
  assumes inv: "table_inv st" "phase st = WAITING" and blinds: "0 < b" "0 \<le> a"
    and ok: "startPreFlop (st\<lparr>smallBlind := b, ante := a\<rparr>) = Inr st'"
  shows "table_inv st' \<and> epoch st' = epoch st \<and> resumePending st' = resumePending st"
proof -
  let ?st = "st\<lparr>smallBlind := b, ante := a\<rparr>"
  have ready: "table_ready ?st" using inv blinds
    by (auto simp: table_ready_def table_inv_def seat_def button_ok_def)
  have same: "same_table ?st st'" by (rule startPreFlop_same[OF ok])
  have plain: "seat ?st i = seat st i" "ids ?st = ids st" for i by (simp_all add: seat_def ids_def)
  have "\<exists>i. seat st' i \<noteq> None"
  proof -
    have "2 \<le> length (filter (\<lambda>p. \<not> hasFolded p \<and> stack p > 0) (occupants (players ?st)))"
      using ok by (auto simp: startPreFlop_def Let_def split: if_splits)
    from two_active[OF this, of 0] obtain j p where "seat st j = Some p" by (auto simp: seat_def)
    then show ?thesis using same_table_seated[OF same, of j] plain by auto
  qed
  then have "table_inv st'"
    using engine_table[OF startPreFlop_inv[OF ready ok]] same_table_one_seat[OF same] inv
    by (simp add: table_inv_def one_seat_def plain)
  then show ?thesis using same_table_epoch[OF same] same by (simp add: same_table_def epoch_def)
qed

section \<open>The invariant of the service\<close>

definition jobs_ok :: "table_state \<Rightarrow> turn_job list \<Rightarrow> bool" where
  "jobs_ok st js \<longleftrightarrow> (\<forall>j\<in>set js. jobEpoch j \<le> epoch st) \<and> distinct (map jobEpoch js)"

text \<open>A player is on turn and the table is not stopped in any way.\<close>

definition turn_running :: "table_service \<Rightarrow> table_state \<Rightarrow> bool" where
  "turn_running s st \<longleftrightarrow> betting st \<and> resumePending st = None \<and> svUp s \<and> \<not> svLineDown s"

definition live_job :: "table_service \<Rightarrow> table_state \<Rightarrow> turn_job \<Rightarrow> bool" where
  "live_job s st j \<longleftrightarrow> j \<in> set (svJobs s) \<and> jobEpoch j = epoch st
     \<and> map_option player_id (seat st (currentTurnSeatIndex st)) = Some (jobUser j)"

definition service_ok :: "table_service \<Rightarrow> table_state \<Rightarrow> bool" where
  "service_ok s st \<longleftrightarrow> table_inv st \<and> jobs_ok st (svJobs s)
     \<and> (turn_running s st \<longrightarrow> (\<exists>j. live_job s st j))
     \<and> (svLineDown s \<and> \<not> svPauseDue s \<and> betting st \<longrightarrow> resumePending st \<noteq> None)"

definition service_inv :: "table_service \<Rightarrow> bool" where
  "service_inv s \<longleftrightarrow> (\<exists>st. svState s = Some st \<and> service_ok s st)"

lemma service_invI: "svState s = Some st \<Longrightarrow> service_ok s st \<Longrightarrow> service_inv s"
  by (auto simp: service_inv_def)

lemma seat_clock [simp]:
  "seat (st\<lparr>timerEpoch := e\<rparr>) = seat st" "seat (st\<lparr>actionDeadline := d\<rparr>) = seat st"
  "seat (st\<lparr>resumePending := r\<rparr>) = seat st" "seat (st\<lparr>dbSyncStatus := b\<rparr>) = seat st"
  "seat (st\<lparr>rebuyPending := q\<rparr>) = seat st" "seat (st\<lparr>buttonUser := n\<rparr>) = seat st"
  by (auto simp: seat_def)

lemma table_inv_clock [simp]:
  "table_inv (st\<lparr>timerEpoch := e\<rparr>) = table_inv st" "table_inv (st\<lparr>actionDeadline := d\<rparr>) = table_inv st"
  "table_inv (st\<lparr>resumePending := r\<rparr>) = table_inv st" "table_inv (st\<lparr>dbSyncStatus := b\<rparr>) = table_inv st"
  "table_inv (st\<lparr>rebuyPending := q\<rparr>) = table_inv st"
  by (simp_all add: table_inv_def one_seat_def ids_def button_ok_def hand_inv_def seats_ok_def active_at_def
      contributions_def)

lemma turn_seat: "table_inv st \<Longrightarrow> betting st \<Longrightarrow> \<exists>p. seat st (currentTurnSeatIndex st) = Some p"
  by (auto simp: table_inv_def betting_def hand_inv_def active_at_def split: option.splits)

lemma turn_ge: "seat st i = Some p \<Longrightarrow> i \<noteq> -1"
  using seat_bounds[of st i p] by auto

lemma schedule_ok:
  assumes inv: "table_inv st" and jobs: "jobs_ok st (svJobs s)"
    and line: "svLineDown s \<and> \<not> svPauseDue s \<and> betting st \<longrightarrow> resumePending st \<noteq> None"
  shows "service_inv (schedule removed now st s)"
proof -
  define js where "js = removeTimeoutJob removed (epoch st) (svJobs s)"
  define st1 where "st1 = st\<lparr>timerEpoch := Some (epoch st + 1)\<rparr>"
  have js: "\<forall>j\<in>set js. jobEpoch j \<le> epoch st" "distinct (map jobEpoch js)"
    using jobs by (auto simp: js_def removeTimeoutJob_def jobs_ok_def distinct_map_filter)
  have st1: "epoch st1 = epoch st + 1" "table_inv st1" "betting st1 = betting st" "seat st1 = seat st"
    "resumePending st1 = resumePending st" "currentTurnSeatIndex st1 = currentTurnSeatIndex st"
    using inv by (auto simp: st1_def epoch_def betting_def seat_def)
  show ?thesis
  proof (cases "turnOwner st1")
    case None
    then have "\<not> betting st1"
      using turn_seat[OF st1(2)] turn_ge betting_not[of st1] by (auto simp: turnOwner_def split: if_splits)
    then have "service_ok (s\<lparr>svState := Some (st1\<lparr>actionDeadline := None\<rparr>), svJobs := js\<rparr>) (st1\<lparr>actionDeadline := None\<rparr>)"
      using js st1 line
      by (auto simp: service_ok_def jobs_ok_def turn_running_def betting_def epoch_def)
    then show ?thesis using None
      by (intro service_invI[of _ "st1\<lparr>actionDeadline := None\<rparr>"])
        (simp_all add: schedule_def scheduleTurnTimeout_def Let_def js_def st1_def)
  next
    case (Some p)
    define j where "j = \<lparr>jobUser = player_id p, jobEpoch = epoch st1, jobDue = now + TURN_TIMEOUT_MS\<rparr>"
    define st2 where "st2 = st1\<lparr>actionDeadline := Some (now + TURN_TIMEOUT_MS)\<rparr>"
    have st2: "epoch st2 = epoch st + 1" "table_inv st2" "betting st2 = betting st" "seat st2 = seat st"
      "resumePending st2 = resumePending st" "currentTurnSeatIndex st2 = currentTurnSeatIndex st"
      using st1 by (auto simp: st2_def epoch_def betting_def seat_def)
    have add: "add_job j js = js @ [j]" using js(1) st1(1) by (force simp: add_job_def j_def)
    have "seat st (currentTurnSeatIndex st) = Some p" using Some st1 by (auto simp: turnOwner_def split: if_splits)
    then have live: "live_job (s\<lparr>svState := Some st2, svJobs := js @ [j]\<rparr>) st2 j"
      by (simp add: live_job_def st2 j_def st1)
    have "jobs_ok st2 (js @ [j])" using js by (force simp: jobs_ok_def st2 j_def st1)
    then have "service_ok (s\<lparr>svState := Some st2, svJobs := js @ [j]\<rparr>) st2"
      using live st2 line unfolding service_ok_def by auto
    then show ?thesis using Some add
      by (intro service_invI[of _ st2]) (simp_all add: schedule_def scheduleTurnTimeout_def Let_def js_def st1_def st2_def j_def)
  qed
qed

section \<open>Operations that do not move the turn\<close>

lemma epoch_clock [simp]: "epoch (st\<lparr>actionDeadline := d\<rparr>) = epoch st" "epoch (st\<lparr>resumePending := r\<rparr>) = epoch st"
  "epoch (st\<lparr>dbSyncStatus := b\<rparr>) = epoch st" "epoch (st\<lparr>rebuyPending := q\<rparr>) = epoch st"
  "epoch (st\<lparr>buttonUser := n\<rparr>) = epoch st" "epoch (st\<lparr>players := ps\<rparr>) = epoch st"
  by (simp_all add: epoch_def)

lemma put_ok:
  assumes "service_ok s st" "table_inv st'" "epoch st' = epoch st"
    and "betting st' \<Longrightarrow> betting st \<and> map_option player_id (seat st' (currentTurnSeatIndex st'))
           = map_option player_id (seat st (currentTurnSeatIndex st))"
    and "resumePending st' = None \<Longrightarrow> resumePending st = None"
  shows "service_ok (put_state st' s) st'"
proof -
  let ?s = "put_state st' s"
  have run: "turn_running ?s st' \<Longrightarrow> turn_running s st" using assms(4,5) by (simp add: turn_running_def put_state_def)
  have live: "betting st' \<Longrightarrow> live_job ?s st' j = live_job s st j" for j
    using assms(3,4) by (simp add: live_job_def put_state_def)
  have "betting st' \<Longrightarrow> svLineDown s \<and> \<not> svPauseDue s \<Longrightarrow> resumePending st' \<noteq> None"
    using assms(1,4,5) by (metis service_ok_def)
  moreover have "turn_running ?s st' \<Longrightarrow> \<exists>j. live_job ?s st' j"
    using run live assms(1) by (metis service_ok_def turn_running_def)
  ultimately show ?thesis using assms(1-3) by (simp add: service_ok_def put_state_def jobs_ok_def)
qed

lemma kicked_ok [simp]: "service_ok (s\<lparr>svKicked := k\<rparr>) st = service_ok s st"
  "service_ok (s\<lparr>svState := x\<rparr>) st = service_ok s st"
  by (simp_all add: service_ok_def turn_running_def live_job_def)

lemma put_state_kicked: "put_state st (s\<lparr>svKicked := k\<rparr>) = (put_state st s)\<lparr>svKicked := k\<rparr>"
  by (simp add: put_state_def)

lemma service_inv_put: "service_ok (put_state st' s) st' \<Longrightarrow> service_inv (put_state st' s)"
  "service_ok (put_state st' s) st' \<Longrightarrow> service_inv ((put_state st' s)\<lparr>svKicked := k\<rparr>)"
  by (rule service_invI[of _ st'], simp_all add: put_state_def)+

lemma pause_ok:
  assumes s: "service_ok s st" and st: "svState s = Some st"
  obtains st' where "svState (pauseTable ow lnd same d s) = Some st'" "service_ok (pauseTable ow lnd same d s) st'"
    "same \<longrightarrow> betting st' \<longrightarrow> resumePending st' \<noteq> None" "svUp (pauseTable ow lnd same d s) = svUp s"
    "svLineDown (pauseTable ow lnd same d s) = svLineDown s" "svPauseDue (pauseTable ow lnd same d s) = svPauseDue s"
proof (cases "if ow then None else resumePending st")
  case (Some rp)
  define st' where "st' = (if pauseReason rp = Some LineDown \<and> \<not> lnd
    then st\<lparr>resumePending := Some \<lparr>downMs = downMs rp, pauseReason = None\<rparr>\<rparr> else st)"
  have r: "resumePending st \<noteq> None" using Some by (auto split: if_splits)
  have "service_ok (put_state st' s) st'"
    using s r by (intro put_ok[OF s]) (auto simp: st'_def service_ok_def betting_def split: if_split_asm)
  moreover have "pauseTable ow lnd same d s = put_state st' s"
    using Some st by (simp add: pauseTable_def st'_def put_state_def)
  moreover have "resumePending st' \<noteq> None" using r by (simp add: st'_def)
  ultimately show ?thesis using that by (simp add: put_state_def)
next
  case None
  show ?thesis
  proof (cases "turnOwner st")
    case no: None
    then have "\<not> betting st"
      using turn_seat[of st] turn_ge betting_not[of st] s by (auto simp: turnOwner_def service_ok_def split: if_splits)
    moreover have "pauseTable ow lnd same d s = s" using None no st by (simp add: pauseTable_def planPause_def)
    ultimately show ?thesis using that s st by simp
  next
    case (Some p)
    define st' where "st' = st\<lparr>timerEpoch := Some (epoch st + 1), actionDeadline := None,
      resumePending := Some \<lparr>downMs = d, pauseReason = (if lnd then Some LineDown else None)\<rparr>\<rparr>"
    have eq: "pauseTable ow lnd same d s = (if same then put_state st' s else s)"
      using None Some st by (simp add: pauseTable_def planPause_def st'_def)
    have "epoch st' = epoch st + 1" by (simp add: st'_def epoch_def)
    then have ok: "service_ok (put_state st' s) st'"
      using s by (auto simp: service_ok_def put_state_def jobs_ok_def turn_running_def st'_def)
    show ?thesis
    proof (cases same)
      case True
      then show ?thesis using that[of st'] eq ok by (simp add: put_state_def st'_def)
    next
      case False
      then show ?thesis using that[of st] eq s st by simp
    qed
  qed
qed

lemma not_running_ok: "table_inv st \<Longrightarrow> jobs_ok st (svJobs s) \<Longrightarrow> \<not> betting st \<Longrightarrow> service_ok s st"
  by (simp add: service_ok_def turn_running_def)

section \<open>The end of a hand\<close>

lemma fold_button: "(\<And>x st. buttonUser (f x st) = buttonUser st) \<Longrightarrow> buttonUser (fold f xs st) = buttonUser st"
  by (induction xs arbitrary: st) auto

lemma give_chips_button: "buttonUser (give_chips i n st) = buttonUser st"
  by (simp add: give_chips_def split: option.split)

lemma pay_order_button: "buttonUser (pay_order share remainder order st) = buttonUser st"
  by (induction share remainder order st rule: pay_order.induct) (simp_all add: Let_def give_chips_button)

lemma resolveWinner_button:
  assumes "resolveWinner ranked st = (Inr x, st')"
  shows "buttonUser st' = buttonUser st"
proof -
  have c: "buttonUser (pay_claims ranked pots s) = buttonUser s" for pots s
    unfolding pay_claims_def
    by (rule fold_button) (simp add: splitPot_def Let_def pay_order_button split: option.split)
  have "buttonUser (refundUncalledBets st) = buttonUser st"
    by (cases rule: refund_cases[of st]) simp_all
  then show ?thesis using assms
    by (auto simp: resolveWinner_def Let_def resetStatus_def c calculateSidePots_def split: if_splits)
qed

lemma settle_table:
  assumes inv: "table_inv st" and ok: "resolveWinner ranked st = (Inr x, st')"
  shows "table_inv st' \<and> epoch st' = epoch st \<and> \<not> betting st'"
proof -
  have same: "same_table st st'" by (rule resolveWinner_same[OF ok])
  have "phase st' = HAND_END" "pot st' = 0" using resolveWinner_ok[of ranked st st'] ok by auto
  moreover have "button_ok st'"
    using inv resolveWinner_button[OF ok] ids_length[of st' st] same
    by (simp add: button_ok_def table_inv_def same_table_def)
  ultimately show ?thesis
    using same_table_one_seat[OF same] same_table_epoch[OF same] inv
    by (auto simp: table_inv_def betting_def betting_phases_def)
qed

lemma init_seat_Some: "init_seat s = Some p \<longleftrightarrow> (\<exists>q. s = Some q \<and> 0 < stack q \<and> p = q\<lparr>bet := 0,
   totalContributed := 0, hasFolded := False, isAllIn := False, hasChecked := False\<rparr>)"
  by (auto simp: init_seat_def split: option.splits)

lemma seat_init: "seat (initTable st) i = Some p \<Longrightarrow> ready_player p \<and> (\<exists>q. seat st i = Some q \<and> player_id q = player_id p)"
  by (auto simp: seat_def initTable_def slot_def init_seat_Some ready_player_def split: if_splits)

lemma one_seat_sub:
  assumes "one_seat st" "\<And>i p. seat st' i = Some p \<Longrightarrow> \<exists>q. seat st i = Some q \<and> player_id q = player_id p"
  shows "one_seat st'"
  unfolding one_seat_def slot_ids
proof (intro allI impI)
  fix i j u assume a: "map_option player_id (seat st' i) = Some u \<and> map_option player_id (seat st' j) = Some u"
  then obtain p' q' where "seat st' i = Some p'" "player_id p' = u" "seat st' j = Some q'" "player_id q' = u" by auto
  then obtain p q where "seat st i = Some p" "player_id p = u" "seat st j = Some q" "player_id q = u"
    using assms(2)[of i p'] assms(2)[of j q'] by auto
  then show "i = j" using assms(1) unfolding one_seat_def slot_ids by (metis option.map(2))
qed

lemma init_table:
  assumes "table_inv st"
  shows "table_inv (initTable st) \<and> epoch (initTable st) = epoch st \<and> \<not> betting (initTable st)"
proof -
  have f: "phase (initTable st) = WAITING" "pot (initTable st) = 0" "buttonUser (initTable st) = buttonUser st"
    "length (players (initTable st)) = length (players st)" "epoch (initTable st) = epoch st"
    by (simp_all add: initTable_def epoch_def)
  moreover have "one_seat (initTable st)"
    by (rule one_seat_sub[of st]) (use assms seat_init in \<open>auto simp: table_inv_def\<close>)
  moreover have "seat (initTable st) i = Some p \<Longrightarrow> ready_player p" for i p using seat_init by blast
  ultimately show ?thesis using assms by (auto simp: table_inv_def button_ok_def betting_def betting_phases_def)
qed

section \<open>Seats that change hands\<close>

lemma seat_set_seat: "0 \<le> i \<Longrightarrow> i < int (length (players st)) \<Longrightarrow>
    seat (set_seat i sp st) j = (if j = i then sp else seat st j)"
  by (auto simp: seat_def set_seat_def slot_def nat_eq_iff2)

lemma set_seat_fields [simp]: "phase (set_seat i sp st) = phase st" "pot (set_seat i sp st) = pot st"
  "buttonUser (set_seat i sp st) = buttonUser st" "length (players (set_seat i sp st)) = length (players st)"
  "currentBet (set_seat i sp st) = currentBet st" "currentTurnSeatIndex (set_seat i sp st) = currentTurnSeatIndex st"
  "resumePending (set_seat i sp st) = resumePending st" "epoch (set_seat i sp st) = epoch st"
  "betting (set_seat i sp st) = betting st"
  by (simp_all add: set_seat_def epoch_def betting_def)

lemma sum_slots_fill:
  "n < length xs \<Longrightarrow> xs ! n = None \<Longrightarrow> sum_slots f (xs[n := Some q]) = sum_slots f xs + f q"
proof (induction xs arbitrary: n)
  case (Cons s ss)
  then show ?case by (cases n) (auto split: option.splits)
qed simp

lemma contributions_fill:
  assumes "0 \<le> i" "i < int (length (players st))" "seat st i = None"
  shows "contributions (set_seat i (Some p) st) = contributions st + totalContributed p"
proof -
  have "players st ! nat i = None" using assms by (auto simp: seat_def slot_def split: if_splits)
  then show ?thesis using assms by (simp add: contributions_def set_seat_def sum_slots_fill)
qed

lemma claim_one_seat:
  assumes "one_seat st" "0 \<le> i" "i < int (length (players st))" "seat_index_of (player_id p) st \<in> {-1, i}"
  shows "one_seat (set_seat i (Some p) st)"
proof -
  have other: "j = i" if j: "seat st j = Some q" "player_id q = player_id p" for j q
    using seat_index_of_known[OF assms(1) j(1)] j(2) turn_ge[OF j(1)] assms(4) by auto
  show ?thesis
    unfolding one_seat_def slot_ids
  proof (intro allI impI)
    fix a b u
    assume "map_option player_id (seat (set_seat i (Some p) st) a) = Some u
      \<and> map_option player_id (seat (set_seat i (Some p) st) b) = Some u"
    then obtain x y where xy: "seat (set_seat i (Some p) st) a = Some x" "player_id x = u"
      "seat (set_seat i (Some p) st) b = Some y" "player_id y = u" by auto
    note s = seat_set_seat[OF assms(2,3), of "Some p"]
    show "a = b"
    proof (cases "a = i \<or> b = i")
      case True
      then show ?thesis using xy other s by (metis option.inject)
    next
      case False
      then have "slot (ids st) a = Some u" "slot (ids st) b = Some u" using xy s by (auto simp: slot_ids)
      then show ?thesis using assms(1) unfolding one_seat_def by blast
    qed
  qed
qed

lemma hand_bet_nonneg: "hand_inv st \<Longrightarrow> seat st i \<noteq> None \<Longrightarrow> 0 \<le> currentBet st"
  by (fastforce simp: hand_inv_def seats_ok_def player_ok_def)

lemma claim_hand:
  assumes h: "hand_inv st" "\<exists>i. seat st i \<noteq> None" and i: "0 \<le> i" "i < int (length (players st))" "seat st i = None"
    and p: "p = new_seat u tb nick i chips ph" "ph \<noteq> WAITING" "0 < chips"
  shows "hand_inv (set_seat i (Some p) st)"
proof -
  let ?st = "set_seat i (Some p) st"
  have s: "seat ?st j = (if j = i then Some p else seat st j)" for j by (rule seat_set_seat[OF i(1,2)])
  have "0 \<le> currentBet st" using h hand_bet_nonneg by blast
  then have "player_ok (currentBet st) p" using p by (simp add: player_ok_def new_seat_def)
  then have "seats_ok ?st" using h(1) by (auto simp: hand_inv_def seats_ok_def s)
  moreover have "contributions ?st = contributions st" using contributions_fill[OF i, of p] p by (simp add: new_seat_def)
  moreover have "active_at st j \<Longrightarrow> active_at ?st j" for j using i(3) by (auto simp: active_at_def s split: option.splits)
  ultimately show ?thesis using h(1) by (auto simp: hand_inv_def)
qed

lemma claim_table:
  assumes inv: "table_inv st" and i: "0 \<le> i" "i < int (length (players st))" "seat_index_of u st \<in> {-1, i}"
    and free: "phase st \<in> {WAITING, HAND_END} \<or> seat st i = None" and chips: "0 < chips"
  shows "table_inv (set_seat i (Some (new_seat u tb nick i chips (phase st))) st)"
proof -
  let ?p = "new_seat u tb nick i chips (phase st)"
  have s: "seat (set_seat i (Some ?p) st) j = (if j = i then Some ?p else seat st j)" for j by (rule seat_set_seat[OF i(1,2)])
  have one: "one_seat (set_seat i (Some ?p) st)"
    using claim_one_seat[of st i ?p] inv i by (simp add: table_inv_def new_seat_def)
  have hand: "hand_inv (set_seat i (Some ?p) st)" if "phase st \<in> set betting_phases \<or> phase st = SHOWDOWN"
  proof -
    have n: "phase st \<noteq> WAITING" "phase st \<noteq> HAND_END" using that by (auto simp: betting_phases_def)
    then have "seat st i = None" using free by simp
    moreover have "hand_inv st" "\<exists>i. seat st i \<noteq> None" using inv that by (simp_all add: table_inv_def)
    ultimately show ?thesis by (intro claim_hand[OF _ _ i(1,2) _ refl n(1) chips]) simp_all
  qed
  have "phase st = WAITING \<Longrightarrow> ready_player ?p" using chips by (simp add: ready_player_def new_seat_def)
  then have ready: "phase st = WAITING \<Longrightarrow> seat (set_seat i (Some ?p) st) j = Some q \<Longrightarrow> ready_player q" for j q
    using inv unfolding s table_inv_def by (metis option.inject)
  have here: "\<exists>j. seat (set_seat i (Some ?p) st) j \<noteq> None" by (intro exI[of _ i]) (simp add: s)
  have button: "button_ok (set_seat i (Some ?p) st)" using inv by (simp add: table_inv_def button_ok_def)
  show ?thesis
    unfolding table_inv_def set_seat_fields
  proof (intro conjI impI allI)
    show "\<And>j q. phase st = WAITING \<Longrightarrow> seat (set_seat i (Some ?p) st) j = Some q \<Longrightarrow> ready_player q" by (rule ready)
    show "phase st = WAITING \<Longrightarrow> pot st = 0" "phase st = HAND_END \<Longrightarrow> pot st = 0"
      using inv by (simp_all add: table_inv_def)
  qed (rule one button here hand, assumption?)+
qed

lemma claim_ok:
  assumes s: "service_ok s st" and st: "svState s = Some st" and free: "free_seat u i s" "0 < chips"
  shows "service_inv (claimSeat t tb i u nick chips s)"
proof -
  let ?st = "set_seat i (Some (new_seat u tb nick i chips (phase st))) st"
  have i: "0 \<le> i" "i < int (length (players st))" "seat_index_of u st \<in> {-1, i}"
    "phase st \<in> {WAITING, HAND_END} \<or> seat st i = None"
    using free(1) st by (auto simp: free_seat_def)
  have inv: "table_inv st" using s by (simp add: service_ok_def)
  have "service_ok (put_state ?st s) ?st"
  proof (rule put_ok[OF s claim_table[OF inv i free(2)]])
    assume "betting ?st"
    then have b: "betting st" by simp
    then have "seat st i = None" using i(4) betting_not[OF b] by auto
    then have "currentTurnSeatIndex st \<noteq> i" using turn_seat[OF inv b] by auto
    then show "betting st \<and> map_option player_id (seat ?st (currentTurnSeatIndex ?st))
        = map_option player_id (seat st (currentTurnSeatIndex st))"
      using b seat_set_seat[OF i(1,2)] by simp
  qed simp_all
  then have "service_inv ((put_state ?st s)\<lparr>svKicked := k\<rparr>)" for k by (rule service_inv_put(2))
  moreover have "service_inv (s\<lparr>svKicked := k\<rparr>)" for k
    using s st by (intro service_invI[of _ st]) simp_all
  ultimately show ?thesis using st by (auto simp: claimSeat_def Let_def put_state_kicked split: option.splits)
qed

lemma clear_table:
  assumes "table_inv st" "phase st = WAITING"
  shows "table_inv (set_seat i None st) \<and> phase (set_seat i None st) = WAITING"
proof -
  have s: "seat (set_seat i None st) j = Some p \<Longrightarrow> seat st j = Some p" for j p
    by (cases "nat i = nat j") (auto simp: seat_def set_seat_def slot_def split: if_splits)
  have "one_seat (set_seat i None st)"
    by (rule one_seat_sub[of st]) (use assms s in \<open>auto simp: table_inv_def\<close>)
  then show ?thesis using assms s by (auto simp: table_inv_def button_ok_def betting_phases_def)
qed

lemma clear_seats:
  assumes "table_inv st" "phase st = WAITING"
  shows "table_inv (fold (\<lambda>(i, u). set_seat i None) seats st) \<and> phase (fold (\<lambda>(i, u). set_seat i None) seats st) = WAITING
    \<and> epoch (fold (\<lambda>(i, u). set_seat i None) seats st) = epoch st"
  using assms
proof (induction seats arbitrary: st)
  case (Cons x xs)
  obtain i u where x: "x = (i, u)" by fastforce
  show ?case using Cons.IH[of "set_seat i None st"] clear_table[OF Cons.prems, of i] by (simp add: x)
qed simp

lemma release_ok:
  assumes s: "service_ok s st" and st: "svState s = Some st"
  shows "service_inv (snd (releaseSeats_snapshot seats s))"
proof -
  let ?st = "fold (\<lambda>(i, u). set_seat i None) seats st"
  have "service_inv ((put_state ?st s)\<lparr>svKicked := k\<rparr>)" if w: "phase st = WAITING" for k
  proof (rule service_inv_put(2)[OF not_running_ok])
    have c: "table_inv ?st" "phase ?st = WAITING" "epoch ?st = epoch st" using clear_seats[of st seats] s w by (auto simp: service_ok_def)
    show "table_inv ?st" "jobs_ok ?st (svJobs (put_state ?st s))" "\<not> betting ?st"
      using c s by (auto simp: service_ok_def jobs_ok_def put_state_def betting_def betting_phases_def)
  qed
  then show ?thesis using s st by (auto simp: releaseSeats_snapshot_def intro: service_invI)
qed

end
