(* ===== verification/TableService.thy ===== *)
theory TableService
  imports TablePlayProps EngineProgress
begin

text \<open>
  Every operation of the service layer keeps \<open>service_inv\<close>: the seats and the engine's invariant stay consistent,
  the epochs of the queue are distinct and not ahead of the table's, and a player on turn has a live timeout
  whenever the table is running. The last section interprets the invariant machine of the prelude on
  \<open>table_step\<close>.
\<close>

section \<open>Player actions and timeouts\<close>

lemma service_stays: "svState s = Some st \<Longrightarrow> service_inv s \<longleftrightarrow> service_ok s st"
  by (auto simp: service_inv_def)

lemma act_scheduled:
  assumes s: "service_ok s st" and ok: "act i a r st = (Inr True, st')" and running: "resumePending st = None"
    and s': "svJobs s' = svJobs s" "svLineDown s' = svLineDown s" "svPauseDue s' = svPauseDue s"
  shows "service_inv (schedule removed now st' s')"
proof (rule schedule_ok)
  have same: "same_table st st'" using act_same[of st i a r] ok by simp
  have inv: "table_inv st" "jobs_ok st (svJobs s)" using s by (simp_all add: service_ok_def)
  show "table_inv st'" by (rule act_table[OF inv(1) ok])
  show "jobs_ok st' (svJobs s')" using inv(2) same_table_epoch[OF same] s' by (simp add: jobs_ok_def)
  have "betting st" using ok by (auto simp: act_def betting_def split: option.splits if_splits)
  then show "svLineDown s' \<and> \<not> svPauseDue s' \<and> betting st' \<longrightarrow> resumePending st' \<noteq> None"
    using s running s' by (auto simp: service_ok_def)
qed

lemma handleAction_cases:
  obtains (kept) x where "handleAction removed now u a amt expected s = (x, s)" "x \<noteq> Inr True"
  | (acted) st st' i b r where "svState s = Some st" "svUp s" "resumePending st = None"
      "act i b r st = (Inr True, st')" "i = seat_index_of u st"
      "handleAction removed now u a amt expected s = (Inr True, schedule removed now st' s)"
  by (cases rule: prod.exhaust[of "handleAction removed now u a amt expected s"])
    (auto simp: handleAction_def Let_def split: if_splits option.splits sum.splits bool.splits prod.splits)

lemma handleAction_ok: "service_inv s \<Longrightarrow> service_inv (snd (handleAction removed now u a amt expected s))"
proof (cases rule: handleAction_cases[of removed now u a amt expected s])
  case (acted st st' i b r)
  moreover assume "service_inv s"
  ultimately show ?thesis using act_scheduled[of s st i b r st' s] by (simp add: service_stays)
qed simp

text \<open>A job that is not live can be dropped.\<close>

lemma forget_ok:
  assumes s: "service_ok s st" and e: "e \<noteq> epoch st \<or> \<not> turn_running s st"
  shows "service_ok (forget_job e s) st"
proof -
  have "jobs_ok st (svJobs (forget_job e s))"
    using s by (auto simp: service_ok_def jobs_ok_def forget_job_def distinct_map_filter)
  moreover have "turn_running s st \<Longrightarrow> live_job s st j \<Longrightarrow> live_job (forget_job e s) st j" for j
    using e by (auto simp: live_job_def forget_job_def)
  moreover have "turn_running (forget_job e s) st = turn_running s st"
    by (simp add: turn_running_def forget_job_def)
  ultimately show ?thesis using s by (auto simp: service_ok_def forget_job_def)
qed

lemma forget_state [simp]: "svState (forget_job e s) = svState s"
  by (simp add: forget_job_def)

lemma distinct_epochs: "jobs_ok st js \<Longrightarrow> i \<in> set js \<Longrightarrow> j \<in> set js \<Longrightarrow> jobEpoch i = jobEpoch j \<Longrightarrow> i = j"
  by (auto simp: jobs_ok_def distinct_map dest: inj_onD)

lemma held_ok:
  assumes "service_ok s st"
  shows "service_ok (s\<lparr>svJobs := map (\<lambda>j'. if jobEpoch j' = e then j'\<lparr>jobDue := d\<rparr> else j') (svJobs s)\<rparr>) st"
proof -
  let ?f = "\<lambda>j'. if jobEpoch j' = e then j'\<lparr>jobDue := d\<rparr> else j'"
  have f: "jobEpoch (?f j) = jobEpoch j" "jobUser (?f j) = jobUser j" for j by simp_all
  have m: "map jobEpoch (map ?f (svJobs s)) = map jobEpoch (svJobs s)" by simp
  have "jobs_ok st (svJobs s)" using assms by (simp add: service_ok_def)
  then have "jobs_ok st (map ?f (svJobs s))" unfolding jobs_ok_def m by auto
  moreover have "live_job s st j \<Longrightarrow> live_job (s\<lparr>svJobs := map ?f (svJobs s)\<rparr>) st (?f j)" for j
    using f[of j] by (auto simp: live_job_def)
  ultimately show ?thesis using assms by (simp add: service_ok_def turn_running_def) blast
qed

text \<open>The timeout of the player on turn is accepted by the engine, also as the fold of a kicked player.\<close>

lemma timed_out_acts:
  assumes inv: "table_inv st" and b: "betting st" and a: "a = TIME_OUT \<or> a = FOLD"
  shows "\<exists>st'. act (currentTurnSeatIndex st) a None st = (Inr True, st')"
proof -
  obtain p where p: "seat st (currentTurnSeatIndex st) = Some p" using turn_seat[OF inv b] by blast
  have "\<exists>st'. apply_action (currentTurnSeatIndex st) p a None st = Inr (Some st')"
    using a by (auto simp: apply_action_def)
  then show ?thesis using p b by (auto simp: act_def betting_def)
qed

lemma timeout_moves:
  assumes s: "service_ok s st" and st: "svState s = Some st" and run: "turn_running s st"
    and u: "map_option player_id (seat st (currentTurnSeatIndex st)) = Some u"
  shows "\<exists>st'. act (currentTurnSeatIndex st) (if u \<in> set (svKicked s) then FOLD else TIME_OUT) None st = (Inr True, st')
    \<and> handleAction removed now u TIME_OUT None (Some (epoch st)) s = (Inr True, schedule removed now st' s)"
proof -
  let ?b = "if u \<in> set (svKicked s) then FOLD else TIME_OUT"
  have inv: "table_inv st" "betting st" using s run by (simp_all add: service_ok_def turn_running_def)
  obtain p where p: "seat st (currentTurnSeatIndex st) = Some p" "player_id p = u" using u by auto
  have idx: "seat_index_of u st = currentTurnSeatIndex st"
    using seat_index_of_known[of st _ p] inv p by (auto simp: table_inv_def)
  have "idx \<noteq> -1" if "idx = seat_index_of u st" for idx using that idx turn_ge[OF p(1)] by simp
  moreover obtain st' where act: "act (currentTurnSeatIndex st) ?b None st = (Inr True, st')"
    using timed_out_acts[OF inv, of ?b] by (metis (full_types))
  ultimately have "handleAction removed now u TIME_OUT None (Some (epoch st)) s = (Inr True, schedule removed now st' s)"
    using run st idx by (auto simp: handleAction_def Let_def turn_running_def)
  then show ?thesis using act by blast
qed

lemma forget_remove:
  "filter (\<lambda>j. jobEpoch j \<noteq> e) (removeTimeoutJob removed x js) = removeTimeoutJob removed x (filter (\<lambda>j. jobEpoch j \<noteq> e) js)"
  by (simp add: removeTimeoutJob_def conj_commute)

lemma forget_add:
  "jobEpoch k \<noteq> e \<Longrightarrow> filter (\<lambda>j. jobEpoch j \<noteq> e) (add_job k js) = add_job k (filter (\<lambda>j. jobEpoch j \<noteq> e) js)"
  by (auto simp: add_job_def)

lemma forget_schedule:
  assumes "e \<noteq> epoch st + 1"
  shows "forget_job e (schedule removed now st s) = schedule removed now st (forget_job e s)"
proof -
  have n: "epoch (st\<lparr>timerEpoch := Some (epoch st + 1)\<rparr>) = epoch st + 1" by (simp add: epoch_def)
  show ?thesis
    unfolding forget_job_def schedule_def scheduleTurnTimeout_def Let_def
    using assms by (cases "turnOwner (st\<lparr>timerEpoch := Some (epoch st + 1)\<rparr>)") (simp_all add: forget_remove forget_add n)
qed

lemma forget_fields [simp]: "svUp (forget_job e s) = svUp s" "svLineDown (forget_job e s) = svLineDown s"
  "svPauseDue (forget_job e s) = svPauseDue s" "svKicked (forget_job e s) = svKicked s"
  by (simp_all add: forget_job_def)

lemma jobs_forget: "jobs_ok st (svJobs s) \<Longrightarrow> jobs_ok st (svJobs (forget_job e s))"
  by (auto simp: jobs_ok_def forget_job_def distinct_map_filter)

lemma process_ok:
  assumes s: "service_inv s" and j: "j \<in> set (svJobs s)"
  shows "service_inv (process dealerAlive now j s)"
proof -
  obtain st where st: "svState s = Some st" and ok: "service_ok s st" using s by (auto simp: service_inv_def)
  have jobs: "jobs_ok st (svJobs s)" using ok by (simp add: service_ok_def)
  let ?fits = "map_option player_id (seat st (currentTurnSeatIndex st)) = Some (jobUser j) \<and> jobEpoch j = epoch st"
  consider (stale) "\<not> ?fits" | (held) "?fits" "\<not> dealerAlive" | (due) "?fits" dealerAlive by blast
  then show ?thesis
  proof cases
    case stale
    have "jobEpoch j \<noteq> epoch st \<or> \<not> turn_running s st"
    proof (rule ccontr)
      assume a: "\<not> ?thesis"
      then obtain i where "live_job s st i" using ok by (auto simp: service_ok_def)
      then have "i = j" "?fits" using distinct_epochs[OF jobs _ j, of i] a by (auto simp: live_job_def)
      then show False using stale by simp
    qed
    then have "service_ok (forget_job (jobEpoch j) s) st" by (rule forget_ok[OF ok])
    then show ?thesis using stale st by (auto simp: process_def intro: service_invI[of _ st])
  next
    case held
    then show ?thesis
      using held_ok[OF ok, of "jobEpoch j" "now + TIMEOUT_HOLD_MS"] st by (simp add: process_def service_invI[of _ st])
  next
    case due
    let ?r = "handleAction False now (jobUser j) TIME_OUT None (Some (jobEpoch j)) s"
    have p: "process dealerAlive now j s = forget_job (jobEpoch j) (snd ?r)" using due st by (simp add: process_def)
    show ?thesis
    proof (cases rule: handleAction_cases[of False now "jobUser j" TIME_OUT None "Some (jobEpoch j)" s])
      case (kept x)
      have "\<not> turn_running s st"
      proof
        assume "turn_running s st"
        then have "fst ?r = Inr True" using timeout_moves[OF ok st, of "jobUser j" False now] due by fastforce
        then show False using kept by simp
      qed
      then have "service_ok (forget_job (jobEpoch j) s) st" by (intro forget_ok[OF ok]) simp
      then show ?thesis using p kept st by (simp add: service_invI[of _ st])
    next
      case (acted st' st'' i b r)
      have st': "st' = st" using acted(1) st by simp
      have same: "same_table st st''" using act_same[of st i b r] acted(4) st' by simp
      have e: "jobEpoch j \<noteq> epoch st'' + 1" using due same_table_epoch[OF same] by simp
      have "service_inv (schedule False now st'' (forget_job (jobEpoch j) s))"
      proof (rule schedule_ok)
        show "table_inv st''" using act_table[of st i b r st''] ok acted(4) st' by (simp add: service_ok_def)
        show "jobs_ok st'' (svJobs (forget_job (jobEpoch j) s))"
          using jobs_forget[OF jobs] same_table_epoch[OF same] by (simp add: jobs_ok_def)
        have "betting st" using acted(4) st' by (auto simp: act_def betting_def split: option.splits if_splits)
        then show "svLineDown (forget_job (jobEpoch j) s) \<and> \<not> svPauseDue (forget_job (jobEpoch j) s) \<and> betting st''
            \<longrightarrow> resumePending st'' \<noteq> None"
          using ok acted(3) st' by (auto simp: service_ok_def)
      qed
      then show ?thesis using p acted(6) forget_schedule[OF e] by simp
    qed
  qed
qed

lemma fire_ok: "service_inv s \<Longrightarrow> service_inv (fire_job dealerAlive now e s)"
  by (auto simp: fire_job_def find_Some_iff intro: process_ok split: option.splits)

section \<open>The dealer\<close>

lemma antes_nonneg: "0 \<le> b \<Longrightarrow> 0 \<le> deriveAnteAmount b h"
  by (auto simp: deriveAnteAmount_def)

lemma start_ok:
  assumes "service_inv s" "dealer_gate s" "\<And>x level. blind = Some (x, level) \<Longrightarrow> 0 < sb level"
  shows "service_inv (snd (dealer_startPreFlop removed now blind s))"
proof -
  obtain st where st: "svState s = Some st" and ok: "service_ok s st" using assms(1) by (auto simp: service_inv_def)
  have "service_inv (schedule removed now st' s)"
    if "phase st = WAITING" "startPreFlop (st\<lparr>smallBlind := sb level, ante := deriveAnteAmount (sb level) (hasAnte level)\<rparr>) = Inr st'"
      "0 < sb level" for level st'
  proof (rule schedule_ok)
    have inv: "table_inv st" "jobs_ok st (svJobs s)" using ok by (simp_all add: service_ok_def)
    have n: "table_inv st' \<and> epoch st' = epoch st \<and> resumePending st' = resumePending st"
      by (rule start_table[OF inv(1) that(1,3) antes_nonneg that(2)]) (use that(3) in simp)
    then show "table_inv st'" "jobs_ok st' (svJobs s)" using inv by (simp_all add: jobs_ok_def)
    show "svLineDown s \<and> \<not> svPauseDue s \<and> betting st' \<longrightarrow> resumePending st' \<noteq> None"
      using assms(2) by (simp add: dealer_gate_def)
  qed
  then show ?thesis using assms(1,3) st
    by (auto simp: dealer_startPreFlop_def split: option.splits sum.splits)
qed

lemma dealer_acts_ok:
  assumes "service_inv s"
  shows "service_inv (snd (handleDealerAction removed now u kick s))"
proof -
  obtain st where st: "svState s = Some st" and ok: "service_ok s st" using assms by (auto simp: service_inv_def)
  let ?a = "if kick then DEALER_KICK else DEALER_FOLD"
  have b: "b" if "act (seat_index_of u st) ?a None st = (Inr b, st')" for b st'
    using that by (auto simp: act_def apply_action_def split: option.splits if_splits)
  have go: "service_inv (schedule removed now st' s')"
    if "act (seat_index_of u st) ?a None st = (Inr b, st')" "resumePending st = None"
      "svJobs s' = svJobs s" "svLineDown s' = svLineDown s" "svPauseDue s' = svPauseDue s" for b st' s'
    using act_scheduled[OF ok, of "seat_index_of u st" ?a None st' s'] that b[OF that(1)] by simp
  then show ?thesis using assms st
    by (auto simp: handleDealerAction_def Let_def split: sum.splits prod.splits)
qed

lemma settle_ok: "service_inv s \<Longrightarrow> service_inv (snd (settle_hand gs s))"
proof -
  assume inv: "service_inv s"
  then obtain st where st: "svState s = Some st" and ok: "service_ok s st" by (auto simp: service_inv_def)
  have "service_inv (put_state st' s)" if "resolveWinner gs st = (Inr x, st')" for x st'
  proof -
    have t: "table_inv st' \<and> epoch st' = epoch st \<and> \<not> betting st'"
      by (rule settle_table[OF _ that]) (use ok in \<open>simp add: service_ok_def\<close>)
    have "service_ok (put_state st' s) st'"
      by (rule not_running_ok) (use t ok in \<open>simp_all add: service_ok_def put_state_def jobs_ok_def\<close>)
    then show ?thesis by (rule service_inv_put)
  qed
  then show ?thesis using inv st by (auto simp: settle_hand_def split: sum.splits prod.splits)
qed

lemma finish_ok: "service_inv s \<Longrightarrow> service_inv (snd (finishHand s))"
proof -
  assume inv: "service_inv s"
  then obtain st where st: "svState s = Some st" and ok: "service_ok s st" by (auto simp: service_inv_def)
  define st' where "st' = initTable (st\<lparr>dbSyncStatus := None, rebuyPending := None\<rparr>)"
  have t: "table_inv st' \<and> epoch st' = epoch st \<and> \<not> betting st'"
    using init_table[of "st\<lparr>dbSyncStatus := None, rebuyPending := None\<rparr>"] ok by (simp add: st'_def service_ok_def)
  have "service_ok (put_state st' s) st'"
    by (rule not_running_ok) (use t ok in \<open>simp_all add: service_ok_def put_state_def jobs_ok_def\<close>)
  then have "service_inv ((put_state st' s)\<lparr>svKicked := k\<rparr>)" for k by (rule service_inv_put(2))
  then show ?thesis using inv st by (simp add: finishHand_def Let_def st'_def)
qed

lemma retry_ok: "service_inv s \<Longrightarrow> service_inv (snd (retryCheckpoint rebuying saving synced s))"
  using finish_ok[of s] by (auto simp: retryCheckpoint_def split: option.splits)

lemma resume_ok:
  assumes "service_inv s" "dealer_gate s"
  shows "service_inv (snd (resumeTable removed now s))"
proof -
  obtain st where st: "svState s = Some st" and ok: "service_ok s st" using assms(1) by (auto simp: service_inv_def)
  have "service_inv (schedule removed now (st\<lparr>resumePending := None\<rparr>) s)"
    by (rule schedule_ok) (use ok assms(2) in \<open>simp_all add: service_ok_def jobs_ok_def dealer_gate_def\<close>)
  then show ?thesis using assms(1) st by (simp add: resumeTable_def)
qed

section \<open>Marks, rebuys, seats and the state of the infrastructure\<close>

lemma put_inv:
  assumes "service_inv s" "\<And>st. svState s = Some st \<Longrightarrow> service_ok s st \<Longrightarrow> service_ok (put_state (f st) s) (f st)"
  shows "service_inv (case svState s of None \<Rightarrow> s | Some st \<Rightarrow> put_state (f st) s)"
  using assms by (auto simp: service_inv_def put_state_def)

lemma mark_ok:
  assumes "service_ok s st"
    "table_inv st' = table_inv st" "epoch st' = epoch st" "betting st' = betting st" "seat st' = seat st"
    "currentTurnSeatIndex st' = currentTurnSeatIndex st" "resumePending st' = None \<Longrightarrow> resumePending st = None"
  shows "service_ok (put_state st' s) st'"
  by (rule put_ok[OF assms(1)]) (use assms in \<open>auto simp: service_ok_def\<close>)

lemma betting_marks [simp]: "betting (st\<lparr>dbSyncStatus := b\<rparr>) = betting st" "betting (st\<lparr>rebuyPending := r\<rparr>) = betting st"
  "betting (st\<lparr>resumePending := q\<rparr>) = betting st" "betting (st\<lparr>buttonUser := i\<rparr>) = betting st"
  by (simp_all add: betting_def)

lemma db_sync_ok: "service_inv s \<Longrightarrow> service_inv (markDbSyncStatus status s)"
  unfolding markDbSyncStatus_def by (rule put_inv) (auto intro!: mark_ok)

lemma rebuy_pending_ok: "service_inv s \<Longrightarrow> service_inv (markRebuyPending us deadline s)"
  unfolding service_inv_def[of s]
  by (auto simp: markRebuyPending_def Let_def intro!: service_inv_put mark_ok split: option.splits)

lemma rebuy_interrupted_ok: "service_inv s \<Longrightarrow> service_inv (snd (markRebuyInterrupted d reason s))"
  unfolding service_inv_def[of s]
  by (auto simp: markRebuyInterrupted_def intro!: service_inv_put mark_ok split: option.splits)

lemma hand_end_put:
  assumes "service_ok s st" "phase st = HAND_END" "same_table st st'" "phase st' = HAND_END" "pot st' = pot st"
    "buttonUser st' = buttonUser st"
  shows "service_ok (put_state st' s) st'"
proof (rule not_running_ok)
  show "table_inv st'"
    using assms same_table_one_seat[OF assms(3)] ids_length[of st' st]
    by (auto simp: table_inv_def service_ok_def betting_phases_def button_ok_def same_table_def)
  show "jobs_ok st' (svJobs (put_state st' s))"
    using assms(1) same_table_epoch[OF assms(3)] by (simp add: service_ok_def jobs_ok_def put_state_def)
  show "\<not> betting st'" using assms(4) betting_not[of st'] by auto
qed

lemma applyRebuy_fields [simp]: "phase (applyRebuy u amt st) = phase st" "pot (applyRebuy u amt st) = pot st"
  "buttonUser (applyRebuy u amt st) = buttonUser st"
  by (simp_all add: applyRebuy_def split: option.split)

lemma give_ok: "service_inv s \<Longrightarrow> at_phase HAND_END s \<Longrightarrow> service_inv (snd (give_rebuy u amt s))"
  unfolding service_inv_def[of s]
  by (auto simp: give_rebuy_def at_phase_def applyRebuy_same intro!: service_inv_put hand_end_put intro: service_invI)

lemma revert_ok: "service_inv s \<Longrightarrow> at_phase HAND_END s \<Longrightarrow> service_inv (revertRebuy u amt s)"
  unfolding service_inv_def[of s]
  by (auto simp: revertRebuy_def at_phase_def intro!: service_inv_put hand_end_put same_table_put
      intro: service_invI split: option.splits)

lemma button_drawn_ok:
  assumes "service_inv s" "\<And>st. svState s = Some st \<Longrightarrow> seat st i \<noteq> None"
  shows "service_inv (draw_button i s)"
  unfolding draw_button_def
proof (rule put_inv[OF assms(1)])
  fix st assume st: "svState s = Some st" and ok: "service_ok s st"
  obtain p where "seat st i = Some p" using assms(2)[OF st] by blast
  then have "0 \<le> i \<and> i < int (length (players st))" by (rule seat_bounds)
  then have "table_inv (st\<lparr>buttonUser := i\<rparr>)"
    using ok by (auto simp: service_ok_def table_inv_def one_seat_def ids_def button_ok_def hand_inv_def seats_ok_def
        active_at_def contributions_def)
  then show "service_ok (put_state (st\<lparr>buttonUser := i\<rparr>) s) (st\<lparr>buttonUser := i\<rparr>)"
    by (intro put_ok[OF ok]) simp_all
qed

lemma pause_inv: "service_inv s \<Longrightarrow> service_inv (pauseTable ow lnd same d s)"
  by (metis pause_ok service_inv_def)

lemma line_paused_ok: "service_inv s \<Longrightarrow> service_inv ((pauseTable False True True d s)\<lparr>svPauseDue := False\<rparr>)"
proof -
  assume "service_inv s"
  then obtain st where st: "svState s = Some st" and ok: "service_ok s st" by (auto simp: service_inv_def)
  obtain st' where st': "svState (pauseTable False True True d s) = Some st'" "service_ok (pauseTable False True True d s) st'"
    "True \<longrightarrow> betting st' \<longrightarrow> resumePending st' \<noteq> None"
    by (rule pause_ok[OF ok st, of False True True d])
  then have "service_ok ((pauseTable False True True d s)\<lparr>svPauseDue := False\<rparr>) st'"
    by (auto simp: service_ok_def turn_running_def live_job_def)
  then show ?thesis using st'(1) by (intro service_invI[of _ st']) simp_all
qed

lemma recovered_ok: "service_inv s \<Longrightarrow> service_inv ((pauseTable False False True d s)\<lparr>svUp := True\<rparr>)"
proof -
  assume "service_inv s"
  then obtain st where st: "svState s = Some st" and ok: "service_ok s st" by (auto simp: service_inv_def)
  obtain st' where st': "svState (pauseTable False False True d s) = Some st'" "service_ok (pauseTable False False True d s) st'"
    "True \<longrightarrow> betting st' \<longrightarrow> resumePending st' \<noteq> None"
    by (rule pause_ok[OF ok st, of False False True d])
  then have "service_ok ((pauseTable False False True d s)\<lparr>svUp := True\<rparr>) st'"
    by (auto simp: service_ok_def turn_running_def live_job_def)
  then show ?thesis using st'(1) by (intro service_invI[of _ st']) simp_all
qed

lemma infrastructure_ok:
  assumes "service_inv s"
  shows "service_inv (s\<lparr>svUp := False, svLineDown := False, svPauseDue := False\<rparr>)"
    "service_inv (s\<lparr>svLineDown := True, svPauseDue := True\<rparr>)"
    "\<not> svPauseDue s \<Longrightarrow> service_inv (s\<lparr>svLineDown := False\<rparr>)"
proof -
  obtain st where st: "svState s = Some st" and ok: "service_ok s st" using assms by (auto simp: service_inv_def)
  note [simp] = turn_running_def live_job_def
  show "service_inv (s\<lparr>svUp := False, svLineDown := False, svPauseDue := False\<rparr>)"
    "service_inv (s\<lparr>svLineDown := True, svPauseDue := True\<rparr>)"
    "\<not> svPauseDue s \<Longrightarrow> service_inv (s\<lparr>svLineDown := False\<rparr>)"
    using st ok by (auto simp: service_ok_def intro!: service_invI[of _ st])
qed

section \<open>The machine\<close>

lemma new_table_inv: "service_inv (new_table t)"
proof (rule service_invI)
  show "svState (new_table t) = Some (createEmptyTableState t)" by (simp add: new_table_def)
  have s: "seat (createEmptyTableState t) i = None" for i
    by (auto simp: seat_def createEmptyTableState_def slot_def)
  then have "table_inv (createEmptyTableState t)"
    by (auto simp: table_inv_def one_seat_def slot_ids button_ok_def createEmptyTableState_def betting_phases_def SEAT_COUNT_def)
  then show "service_ok (new_table t) (createEmptyTableState t)"
    by (intro not_running_ok) (auto simp: jobs_ok_def new_table_def betting_def betting_phases_def createEmptyTableState_def)
qed

lemma table_step_inv: "service_inv s \<Longrightarrow> service_inv (table_step s e)"
proof (cases e)
  case (StartHand removed now blind)
  assume "service_inv s"
  then show ?thesis using StartHand start_ok[of s blind removed now] by (auto split: option.splits)
next
  case (SeatClaimed t tb i u nick chips)
  assume "service_inv s"
  then show ?thesis using SeatClaimed claim_ok[of s _ u i chips t tb nick] by (auto simp: service_inv_def[of s])
next
  case (SeatsReleased seats)
  assume "service_inv s"
  then show ?thesis using SeatsReleased release_ok[of s _ seats] by (auto simp: service_inv_def[of s])
next
  case (RedisRecovered sameOutage d)
  assume "service_inv s"
  then show ?thesis using RedisRecovered recovered_ok[of s d] pause_inv[of s False False False d]
    by (cases sameOutage) (simp_all add: Let_def)
next
  case (ButtonDrawn i)
  assume "service_inv s"
  then show ?thesis using ButtonDrawn button_drawn_ok[of s i] by (auto split: option.splits)
qed (simp_all add: handleAction_ok fire_ok dealer_acts_ok settle_ok finish_ok retry_ok resume_ok db_sync_ok
  rebuy_pending_ok rebuy_interrupted_ok give_ok revert_ok pause_inv line_paused_ok recovered_ok infrastructure_ok)

interpretation table_service_run: invariant_machine table_step service_inv
  by unfold_locales (rule table_step_inv)

lemma table_run_inv: "service_inv (table_run t es)"
  unfolding table_run_def by (rule table_service_run.run_inv[OF new_table_inv])

section \<open>Facts about the clock\<close>

lemma filter_unique_key:
  assumes "j \<in> set js" "distinct (map f js)" "f j = k"
  shows "filter (\<lambda>i. f i = k) js = [j]"
  using assms(1,2)
proof (induction js)
  case (Cons i js)
  have "filter (\<lambda>x. f x = f i) js = []" using Cons.prems(2) by (auto simp: filter_empty_conv image_iff)
  then show ?case using Cons assms(3) by auto
qed simp

lemma find_unique: "filter P xs = [x] \<Longrightarrow> List.find P xs = Some x"
  by (induction xs) (auto split: if_splits)

lemma fire_job_live:
  assumes "service_ok s st" "live_job s st j"
  shows "fire_job alive now (epoch st) s = process alive now j s"
proof -
  have "filter (\<lambda>i. jobEpoch i = epoch st) (svJobs s) = [j]"
    using assms by (intro filter_unique_key) (auto simp: live_job_def service_ok_def jobs_ok_def)
  then have "List.find (\<lambda>i. jobEpoch i = epoch st) (svJobs s) = Some j" by (rule find_unique)
  then show ?thesis by (simp add: fire_job_def)
qed

lemma schedule_epoch: "map_option epoch (svState (schedule removed now st s)) = Some (epoch st + 1)"
  by (simp add: schedule_def scheduleTurnTimeout_def Let_def epoch_def split: option.split)

lemma schedule_jobs:
  "j \<in> set (svJobs (schedule removed now st s)) \<Longrightarrow> j \<in> set (svJobs s) \<or> jobEpoch j = epoch st + 1"
  by (auto simp: schedule_def scheduleTurnTimeout_def Let_def epoch_def add_job_def removeTimeoutJob_def
      split: option.splits if_splits)

section \<open>The clock alone finishes a hand\<close>

text \<open>\<open>clock_run f n s\<close>: the live job fires \<open>n\<close> times, the \<open>k\<close>-th time at \<open>f k\<close>, with a live dealer and nobody acting.\<close>

definition clock_tick :: "int \<Rightarrow> table_service \<Rightarrow> table_service" where
  "clock_tick now s = (case svState s of None \<Rightarrow> s | Some st \<Rightarrow> fire_job True now (epoch st) s)"

fun clock_run :: "(nat \<Rightarrow> int) \<Rightarrow> nat \<Rightarrow> table_service \<Rightarrow> table_service" where
  "clock_run f 0 s = s"
| "clock_run f (Suc n) s = clock_run (\<lambda>k. f (Suc k)) n (clock_tick (f 0) s)"

lemma fold_decreases:
  assumes inv: "engine_inv st" "phase st \<in> set betting_phases"
    and act: "act (currentTurnSeatIndex st) FOLD None st = (Inr True, st')" "phase st' \<noteq> SHOWDOWN"
  shows "(st', st) \<in> hand_order"
proof -
  let ?t = "currentTurnSeatIndex st"
  obtain p where p: "seat st ?t = Some p" "active_seat p" by (rule timeout_step_acts[OF inv])
  let ?st1 = "mark_folded ?t st"
  have st': "st' = after_action True ?st1"
    using act(1) p inv(2) by (auto simp: act_def apply_action_def active_seat_def)
  have live: "live_count ?st1 < live_count st" using mark_folded_live[OF p(1)] p(2) by (simp add: active_seat_def)
  have "phase ?st1 = phase st" "rounds_left ?st1 = rounds_left st" by (simp_all add: rounds_left_def)
  then show ?thesis
    using after_action_progress[of ?st1] inv(2) act(2) st' live by (auto simp: hand_order_def)
qed

lemma hand_order_clock:
  "((st'\<lparr>timerEpoch := e, actionDeadline := d\<rparr>, st) \<in> hand_order) = ((st', st) \<in> hand_order)"
proof -
  have o: "owing_at (st'\<lparr>timerEpoch := e, actionDeadline := d\<rparr>) i = owing_at st' i" for i
    by (simp add: owing_at_def split: option.split)
  have "rounds_left (st'\<lparr>timerEpoch := e, actionDeadline := d\<rparr>) = rounds_left st'"
    "live_count (st'\<lparr>timerEpoch := e, actionDeadline := d\<rparr>) = live_count st'"
    "owing_count (st'\<lparr>timerEpoch := e, actionDeadline := d\<rparr>) = owing_count st'"
    "turn_gap (st'\<lparr>timerEpoch := e, actionDeadline := d\<rparr>) = turn_gap st'"
    by (simp_all add: rounds_left_def live_count_def owing_count_def turn_gap_def o)
  then show ?thesis by (simp add: hand_order_def)
qed

lemma schedule_state:
  obtains e d where "svState (schedule removed now st s) = Some (st\<lparr>timerEpoch := e, actionDeadline := d\<rparr>)"
  by (cases "turnOwner (st\<lparr>timerEpoch := Some (epoch st + 1)\<rparr>)")
    (simp_all add: schedule_def scheduleTurnTimeout_def Let_def)

lemma schedule_flags [simp]:
  "svUp (schedule removed now st s) = svUp s" "svLineDown (schedule removed now st s) = svLineDown s"
  "svPauseDue (schedule removed now st s) = svPauseDue s" "svKicked (schedule removed now st s) = svKicked s"
  by (simp_all add: schedule_def split: prod.split)

text \<open>What the timeout of the current epoch does at a running table.\<close>

lemma live_fire:
  assumes ok: "service_ok s st" and st: "svState s = Some st" and run: "turn_running s st"
  obtains u st' where "map_option player_id (seat st (currentTurnSeatIndex st)) = Some u"
    "act (currentTurnSeatIndex st) (if u \<in> set (svKicked s) then FOLD else TIME_OUT) None st = (Inr True, st')"
    "epoch st' = epoch st" "same_table st st'"
    "fire_job True now (epoch st) s = schedule False now st' (forget_job (epoch st) s)"
proof -
  obtain j where j: "live_job s st j" using ok run by (auto simp: service_ok_def)
  then have u: "map_option player_id (seat st (currentTurnSeatIndex st)) = Some (jobUser j)" and e: "jobEpoch j = epoch st"
    by (simp_all add: live_job_def)
  obtain st1 where st1: "act (currentTurnSeatIndex st) (if jobUser j \<in> set (svKicked s) then FOLD else TIME_OUT) None st = (Inr True, st1)"
    "handleAction False now (jobUser j) TIME_OUT None (Some (epoch st)) s = (Inr True, schedule False now st1 s)"
    using timeout_moves[OF ok st run u] by blast
  have same: "same_table st st1" using act_same[of st "currentTurnSeatIndex st"] st1(1) by (metis snd_conv)
  have e1: "epoch st1 = epoch st" by (rule same_table_epoch[OF same])
  have "fire_job True now (epoch st) s = forget_job (epoch st) (schedule False now st1 s)"
    unfolding fire_job_live[OF ok j] process_def using st u e st1(2) by simp
  then show ?thesis using that[OF u st1(1) e1 same] forget_schedule[of "epoch st" st1 False now s] e1 by simp
qed

lemma clock_tick_progress:
  assumes ok: "service_ok s st" and st: "svState s = Some st" and run: "turn_running s st"
  obtains st' where "svState (clock_tick now s) = Some st'" "service_ok (clock_tick now s) st'"
    "phase st' = SHOWDOWN \<or> turn_running (clock_tick now s) st' \<and> (st', st) \<in> hand_order"
proof -
  have inv: "table_inv st" and b: "betting st" using ok run by (simp_all add: service_ok_def turn_running_def)
  have e: "engine_inv st" by (rule table_engine[OF inv b])
  have ph: "phase st \<in> set betting_phases" using b by (simp add: betting_def)
  obtain u st1 where st1: "act (currentTurnSeatIndex st) (if u \<in> set (svKicked s) then FOLD else TIME_OUT) None st = (Inr True, st1)"
    "epoch st1 = epoch st" "fire_job True now (epoch st) s = schedule False now st1 (forget_job (epoch st) s)"
    and same: "same_table st st1"
    by (rule live_fire[OF ok st run])
  have tick: "clock_tick now s = schedule False now st1 (forget_job (epoch st) s)"
    using st st1(3) by (simp add: clock_tick_def)
  obtain x d where x: "svState (clock_tick now s) = Some (st1\<lparr>timerEpoch := x, actionDeadline := d\<rparr>)"
    unfolding tick by (rule schedule_state)
  have "service_inv (clock_tick now s)"
    using fire_ok[of s True now "epoch st"] ok st by (simp add: clock_tick_def service_stays)
  then have ok': "service_ok (clock_tick now s) (st1\<lparr>timerEpoch := x, actionDeadline := d\<rparr>)" using x by (simp add: service_stays)
  have inv1: "engine_inv st1" using act_inv[OF e, of "currentTurnSeatIndex st"] st1(1) by (metis snd_conv)
  have less: "(st1, st) \<in> hand_order" if "phase st1 \<noteq> SHOWDOWN"
  proof (cases "u \<in> set (svKicked s)")
    case True
    then show ?thesis using fold_decreases[OF e ph, of st1] st1(1) that by simp
  next
    case False
    then have "timeout_step st = st1" using st1(1) by (simp add: timeout_step_def)
    then show ?thesis using timeout_decreases[OF e ph] that by simp
  qed
  have "turn_running (clock_tick now s) (st1\<lparr>timerEpoch := x, actionDeadline := d\<rparr>)" if "phase st1 \<noteq> SHOWDOWN"
    using that engine_inv_phase[OF inv1] run same unfolding tick
    by (auto simp: turn_running_def betting_def same_table_def)
  then show ?thesis using that[OF x ok'] less hand_order_clock by auto
qed

lemma clock_finishes:
  "service_ok s st \<Longrightarrow> svState s = Some st \<Longrightarrow> turn_running s st
    \<Longrightarrow> \<exists>n st'. svState (clock_run f n s) = Some st' \<and> phase st' = SHOWDOWN"
proof (induction st arbitrary: s f rule: wf_induct_rule[OF wf_hand_order])
  case (1 st)
  obtain st' where st': "svState (clock_tick (f 0) s) = Some st'" "service_ok (clock_tick (f 0) s) st'"
    "phase st' = SHOWDOWN \<or> turn_running (clock_tick (f 0) s) st' \<and> (st', st) \<in> hand_order"
    by (rule clock_tick_progress[OF 1(2-4)])
  show ?case
  proof (cases "phase st' = SHOWDOWN")
    case True
    then have "svState (clock_run f 1 s) = Some st' \<and> phase st' = SHOWDOWN" using st'(1) by simp
    then show ?thesis by blast
  next
    case False
    then obtain n st'' where "svState (clock_run (\<lambda>k. f (Suc k)) n (clock_tick (f 0) s)) = Some st''" "phase st'' = SHOWDOWN"
      using 1(1)[of st' "clock_tick (f 0) s" "\<lambda>k. f (Suc k)"] st' by blast
    then have "svState (clock_run f (Suc n) s) = Some st'' \<and> phase st'' = SHOWDOWN" by simp
    then show ?thesis by blast
  qed
qed

end
