(* ===== verification/Rebuy.thy ===== *)
theory Rebuy
  imports TablePlayProps LedgerProps
begin

text \<open>
  A rebuy from the question to the money (\<open>processRebuy\<close>, \<open>waitForRebuyResponse\<close>, \<open>revertRebuy\<close> of
  \<open>playsync/playsync.service.ts\<close> and the loop of \<open>askRebuys\<close> in \<open>dealer/dealer.service.ts\<close>). It joins the snapshot of
  the table (\<open>TablePlay\<close>) with the database (\<open>Ledger\<close>): the chips go on the table first, then the money is
  taken; if the money cannot be taken the chips come off again. Which attempts of the database fail for a passing
  reason, how the write of the snapshot ends and what the player answers are arguments. An attempt that fails
  is taken not to have committed.
\<close>

section \<open>Waiting for the answer\<close>

datatype rebuy_answer = Accepted | Declined | TimedOut | AnswerInterrupted | AnswerDealerSilent

text \<open>
  What can end the wait: the player's answer, the deadline (with what the dealer's device said, or the question to it
  failing), the fall of Redis, the fall of the line, a prompt that cannot be sent. The first one settles it.
\<close>

datatype rebuy_signal = Answered bool | DeadlineDealer bool | DeadlineUnknown | RedisFell | LineFell | PromptFailed

definition answer_of :: "rebuy_signal \<Rightarrow> rebuy_answer" where
  "answer_of sig =
     (case sig of
        Answered accept \<Rightarrow> if accept then Accepted else Declined
      | DeadlineDealer alive \<Rightarrow> if alive then TimedOut else AnswerDealerSilent
      | DeadlineUnknown \<Rightarrow> AnswerDealerSilent
      | RedisFell \<Rightarrow> AnswerInterrupted
      | LineFell \<Rightarrow> AnswerInterrupted
      | PromptFailed \<Rightarrow> Declined)"

text \<open>The wait is a machine: \<open>settled\<close> holds the answer once there is one. It starts settled when the outage or the line
  has moved on since the round began.\<close>

definition settle :: "rebuy_answer option \<Rightarrow> rebuy_signal \<Rightarrow> rebuy_answer option" where
  "settle settled sig = (case settled of Some a \<Rightarrow> Some a | None \<Rightarrow> Some (answer_of sig))"

definition waitForRebuyResponse :: "bool \<Rightarrow> rebuy_signal list \<Rightarrow> rebuy_answer option" where
  "waitForRebuyResponse sameRound signals =
     (if \<not> sameRound then Some AnswerInterrupted else foldl settle None signals)"

section \<open>The outcome\<close>

datatype rebuy_outcome = Applied | WasDeclined | WasTimeout | Skipped | Interrupted | Deferred | DealerSilent

text \<open>
  How the critical section that adds the chips ends: normally; with an error before the mutation ran (the lock, the
  read); or with an error after it, when the write may have landed or not.
\<close>

datatype chip_write = Written | FailedBefore | FailedLanded | FailedLost

datatype rebuy_crash = PlayerUnknown | SnapshotFailed

record rebuy_env =
  reReadFails :: "nat \<Rightarrow> bool"
  reTxFails :: "nat \<Rightarrow> bool"
  reAttempts :: nat
  reAnswer :: rebuy_answer
  reSameOutage :: bool
  reUpAfter :: bool
  reWrite :: chip_write
  reRevertFails :: bool

definition isRebuyRefusal :: "ledger_error \<Rightarrow> bool" where
  "isRebuyRefusal e \<longleftrightarrow> e \<in> {PointsShort, ClosedTournamentWrite}"

text \<open>
  One attempt of the transaction, as \<open>retryAsync\<close> sees it: value 0 is success, value 1 a refusal, everything else
  is tried again.
\<close>

definition pay_attempt :: "rebuy_env \<Rightarrow> string \<Rightarrow> string \<Rightarrow> int \<Rightarrow> int \<Rightarrow> ledger \<Rightarrow> nat \<Rightarrow> nat + ledger_error option" where
  "pay_attempt env t u entryFee startStack l k =
     (if reTxFails env k then Inr None
      else case fst (executeRebuyTransaction t u entryFee startStack l) of
             Inr _ \<Rightarrow> Inl 0
           | Inl e \<Rightarrow> if isRebuyRefusal e then Inl 1 else Inr (Some e))"

definition revert :: "rebuy_env \<Rightarrow> string \<Rightarrow> int \<Rightarrow> table_service \<Rightarrow> table_service" where
  "revert env u startStack s = (if reRevertFails env then s else revertRebuy u startStack s)"

definition take_money ::
  "rebuy_env \<Rightarrow> string \<Rightarrow> string \<Rightarrow> int \<Rightarrow> int \<Rightarrow> table_service \<Rightarrow> ledger \<Rightarrow> rebuy_outcome \<times> table_service \<times> ledger" where
  "take_money env t u entryFee startStack s l =
     (case retryValue (retryAsync (pay_attempt env t u entryFee startStack l) (\<lambda>_. 0) (reAttempts env)) of
        Inr _ \<Rightarrow> (Deferred, revert env u startStack s, l)
      | Inl v \<Rightarrow>
          if v = 0 then (Applied, s, snd (executeRebuyTransaction t u entryFee startStack l))
          else (Skipped, revert env u startStack s, l))"

definition processRebuy ::
  "rebuy_env \<Rightarrow> string \<Rightarrow> string \<Rightarrow> int \<Rightarrow> int \<Rightarrow> table_service \<Rightarrow> ledger
   \<Rightarrow> (rebuy_crash + rebuy_outcome) \<times> table_service \<times> ledger" where
  "processRebuy env t u entryFee startStack s l =
     (case retryValue (retryAsync (\<lambda>k. if reReadFails env k then Inr () else Inl 0) (\<lambda>_. 0) (reAttempts env)) of
        Inr _ \<Rightarrow> (Inr Deferred, s, l)
      | Inl _ \<Rightarrow>
        (case points u l of
           None \<Rightarrow> (Inl PlayerUnknown, s, l)
         | Some p \<Rightarrow>
           if p < entryFee then (Inr Skipped, s, l)
           else (case reAnswer env of
               Declined \<Rightarrow> (Inr WasDeclined, s, l)
             | TimedOut \<Rightarrow> (Inr WasTimeout, s, l)
             | AnswerInterrupted \<Rightarrow> (Inr Interrupted, s, l)
             | AnswerDealerSilent \<Rightarrow> (Inr DealerSilent, s, l)
             | Accepted \<Rightarrow>
               (if reWrite env = FailedBefore then
                  (if reUpAfter env \<and> reSameOutage env then Inl SnapshotFailed else Inr Interrupted, s, l)
                else if \<not> reSameOutage env then (Inr Interrupted, s, l)
                else (case give_rebuy u startStack s of
                    (False, _) \<Rightarrow> (Inr Skipped, s, l)
                  | (True, given) \<Rightarrow>
                    (case reWrite env of
                       FailedLanded \<Rightarrow> (Inr Interrupted, revert env u startStack given, l)
                     | FailedLost \<Rightarrow> (Inr Interrupted, revert env u startStack s, l)
                     | _ \<Rightarrow>
                       (case take_money env t u entryFee startStack given l of
                          (r, s', l') \<Rightarrow> (Inr r, s', l'))))))))"

section \<open>The round and its repetition\<close>

text \<open>The players of a round who are asked again after the dealer has resumed the table.\<close>

definition asked_again :: "string list \<Rightarrow> rebuy_outcome list \<Rightarrow> string list" where
  "asked_again asked outcomes =
     map fst (filter (\<lambda>(u, r). r \<in> {Interrupted, Deferred, DealerSilent}) (zip asked outcomes))"

definition hold_reason :: "bool \<Rightarrow> rebuy_outcome list \<Rightarrow> pause_reason option" where
  "hold_reason sameLine outcomes =
     (if \<not> sameLine \<or> DealerSilent \<in> set outcomes then Some LineDown
      else if Interrupted \<in> set outcomes then None else Some TransientError)"

definition stillBroke :: "table_service \<Rightarrow> string list \<Rightarrow> string list option" where
  "stillBroke s us =
     (case svState s of
        None \<Rightarrow> None
      | Some st \<Rightarrow> Some (filter (\<lambda>u. case seat st (seat_index_of u st) of None \<Rightarrow> False | Some p \<Rightarrow> stack p \<le> 0) us))"

text \<open>The players of a round answer side by side; each touches only their own chips and money.\<close>

fun rebuy_round ::
  "(string \<Rightarrow> rebuy_env) \<Rightarrow> string \<Rightarrow> int \<Rightarrow> int \<Rightarrow> string list \<Rightarrow> table_service \<Rightarrow> ledger
   \<Rightarrow> (rebuy_crash + rebuy_outcome) list \<times> table_service \<times> ledger" where
  "rebuy_round envs t entryFee startStack [] s l = ([], s, l)"
| "rebuy_round envs t entryFee startStack (u # us) s l =
     (case processRebuy (envs u) t u entryFee startStack s l of
        (r, s', l') \<Rightarrow> (case rebuy_round envs t entryFee startStack us s' l' of (rs, s'', l'') \<Rightarrow> (r # rs, s'', l'')))"

end
