(* ===== verification/RebuyProps.thy ===== *)
theory RebuyProps
  imports Rebuy
begin

text \<open>
  Chips and money of a rebuy move together: a player has the chips of a rebuy exactly when it was paid, in every way
  the database, the write of the snapshot and the player's device can fail, as long as the chips can be taken off.
\<close>

section \<open>Chips\<close>

definition chips_of :: "string \<Rightarrow> table_service \<Rightarrow> int" where
  "chips_of u s = (case svState s of
     None \<Rightarrow> 0
   | Some st \<Rightarrow> (case seat st (seat_index_of u st) of None \<Rightarrow> 0 | Some p \<Rightarrow> stack p))"

definition seated :: "string \<Rightarrow> table_service \<Rightarrow> bool" where
  "seated u s \<longleftrightarrow> (case svState s of None \<Rightarrow> False | Some st \<Rightarrow> seat_index_of u st \<noteq> -1)"

text \<open>What a rebuy leaves alone: who sits where, and the chips of the others.\<close>

definition same_seats :: "table_service \<Rightarrow> table_service \<Rightarrow> bool" where
  "same_seats s s' \<longleftrightarrow> (\<forall>v. seated v s' = seated v s)"

lemma index_same: "ids st' = ids st \<Longrightarrow> seat_index_of v st' = seat_index_of v st"
  by (simp add: seat_index_of_ids)

lemma index_other:
  assumes "seat st (seat_index_of u st) = Some p" "player_id p = u" "v \<noteq> u"
  shows "seat_index_of v st \<noteq> seat_index_of u st"
proof
  assume e: "seat_index_of v st = seat_index_of u st"
  then have "seat_index_of v st \<noteq> -1" using turn_ge[OF assms(1)] by simp
  then obtain q where "seat st (seat_index_of v st) = Some q" "player_id q = v" by (rule seat_index_of_seat)
  then show False using e assms by simp
qed

lemma chips_put:
  assumes "svState s = Some st" "seat_index_of u st \<noteq> -1" "seat st (seat_index_of u st) = Some p" "player_id q = u"
  shows "chips_of v (put_state (put_seat (seat_index_of u st) q st) s) = (if v = u then stack q else chips_of v s)"
    and "seated v (put_state (put_seat (seat_index_of u st) q st) s) = seated v s"
proof -
  have p: "player_id p = u" using assms(2,3) by (auto elim: seat_index_of_seat)
  have same: "ids (put_seat (seat_index_of u st) q st) = ids st"
    by (rule ids_put_seat[OF assms(3)]) (simp add: p assms(4))
  note i = index_same[OF same] seat_put_seat[OF assms(3), of q]
  show "chips_of v (put_state (put_seat (seat_index_of u st) q st) s) = (if v = u then stack q else chips_of v s)"
    using assms(1) i index_other[OF assms(3) p] by (simp add: chips_of_def put_state_def)
  show "seated v (put_state (put_seat (seat_index_of u st) q st) s) = seated v s"
    using assms(1) i by (simp add: seated_def put_state_def)
qed

lemma given:
  assumes "seated u s" "0 < amt"
  obtains s' where "give_rebuy u amt s = (True, s')" "chips_of u s' = chips_of u s + amt"
    "\<And>v. v \<noteq> u \<Longrightarrow> chips_of v s' = chips_of v s" "\<And>v. seated v s' = seated v s"
proof -
  obtain st where st: "svState s = Some st" "seat_index_of u st \<noteq> -1" using assms(1) by (auto simp: seated_def split: option.splits)
  obtain p where p: "seat st (seat_index_of u st) = Some p" "player_id p = u" using st(2) by (rule seat_index_of_seat)
  let ?q = "p\<lparr>stack := stack p + amt, bet := 0, hasFolded := False, isAllIn := False\<rparr>"
  let ?s = "put_state (put_seat (seat_index_of u st) ?q st) s"
  have g: "give_rebuy u amt s = (True, ?s)" using st p assms(2) by (simp add: give_rebuy_def applyRebuy_def)
  have c: "chips_of u s = stack p" using st p by (simp add: chips_of_def)
  have q: "player_id ?q = u" using p(2) by simp
  show ?thesis by (rule that[OF g]) (use chips_put[OF st p(1) q] c in simp_all)
qed

lemma reverted:
  assumes "seated u s" "0 < amt"
  shows "chips_of u (revertRebuy u amt s) = (if chips_of u s < amt then chips_of u s else chips_of u s - amt)
    \<and> (v \<noteq> u \<longrightarrow> chips_of v (revertRebuy u amt s) = chips_of v s) \<and> seated v (revertRebuy u amt s) = seated v s"
proof -
  obtain st where st: "svState s = Some st" "seat_index_of u st \<noteq> -1" using assms(1) by (auto simp: seated_def split: option.splits)
  obtain p where p: "seat st (seat_index_of u st) = Some p" "player_id p = u" using st(2) by (rule seat_index_of_seat)
  have c: "chips_of u s = stack p" using st p by (simp add: chips_of_def)
  have q: "player_id (p\<lparr>stack := stack p - amt\<rparr>) = u" using p(2) by simp
  show ?thesis
  proof (cases "stack p < amt")
    case True
    then have "revertRebuy u amt s = s" using st p by (simp add: revertRebuy_def)
    then show ?thesis using True c by simp
  next
    case False
    then have "revertRebuy u amt s = put_state (put_seat (seat_index_of u st) (p\<lparr>stack := stack p - amt\<rparr>) st) s"
      using st p by (simp add: revertRebuy_def)
    then show ?thesis using False c chips_put[OF st p(1) q] by simp
  qed
qed

section \<open>Money\<close>

lemma rebuy_failed: "executeRebuyTransaction t u fee chips l = (Inl e, l') \<Longrightarrow> l' = l"
  by (auto simp: executeRebuyTransaction_def commit_def Let_def split: option.splits if_splits)

text \<open>What a paid rebuy does to the books: the fee leaves the player's points, with one ledger row, and joins the pool.\<close>

definition rebuy_paid :: "string \<Rightarrow> string \<Rightarrow> int \<Rightarrow> ledger \<Rightarrow> ledger \<Rightarrow> bool" where
  "rebuy_paid t u fee l l' \<longleftrightarrow>
     (\<exists>p row row'. points u l = Some p \<and> fee \<le> p \<and> points u l' = Some (p - fee)
        \<and> tour t l = Some row \<and> tour t l' = Some row' \<and> tBuyin row' = tBuyin row + fee
        \<and> lTx l' = lTx l @ [\<lparr>txUser = u, txAmount = - fee, txType = REBUY, txTournament = Some t\<rparr>])
     \<and> (\<forall>v. v \<noteq> u \<longrightarrow> points v l' = points v l)"

lemma executeRebuy_paid:
  assumes "executeRebuyTransaction t u fee chips l = (Inr x, l')"
  shows "rebuy_paid t u fee l l'"
proof -
  from assms obtain p row where r: "points u l = Some p" "fee \<le> p" "tour t l = Some row"
    "l' = put_tour t (row\<lparr>tBuyin := tBuyin row + fee, tParts := update_part u (\<lambda>p. p\<lparr>pBuyIns := pBuyIns p + 1,
       pStack := pStack p + chips\<rparr>) (tParts row)\<rparr>) (move_points u (- fee) REBUY (Some t) l)"
    by (auto simp: executeRebuyTransaction_def commit_def Let_def split: option.splits if_splits)
  define row' where "row' = row\<lparr>tBuyin := tBuyin row + fee, tParts := update_part u (\<lambda>p. p\<lparr>pBuyIns := pBuyIns p + 1,
       pStack := pStack p + chips\<rparr>) (tParts row)\<rparr>"
  have *: "points u l = Some p" "fee \<le> p" "tour t l = Some row" "tBuyin row' = tBuyin row + fee"
    "l' = put_tour t row' (move_points u (- fee) REBUY (Some t) l)"
    using r by (simp_all add: row'_def)
  have "points v l' = (if v = u then map_option (\<lambda>p. p - fee) (points v l) else points v l)" for v
    using *(5) points_move_points[of v u "- fee" REBUY "Some t" l] by (simp add: points_def)
  moreover have "tour t l' = Some row'" using * by (simp add: tour_put_tour)
  moreover have "lTx l' = lTx l @ [\<lparr>txUser = u, txAmount = - fee, txType = REBUY, txTournament = Some t\<rparr>]"
    using *(5) by simp
  ultimately show ?thesis unfolding rebuy_paid_def using * by auto
qed

section \<open>One rebuy\<close>

lemma retry_value:
  assumes "retryValue (retryAsync fn wait n) = Inl v"
  obtains k where "k < n" "fn k = Inl v"
  using retry_loop_spec[of n 0 n "[]" fn wait None] assms
  by (auto simp: retryAsync_def retry_spec_def split: sum.splits)

lemma took_money:
  assumes "take_money env t u fee chips s l = (r, s', l')"
  shows "if r = Applied then s' = s \<and> rebuy_paid t u fee l l' else s' = revert env u chips s \<and> l' = l"
proof (cases "retryValue (retryAsync (pay_attempt env t u fee chips l) (\<lambda>_. 0) (reAttempts env))")
  case (Inr e)
  then show ?thesis using assms by (auto simp: take_money_def)
next
  case (Inl v)
  then obtain k where k: "pay_attempt env t u fee chips l k = Inl v" by (rule retry_value)
  show ?thesis
  proof (cases "v = 0")
    case True
    then obtain x where "fst (executeRebuyTransaction t u fee chips l) = Inr x"
      using k by (auto simp: pay_attempt_def split: if_splits sum.splits)
    then have "executeRebuyTransaction t u fee chips l = (Inr x, snd (executeRebuyTransaction t u fee chips l))"
      by (metis prod.collapse)
    from executeRebuy_paid[OF this] show ?thesis using assms Inl True by (auto simp: take_money_def)
  next
    case False
    then show ?thesis using assms Inl by (auto simp: take_money_def)
  qed
qed

text \<open>What one rebuy leaves behind: money taken and the chips given, or neither.\<close>

definition rebuy_exact ::
  "string \<Rightarrow> string \<Rightarrow> int \<Rightarrow> int \<Rightarrow> table_service \<Rightarrow> ledger \<Rightarrow> bool \<Rightarrow> table_service \<Rightarrow> ledger \<Rightarrow> bool" where
  "rebuy_exact t u fee chips s l applied s' l' \<longleftrightarrow>
     (if applied then rebuy_paid t u fee l l' else l' = l)
     \<and> chips_of u s' = (if applied then chips else 0)
     \<and> (\<forall>v. v \<noteq> u \<longrightarrow> chips_of v s' = chips_of v s)
     \<and> (\<forall>v. seated v s' = seated v s)"

lemma process_exact:
  assumes run: "processRebuy env t u fee chips s l = (r, s', l')"
    and u: "seated u s" "chips_of u s = 0" and c: "0 < chips" and ok: "\<not> reRevertFails env"
  shows "rebuy_exact t u fee chips s l (r = Inr Applied) s' l'"
proof -
  obtain g where g: "give_rebuy u chips s = (True, g)" "chips_of u g = chips_of u s + chips"
    "\<And>v. v \<noteq> u \<Longrightarrow> chips_of v g = chips_of v s" "\<And>v. seated v g = seated v s"
    using given[OF u(1) c] by blast
  have gs: "seated u g" using g(4) u(1) by simp
  have undone: "chips_of u (revert env u chips g) = 0" "\<And>v. v \<noteq> u \<Longrightarrow> chips_of v (revert env u chips g) = chips_of v s"
    "\<And>v. seated v (revert env u chips g) = seated v s"
    using reverted[OF gs c] g u ok by (auto simp: revert_def)
  have none: "chips_of u (revert env u chips s) = 0" "\<And>v. v \<noteq> u \<Longrightarrow> chips_of v (revert env u chips s) = chips_of v s"
    "\<And>v. seated v (revert env u chips s) = seated v s"
    using reverted[OF u(1) c] u c ok by (auto simp: revert_def)
  consider "r \<noteq> Inr Applied" "l' = l" "s' = s \<or> s' = revert env u chips g \<or> s' = revert env u chips s"
    | o' where "take_money env t u fee chips g l = (o', s', l')" "r = Inr o'"
    using run g(1) unfolding processRebuy_def
    by (simp split: sum.splits option.splits if_splits rebuy_answer.splits chip_write.splits prod.splits) auto
  then show ?thesis
  proof cases
    case 1
    then show ?thesis using undone none u by (auto simp: rebuy_exact_def)
  next
    case (2 o')
    then show ?thesis using took_money[OF 2(1)] undone g u by (auto simp: rebuy_exact_def split: if_splits)
  qed
qed

section \<open>A round of rebuys\<close>

definition paid_users :: "string list \<Rightarrow> (rebuy_crash + rebuy_outcome) list \<Rightarrow> string list" where
  "paid_users us rs = map fst (filter (\<lambda>(u, r). r = Inr Applied) (zip us rs))"

lemma paid_users_simps [simp]: "paid_users [] rs = []"
  "paid_users (u # us) (r # rs) = (if r = Inr Applied then u # paid_users us rs else paid_users us rs)"
  by (simp_all add: paid_users_def)

lemma paid_users_subset: "set (paid_users us rs) \<subseteq> set us"
  by (auto simp: paid_users_def dest: set_zip_leftD)

definition rebuy_rows :: "string \<Rightarrow> int \<Rightarrow> string list \<Rightarrow> transaction list" where
  "rebuy_rows t fee us = map (\<lambda>u. \<lparr>txUser = u, txAmount = - fee, txType = REBUY, txTournament = Some t\<rparr>) us"

definition round_exact ::
  "string \<Rightarrow> int \<Rightarrow> int \<Rightarrow> string list \<Rightarrow> string list \<Rightarrow> table_service \<Rightarrow> ledger \<Rightarrow> table_service \<Rightarrow> ledger \<Rightarrow> bool" where
  "round_exact t fee chips us paid s l s' l' \<longleftrightarrow>
     (\<forall>v. chips_of v s' = (if v \<in> set us then if v \<in> set paid then chips else 0 else chips_of v s))
     \<and> (\<forall>v. seated v s' = seated v s)
     \<and> lTx l' = lTx l @ rebuy_rows t fee paid
     \<and> map_option tBuyin (tour t l') = map_option (\<lambda>row. tBuyin row + fee * int (length paid)) (tour t l)
     \<and> (\<forall>v. points v l' = (if v \<in> set paid then map_option (\<lambda>p. p - fee) (points v l) else points v l))"

lemma round_exact_step:
  assumes one: "rebuy_exact t u fee chips s l a s1 l1" and rest: "round_exact t fee chips us paid s1 l1 s' l'"
    and u: "u \<notin> set us" "set paid \<subseteq> set us"
  shows "round_exact t fee chips (u # us) (if a then u # paid else paid) s l s' l'"
proof -
  have chips: "\<forall>v. chips_of v s' = (if v \<in> set us then if v \<in> set paid then chips else 0 else chips_of v s1)"
    "chips_of u s1 = (if a then chips else 0)" "\<And>v. v \<noteq> u \<Longrightarrow> chips_of v s1 = chips_of v s"
    "\<forall>v. seated v s' = seated v s"
    using one rest by (auto simp: round_exact_def rebuy_exact_def)
  have c: "\<forall>v. chips_of v s' = (if v \<in> set (u # us) then if v \<in> set (if a then u # paid else paid) then chips else 0 else chips_of v s)"
    using chips(1-3) u by auto
  have books: "lTx l' = lTx l1 @ rebuy_rows t fee paid"
    "map_option tBuyin (tour t l') = map_option (\<lambda>row. tBuyin row + fee * int (length paid)) (tour t l1)"
    "\<forall>v. points v l' = (if v \<in> set paid then map_option (\<lambda>p. p - fee) (points v l1) else points v l1)"
    using rest by (auto simp: round_exact_def)
  show ?thesis
  proof (cases a)
    case False
    then have "l1 = l" using one by (simp add: rebuy_exact_def)
    then show ?thesis using c chips(4) books False by (simp add: round_exact_def)
  next
    case True
    then obtain p row row' where paid: "points u l = Some p" "points u l1 = Some (p - fee)"
        "tour t l = Some row" "tour t l1 = Some row'" "tBuyin row' = tBuyin row + fee"
        "lTx l1 = lTx l @ [\<lparr>txUser = u, txAmount = - fee, txType = REBUY, txTournament = Some t\<rparr>]"
        "\<And>v. v \<noteq> u \<Longrightarrow> points v l1 = points v l"
      using one by (auto simp: rebuy_exact_def rebuy_paid_def)
    have "lTx l' = lTx l @ rebuy_rows t fee (u # paid)" using books(1) paid by (simp add: rebuy_rows_def)
    moreover have "map_option tBuyin (tour t l')
        = map_option (\<lambda>row. tBuyin row + fee * int (length (u # paid))) (tour t l)"
      using books(2) paid by (simp add: algebra_simps)
    moreover have "points v l' = (if v \<in> set (u # paid) then map_option (\<lambda>p. p - fee) (points v l) else points v l)" for v
      using books(3) paid u by (cases "v = u") auto
    ultimately show ?thesis using c chips(4) True unfolding round_exact_def by simp
  qed
qed

lemma round_exact:
  assumes "rebuy_round envs t fee chips us s l = (rs, s', l')" "distinct us" "0 < chips"
    "\<And>u. u \<in> set us \<Longrightarrow> seated u s \<and> chips_of u s = 0" "\<And>u. u \<in> set us \<Longrightarrow> \<not> reRevertFails (envs u)"
  shows "length rs = length us \<and> round_exact t fee chips us (paid_users us rs) s l s' l'"
  using assms
proof (induction us arbitrary: s l rs)
  case Nil
  then show ?case by (simp add: round_exact_def rebuy_rows_def option.map_ident)
next
  case (Cons u us)
  obtain r s1 l1 where one: "processRebuy (envs u) t u fee chips s l = (r, s1, l1)" by (metis prod.exhaust)
  obtain rs' where rest: "rebuy_round envs t fee chips us s1 l1 = (rs', s', l')" "rs = r # rs'"
    using Cons.prems(1) one by (auto split: prod.splits)
  have ex: "rebuy_exact t u fee chips s l (r = Inr Applied) s1 l1"
    by (rule process_exact[OF one]) (use Cons.prems in auto)
  have "length rs' = length us \<and> round_exact t fee chips us (paid_users us rs') s1 l1 s' l'"
  proof (rule Cons.IH[OF rest(1)])
    show "distinct us" "0 < chips" "\<And>v. v \<in> set us \<Longrightarrow> \<not> reRevertFails (envs v)" using Cons.prems by auto
    show "seated v s1 \<and> chips_of v s1 = 0" if "v \<in> set us" for v
    proof -
      have "v \<noteq> u" using that Cons.prems(2) by auto
      then show ?thesis using ex Cons.prems(4)[of v] that by (simp add: rebuy_exact_def)
    qed
  qed
  then show ?case
    using round_exact_step[OF ex, of us "paid_users us rs'"] Cons.prems(2) paid_users_subset rest(2) by simp
qed

lemma broke_after:
  assumes "svState s' \<noteq> None" "\<And>u. u \<in> set us \<Longrightarrow> seated u s'"
  shows "stillBroke s' us = Some (filter (\<lambda>u. chips_of u s' \<le> 0) us)"
proof -
  obtain st where st: "svState s' = Some st" using assms(1) by blast
  have "(case seat st (seat_index_of u st) of None \<Rightarrow> False | Some p \<Rightarrow> stack p \<le> 0) \<longleftrightarrow> chips_of u s' \<le> 0"
    if "u \<in> set us" for u
  proof -
    have "seat_index_of u st \<noteq> -1" using assms(2)[OF that] st by (simp add: seated_def)
    then obtain p where "seat st (seat_index_of u st) = Some p" by (rule seat_index_of_seat)
    then show ?thesis using st by (simp add: chips_of_def)
  qed
  then show ?thesis using st by (auto simp: stillBroke_def intro!: filter_cong)
qed

section \<open>The wait\<close>

lemma settled_stays: "foldl settle (Some a) sigs = Some a"
  by (induction sigs) (simp_all add: settle_def)

lemma wait_first: "waitForRebuyResponse True (sig # sigs) = Some (answer_of sig)"
  by (simp add: waitForRebuyResponse_def settle_def settled_stays)

end
