(* ===== verification/RebuyClaims.thy ===== *)
theory RebuyClaims
  imports RebuyProps
begin

text \<open>The properties of rebuys, with the demo round of their witnesses: anna accepts and pays at the second attempt, ben has
  no points, cem's device is silent.\<close>

section \<open>A demo round\<close>

definition broke_seat :: "string \<Rightarrow> int \<Rightarrow> table_player option" where
  "broke_seat u i = Some (new_seat u ''tb'' u i 0 WAITING)"

definition broke_state :: table_state where
  "broke_state = (createEmptyTableState ''t'')\<lparr>players := [broke_seat ''anna'' 0, broke_seat ''ben'' 1,
     Some (new_seat ''dora'' ''tb'' ''dora'' 2 700 WAITING), broke_seat ''cem'' 3, None, None, None, None, None]\<rparr>"

definition broke_table :: table_service where
  "broke_table = (new_table ''t'')\<lparr>svState := Some broke_state\<rparr>"

definition rebuy_part :: "string \<Rightarrow> participation" where
  "rebuy_part u = \<lparr>pUser = u, pStatus = PLAYING, pBuyIns = 1, pPrize = 0, pPlace = None, pStack = 1000, pOtp = u, pSeatVersion = 0\<rparr>"

definition rebuy_row :: tournament where
  "rebuy_row = \<lparr>tName = ''T'', tStatus = ONGOING, tStarted = True, tEntryFee = 100, tStartStack = 1000, tRakePercent = 0,
     tPayoutTable = JOther, tRegOpen = True, tRebuyUntil = 3, tAvgStack = 0, tBlinds = JOther, tBuyin = 400, tActive = 4,
     tTotalPlayers = 4, tOwner = ''O'', tDealer = None, tParts = map rebuy_part [''anna'', ''ben'', ''dora'', ''cem''],
     tTables = [''tb''], tSeats = []\<rparr>"

definition rebuy_books :: ledger where
  "rebuy_books = \<lparr>lUsers = [(''anna'', 250), (''ben'', 40), (''cem'', 500)], lTx = [], lTours = [(''t'', rebuy_row)]\<rparr>"

definition rebuy_envs :: "string \<Rightarrow> rebuy_env" where
  "rebuy_envs u = \<lparr>reReadFails = (\<lambda>_. False), reTxFails = (\<lambda>k. k = 0), reAttempts = 5,
     reAnswer = (if u = ''cem'' then AnswerDealerSilent else Accepted), reSameOutage = True, reUpAfter = True,
     reWrite = Written, reRevertFails = False\<rparr>"

definition demo_round :: "(rebuy_crash + rebuy_outcome) list \<times> table_service \<times> ledger" where
  "demo_round = rebuy_round rebuy_envs ''t'' 100 1000 [''anna'', ''ben'', ''cem''] broke_table rebuy_books"

lemma demo_outcomes: "fst demo_round = [Inr Applied, Inr Skipped, Inr DealerSilent]"
  by code_simp

lemma demo_broke: "seated ''anna'' broke_table" "seated ''ben'' broke_table" "seated ''cem'' broke_table"
  "chips_of ''anna'' broke_table = 0" "chips_of ''ben'' broke_table = 0" "chips_of ''cem'' broke_table = 0"
  by code_simp+

lemma demo_envs: "\<not> reRevertFails (rebuy_envs u)" by (simp add: rebuy_envs_def)

section \<open>Chips and money\<close>



text \<open>A round of rebuys settles every broke player on their own: afterwards each player who paid holds the start stack and
  all the others asked hold nothing; the pool has grown by the fee times the number who paid, the ledger by exactly
  their REBUY rows, their points by nobody else's; and the players whom the follow-up check of the round still finds broke are
  exactly those who did not pay.\<close>

theorem rebuy_round_exact:
  assumes "rebuy_round envs t fee chips us s l = (rs, s', l')"
    and "distinct us" "0 < chips" "\<forall>u \<in> set us. seated u s \<and> chips_of u s = 0 \<and> \<not> reRevertFails (envs u)"
    and "svState s' \<noteq> None"
  shows "length rs = length us \<and> round_exact t fee chips us (paid_users us rs) s l s' l'
    \<and> stillBroke s' us = Some (filter (\<lambda>u. u \<notin> set (paid_users us rs)) us)"
proof -
  have r: "length rs = length us" "round_exact t fee chips us (paid_users us rs) s l s' l'"
    using round_exact[OF assms(1-3)] assms(4) by auto
  have "stillBroke s' us = Some (filter (\<lambda>u. chips_of u s' \<le> 0) us)"
    by (rule broke_after) (use assms(4,5) r in \<open>auto simp: round_exact_def\<close>)
  moreover have "chips_of u s' \<le> 0 \<longleftrightarrow> u \<notin> set (paid_users us rs)" if "u \<in> set us" for u
    using r(2) assms(3) that by (simp add: round_exact_def)
  ultimately show ?thesis using r by (simp cong: filter_cong)
qed

theorem rebuy_round_exact_witness:
  "stillBroke (fst (snd demo_round)) [''anna'', ''ben'', ''cem''] = Some [''ben'', ''cem'']
   \<and> map_option tBuyin (tour ''t'' (snd (snd demo_round))) = Some 500"
proof -
  obtain rs s' l' where d: "demo_round = (rs, s', l')" by (metis prod.exhaust)
  have rs: "rs = [Inr Applied, Inr Skipped, Inr DealerSilent]" using demo_outcomes unfolding d by (simp only: fst_conv)
  have "svState (fst (snd demo_round)) \<noteq> None" by code_simp
  then have "svState s' \<noteq> None" unfolding d by (simp only: fst_conv snd_conv not_False_eq_True)
  from rebuy_round_exact[OF d[unfolded demo_round_def] _ _ _ this]
  have "round_exact ''t'' 100 1000 [''anna'', ''ben'', ''cem''] [''anna''] broke_table rebuy_books s' l'
    \<and> stillBroke s' [''anna'', ''ben'', ''cem''] = Some [''ben'', ''cem'']"
    using rs demo_broke demo_envs by simp
  moreover have "tour ''t'' rebuy_books = Some rebuy_row" by (simp add: rebuy_books_def tour_def)
  ultimately show ?thesis unfolding d by (simp add: round_exact_def rebuy_row_def)
qed

text \<open>The first thing that ends the wait for an answer decides, and nothing that comes after changes it: neither a late
  answer after the deadline or an interruption, nor an interruption after the answer. A round older than the last outage
  or line pause is interrupted without asking.\<close>

theorem first_signal_decides:
  "waitForRebuyResponse True (sig # sigs) = Some (answer_of sig)
   \<and> waitForRebuyResponse True [] = None \<and> waitForRebuyResponse False sigs = Some AnswerInterrupted"
  using wait_first by (simp add: waitForRebuyResponse_def)

end
