(* ===== verification/SeatMap.thy ===== *)
theory SeatMap
  imports TablePlay
begin

text \<open>
  The seat map of a tournament in Redis (\<open>redis/redis.service.ts\<close>): one string of bits per table in the hash
  \<open>tournament:{id}:seat\<close>, changed by two Lua scripts and rebuilt at boot. A script runs atomically, so it is a
  function on the hash; an \<open>error_reply\<close> leaves the hash alone. The expiry of the key (a day) is not modelled.
\<close>

section \<open>Strings in Lua, arrays in JavaScript\<close>

text \<open>\<open>string.sub(s, i, j)\<close>: positions count from 1, negative ones from the end, and are cut to the string.\<close>

definition lua_sub :: "string \<Rightarrow> int \<Rightarrow> int \<Rightarrow> string" where
  "lua_sub s i j =
     (let n = int (length s);
          from = max 1 (if i < 0 then n + i + 1 else i);
          upto = min n (if j < 0 then n + j + 1 else j)
      in take (nat (upto - from + 1)) (drop (nat (from - 1)) s))"

text \<open>
  \<open>xs[i] = x\<close> on a JavaScript array: writing behind the end leaves holes (\<open>None\<close>), an index that is no array
  index only makes a property that \<open>join\<close> does not see. \<open>join('')\<close> prints a hole as nothing.
\<close>

definition js_array_set :: "'a option list \<Rightarrow> int \<Rightarrow> 'a \<Rightarrow> 'a option list" where
  "js_array_set xs i x =
     (if i < 0 then xs
      else if nat i < length xs then xs[nat i := Some x]
      else xs @ replicate (nat i - length xs) None @ [Some x])"

definition js_join :: "char option list \<Rightarrow> string" where
  "js_join xs = concat (map (\<lambda>x. case x of None \<Rightarrow> '''' | Some c \<Rightarrow> [c]) xs)"

section \<open>The operations\<close>

type_synonym seat_map = "string \<Rightarrow> string option"

datatype lua_error = SeatIndexOutOfRange

definition bit :: "bool \<Rightarrow> char" where
  "bit isOccupied = (if isOccupied then CHR ''1'' else CHR ''0'')"

definition UPDATE_SEAT_BIT :: "string \<Rightarrow> int \<Rightarrow> string \<Rightarrow> seat_map \<Rightarrow> (lua_error + string option) \<times> seat_map" where
  "UPDATE_SEAT_BIT field idx v m =
     (case m field of
        None \<Rightarrow> (Inr None, m)
      | Some bitmap \<Rightarrow>
        if idx < 0 \<or> idx \<ge> int (length bitmap) then (Inl SeatIndexOutOfRange, m)
        else let updated = lua_sub bitmap 1 idx @ v @ lua_sub bitmap (idx + 2) (-1)
             in (Inr (Some updated), m(field \<mapsto> updated)))"

fun update_bits :: "int list \<Rightarrow> string \<Rightarrow> string \<Rightarrow> string option" where
  "update_bits [] v bitmap = Some bitmap"
| "update_bits (idx # is) v bitmap =
     (if idx < 0 \<or> idx \<ge> int (length bitmap) then None
      else update_bits is v (lua_sub bitmap 1 idx @ v @ lua_sub bitmap (idx + 2) (-1)))"

definition UPDATE_SEAT_BITS_MANY ::
  "string \<Rightarrow> int list \<Rightarrow> string \<Rightarrow> seat_map \<Rightarrow> (lua_error + string option) \<times> seat_map" where
  "UPDATE_SEAT_BITS_MANY field idxs v m =
     (case m field of
        None \<Rightarrow> (Inr None, m)
      | Some bitmap \<Rightarrow>
        (case update_bits idxs v bitmap of
           None \<Rightarrow> (Inl SeatIndexOutOfRange, m)
         | Some updated \<Rightarrow> (Inr (Some updated), m(field \<mapsto> updated))))"

definition updateSeatBitmap :: "string \<Rightarrow> int \<Rightarrow> bool \<Rightarrow> seat_map \<Rightarrow> (lua_error + string option) \<times> seat_map" where
  "updateSeatBitmap t idx isOccupied m = UPDATE_SEAT_BIT t idx [bit isOccupied] m"

definition updateSeatBitmapMany ::
  "string \<Rightarrow> int list \<Rightarrow> bool \<Rightarrow> seat_map \<Rightarrow> (lua_error + string option) \<times> seat_map" where
  "updateSeatBitmapMany t seats isOccupied m = UPDATE_SEAT_BITS_MANY t seats [bit isOccupied] m"

definition setSeatBitmap :: "string \<Rightarrow> seat_map \<Rightarrow> seat_map" where
  "setSeatBitmap t m = m(t \<mapsto> replicate SEAT_COUNT (CHR ''0''))"

definition removeSeatBitmap :: "string \<Rightarrow> seat_map \<Rightarrow> seat_map" where
  "removeSeatBitmap t m = m(t := None)"

definition rebuildSeatBitmap :: "string \<Rightarrow> int list \<Rightarrow> seat_map \<Rightarrow> seat_map" where
  "rebuildSeatBitmap t seats m =
     m(t \<mapsto> js_join (fold (\<lambda>i bitmap. js_array_set bitmap i (CHR ''1'')) seats
                      (replicate SEAT_COUNT (Some (CHR ''0'')))))"

definition seat_status :: "string \<Rightarrow> bool list" where
  "seat_status bitmap = map (\<lambda>c. c = CHR ''1'') bitmap"

text \<open>\<open>getTournamentTables\<close> reads every table at once; this is its entry for one of them.\<close>

definition table_seats :: "seat_map \<Rightarrow> string \<Rightarrow> bool list option" where
  "table_seats m t = map_option seat_status (m t)"

text \<open>An empty bitmap is falsy as a missing one is.\<close>

definition getTableSeatStatus :: "string \<Rightarrow> seat_map \<Rightarrow> bool list" where
  "getTableSeatStatus t m = (case m t of None \<Rightarrow> [] | Some bitmap \<Rightarrow> seat_status bitmap)"

section \<open>The map and the snapshot\<close>

definition seat_row :: "table_state \<Rightarrow> bool list" where
  "seat_row st = map (\<lambda>s. s \<noteq> None) (players st)"

text \<open>The mirror of an entry, of a release and of the elimination of the players without chips.\<close>

definition mirror_claim :: "string \<Rightarrow> int \<Rightarrow> seat_map \<Rightarrow> seat_map" where
  "mirror_claim t i m = snd (updateSeatBitmap t i True m)"

definition mirror_release :: "string \<Rightarrow> (int \<times> string) list \<Rightarrow> seat_map \<Rightarrow> seat_map" where
  "mirror_release t seats m = snd (updateSeatBitmapMany t (map fst seats) False m)"

definition mirror_busted :: "string \<Rightarrow> table_player list \<Rightarrow> seat_map \<Rightarrow> seat_map" where
  "mirror_busted t busted m = fold (\<lambda>p m. snd (updateSeatBitmap t (seatIndex p) False m)) busted m"

end
