(* ===== verification/SeatMapProps.thy ===== *)
theory SeatMapProps
  imports SeatMap TablePlayProps
begin

text \<open>
  The seat map as an array of booleans: the Lua scripts implement the update of that array, the batch script is the
  single one repeated or nothing at all, a rebuilt map reads back as the seats it was built from, and every
  change of the seats of a table, with its mirror, keeps map and snapshot equal.
\<close>

section \<open>Lua strings\<close>

lemma lua_sub_prefix: "0 \<le> i \<Longrightarrow> i \<le> int (length s) \<Longrightarrow> lua_sub s 1 i = take (nat i) s"
  by (simp add: lua_sub_def Let_def)

lemma lua_sub_suffix: "1 \<le> i \<Longrightarrow> lua_sub s i (-1) = drop (nat (i - 1)) s"
  by (simp add: lua_sub_def Let_def)

lemma lua_update:
  assumes "0 \<le> i" "i < int (length s)"
  shows "lua_sub s 1 i @ [c] @ lua_sub s (i + 2) (-1) = s[nat i := c]"
proof -
  have "nat (i + 2 - 1) = Suc (nat i)" using assms by simp
  then show ?thesis using assms
    by (simp add: lua_sub_prefix lua_sub_suffix upd_conv_take_nth_drop)
qed

lemma bit_status [simp]: "(bit b = CHR ''1'') = b"
  by (simp add: bit_def)

lemma seat_status_update: "seat_status (s[i := bit b]) = (seat_status s)[i := b]"
  by (simp add: seat_status_def map_update)

lemma seat_status_length [simp]: "length (seat_status s) = length s"
  by (simp add: seat_status_def)

lemma update_bits_spec:
  "update_bits idxs [bit b] s =
     (if \<forall>i\<in>set idxs. 0 \<le> i \<and> i < int (length s) then Some (fold (\<lambda>i s. s[nat i := bit b]) idxs s) else None)"
proof (induction idxs arbitrary: s)
  case (Cons i idxs)
  show ?case
  proof (cases "0 \<le> i \<and> i < int (length s)")
    case True
    then show ?thesis using lua_update[of i s "bit b"] by (simp add: Cons.IH)
  qed auto
qed simp

lemma seat_status_fold: "seat_status (fold (\<lambda>i s. s[nat i := bit b]) idxs s) = fold (\<lambda>i bs. bs[nat i := b]) idxs (seat_status s)"
  by (induction idxs arbitrary: s) (simp_all add: seat_status_update)

section \<open>The interface of the seat map\<close>

text \<open>
  What the services rely on: a bit that is written is read back, the other bits and the other tables stay. The lemmas
  of the locale are about the seats of a table and the writes that mirror them.
\<close>

locale seat_store =
  fixes put :: "string \<Rightarrow> int \<Rightarrow> bool \<Rightarrow> 'm \<Rightarrow> 'm"
    and get :: "'m \<Rightarrow> string \<Rightarrow> bool list option"
  assumes get_put: "get m t = Some bs \<Longrightarrow> 0 \<le> i \<Longrightarrow> i < int (length bs) \<Longrightarrow>
    get (put t i b m) t' = (if t' = t then Some (bs[nat i := b]) else get m t')"
begin

lemma get_fold:
  "get m t = Some bs \<Longrightarrow> \<forall>i\<in>set is. 0 \<le> i \<and> i < int (length bs) \<Longrightarrow>
   get (fold (\<lambda>i. put t i b) is m) t = Some (fold (\<lambda>i bs. bs[nat i := b]) is bs)"
  by (induction "is" arbitrary: m bs) (simp_all add: get_put)

lemma shows_claim:
  assumes "get m t = Some (seat_row st)" "0 \<le> i" "i < int (length (players st))"
  shows "get (put t i True m) t = Some (seat_row (set_seat i (Some p) st))"
  using assms get_put[of m t "seat_row st" i True t] by (simp add: seat_row_def set_seat_def map_update)

lemma shows_fold:
  assumes "get m t = Some (seat_row st)" "\<forall>x\<in>set xs. 0 \<le> f x \<and> f x < int (length (players st))"
  shows "get (fold (\<lambda>x. put t (f x) False) xs m) t = Some (seat_row (fold (\<lambda>x. set_seat (f x) None) xs st))"
  using assms
proof (induction xs arbitrary: m st)
  case (Cons x xs)
  have "get (put t (f x) False m) t = Some (seat_row (set_seat (f x) None st))"
    using Cons.prems get_put[of m t "seat_row st" "f x" False t] by (simp add: seat_row_def set_seat_def map_update)
  then show ?case using Cons.IH[of "put t (f x) False m" "set_seat (f x) None st"] Cons.prems(2) by simp
qed simp

end

lemma table_seats_put:
  assumes "table_seats m t = Some bs" "0 \<le> i" "i < int (length bs)"
  shows "table_seats (snd (updateSeatBitmap t i b m)) t' = (if t' = t then Some (bs[nat i := b]) else table_seats m t')"
proof -
  obtain s where s: "m t = Some s" "bs = seat_status s" using assms(1) by (auto simp: table_seats_def)
  then show ?thesis using assms(2,3) lua_update[of i s "bit b"]
    by (simp add: updateSeatBitmap_def UPDATE_SEAT_BIT_def Let_def table_seats_def seat_status_update)
qed

interpretation redis_seats: seat_store "\<lambda>t i b m. snd (updateSeatBitmap t i b m)" table_seats
  by unfold_locales (rule table_seats_put)

section \<open>Rebuilding\<close>

lemma fold_clear_nth:
  "k < length bs \<Longrightarrow> fold (\<lambda>x bs. bs[f x := b]) xs bs ! k = (if k \<in> f ` set xs then b else bs ! k)"
  by (induction xs arbitrary: bs) (auto simp: nth_list_update)

lemma fold_length [simp]: "length (fold (\<lambda>x bs. bs[f x := c x]) xs bs) = length bs"
  by (induction xs arbitrary: bs) auto

lemma js_join_full: "js_join (map Some s) = s"
  by (induction s) (simp_all add: js_join_def)

lemma js_fill:
  assumes "\<forall>i\<in>set idxs. 0 \<le> i \<and> i < int (length s)"
  shows "fold (\<lambda>i bitmap. js_array_set bitmap i c) idxs (map Some s) = map Some (fold (\<lambda>i s. s[nat i := c]) idxs s)"
  using assms
  by (induction idxs arbitrary: s) (simp_all add: js_array_set_def map_update[symmetric] nat_less_iff)

lemma rebuilt_row:
  assumes "\<forall>i\<in>set seats. 0 \<le> i \<and> i < int SEAT_COUNT"
  shows "table_seats (rebuildSeatBitmap t seats m) = (table_seats m)(t \<mapsto> map (\<lambda>k. int k \<in> set seats) [0..<SEAT_COUNT])"
proof -
  have full: "replicate SEAT_COUNT (Some (CHR ''0'')) = map Some (replicate SEAT_COUNT (CHR ''0''))" by simp
  let ?s = "fold (\<lambda>i s. s[nat i := CHR ''1'']) seats (replicate SEAT_COUNT (CHR ''0''))"
  have "seat_status ?s = map (\<lambda>k. int k \<in> set seats) [0..<SEAT_COUNT]"
  proof (rule nth_equalityI)
    fix k assume "k < length (seat_status ?s)"
    then have k: "k < SEAT_COUNT" by simp
    have "k \<in> nat ` set seats \<longleftrightarrow> int k \<in> set seats" using assms by force
    then show "seat_status ?s ! k = map (\<lambda>k. int k \<in> set seats) [0..<SEAT_COUNT] ! k"
      using k by (simp add: seat_status_def fold_clear_nth)
  qed simp
  moreover have "rebuildSeatBitmap t seats m = m(t \<mapsto> ?s)"
    using assms unfolding rebuildSeatBitmap_def full by (subst js_fill) (simp_all add: js_join_full)
  ultimately show ?thesis by (auto simp: table_seats_def)
qed

section \<open>Seats cleared at the end of a hand\<close>

definition seats_numbered :: "table_state \<Rightarrow> bool" where
  "seats_numbered st \<longleftrightarrow> (\<forall>k<length (players st). case players st ! k of None \<Rightarrow> True | Some p \<Rightarrow> seatIndex p = int k)"

lemma seats_numberedD: "seats_numbered st \<Longrightarrow> k < length (players st) \<Longrightarrow> players st ! k = Some p \<Longrightarrow> seatIndex p = int k"
  unfolding seats_numbered_def by (drule spec[of _ k]) simp

lemma numbered_occupant:
  assumes "p \<in> set (occupants (players st))"
  shows "\<exists>k<length (players st). players st ! k = Some p"
  using assms by (simp add: set_occupants in_set_conv_nth)

lemma cleared_row:
  assumes "seats_numbered st"
  shows "fold (\<lambda>p bs. bs[nat (seatIndex p) := False]) (filter (\<lambda>p. stack p \<le> 0) (occupants (players st))) (seat_row st)
    = seat_row (initTable st)"
proof (rule nth_equalityI)
  let ?busted = "filter (\<lambda>p. stack p \<le> 0) (occupants (players st))"
  show "length (fold (\<lambda>p bs. bs[nat (seatIndex p) := False]) ?busted (seat_row st)) = length (seat_row (initTable st))"
    by (simp add: seat_row_def initTable_def)
  fix k assume "k < length (fold (\<lambda>p bs. bs[nat (seatIndex p) := False]) ?busted (seat_row st))"
  then have k: "k < length (players st)" by (simp add: seat_row_def)
  have "k \<in> (\<lambda>p. nat (seatIndex p)) ` set ?busted \<longleftrightarrow> (\<exists>p. players st ! k = Some p \<and> stack p \<le> 0)"
  proof
    assume "k \<in> (\<lambda>p. nat (seatIndex p)) ` set ?busted"
    then obtain p where p: "p \<in> set (occupants (players st))" "stack p \<le> 0" "nat (seatIndex p) = k" by auto
    obtain n where n: "n < length (players st)" "players st ! n = Some p" using numbered_occupant[OF p(1)] by blast
    then have "n = k" using seats_numberedD[OF assms n] p(3) by simp
    then show "\<exists>p. players st ! k = Some p \<and> stack p \<le> 0" using n p(2) by blast
  next
    assume "\<exists>p. players st ! k = Some p \<and> stack p \<le> 0"
    then obtain p where p: "players st ! k = Some p" "stack p \<le> 0" by blast
    have "p \<in> set (occupants (players st))" using p(1) k nth_mem[OF k] by (simp add: set_occupants)
    moreover have "nat (seatIndex p) = k" using seats_numberedD[OF assms k p(1)] by simp
    ultimately show "k \<in> (\<lambda>p. nat (seatIndex p)) ` set ?busted" using p(2) by force
  qed
  then show "fold (\<lambda>p bs. bs[nat (seatIndex p) := False]) ?busted (seat_row st) ! k = seat_row (initTable st) ! k"
    using k fold_clear_nth[of k "seat_row st" "\<lambda>p. nat (seatIndex p)" False ?busted]
    by (auto simp: seat_row_def initTable_def init_seat_def split: option.splits)
qed

section \<open>Mirrored writes\<close>

lemma claim_mirrored:
  assumes st: "svState s = Some st" and m: "table_seats m t = Some (seat_row st)"
    and "free_seat u i s" and s1: "svState (claimSeat tn t i u nick chips s) = Some st1"
  shows "table_seats (mirror_claim t i m) t = Some (seat_row st1)"
proof -
  have i: "0 \<le> i" "i < int (length (players st))" using assms(1,3) by (auto simp: free_seat_def)
  have new: "table_seats (mirror_claim t i m) t = Some (seat_row (set_seat i (Some p) st))" for p
    unfolding mirror_claim_def by (rule redis_seats.shows_claim[OF m i])
  have "seat_row (set_seat i (Some p) st) = seat_row st" if "seat st i = Some p" for p
  proof -
    have "players st ! nat i = Some p" using that i by (auto simp: seat_def slot_def split: if_splits)
    then show ?thesis using i by (simp add: seat_row_def set_seat_def list_update_id)
      (metis list_update_id)
  qed
  then have same: "table_seats (mirror_claim t i m) t = Some (seat_row st)" if "seat st i = Some p" for p
    using new that by metis
  show ?thesis using s1 st new same
    by (auto simp: claimSeat_def Let_def put_state_def split: option.splits if_splits)
qed

lemma update_seats_spec:
  assumes "table_seats m t = Some bs" "\<forall>i\<in>set idxs. 0 \<le> i \<and> i < int (length bs)"
  shows "table_seats (snd (updateSeatBitmapMany t idxs b m)) t = table_seats (fold (\<lambda>i m. snd (updateSeatBitmap t i b m)) idxs m) t"
  using redis_seats.get_fold[OF assms, of b] assms
  by (auto simp: updateSeatBitmapMany_def UPDATE_SEAT_BITS_MANY_def update_bits_spec table_seats_def seat_status_fold)

lemma release_mirrored:
  assumes st: "svState s = Some st" and m: "table_seats m t = Some (seat_row st)"
    and r: "releaseSeats_snapshot seats s = (Inr (), s2)" "svState s2 = Some st2"
  shows "table_seats (mirror_release t seats m) t = Some (seat_row st2)"
proof -
  have ok: "list_all (\<lambda>(i, u). map_option player_id (seat st i) = Some u) seats"
    and st2: "st2 = fold (\<lambda>x. set_seat (fst x) None) seats st"
    using r st by (auto simp: releaseSeats_snapshot_def put_state_def case_prod_unfold split: if_splits)
  have inside: "\<forall>x\<in>set seats. 0 \<le> fst x \<and> fst x < int (length (players st))"
    using ok seat_bounds by (fastforce simp: list_all_iff)
  then have "table_seats (mirror_release t seats m) t
      = table_seats (fold (\<lambda>i m. snd (updateSeatBitmap t i False m)) (map fst seats) m) t"
    unfolding mirror_release_def by (intro update_seats_spec[OF m]) (auto simp: seat_row_def)
  then show ?thesis using redis_seats.shows_fold[OF m inside] st2 by (simp add: fold_map comp_def)
qed

lemma finish_mirrored:
  assumes st: "svState s = Some st" and m: "table_seats m t = Some (seat_row st)"
    and n: "seats_numbered st" "phase st = HAND_END" and r: "svState (snd (finishHand s)) = Some st3"
  shows "table_seats (mirror_busted t (filter (\<lambda>p. stack p \<le> 0) (occupants (players st))) m) t = Some (seat_row st3)"
proof -
  let ?busted = "filter (\<lambda>p. stack p \<le> 0) (occupants (players st))"
  have "0 \<le> seatIndex p \<and> seatIndex p < int (length (players st))" if p: "p \<in> set (occupants (players st))" for p
  proof -
    obtain k where "k < length (players st)" "players st ! k = Some p" using numbered_occupant[OF p] by blast
    then show ?thesis using seats_numberedD[OF n(1)] by simp
  qed
  then have "table_seats (fold (\<lambda>i m. snd (updateSeatBitmap t i False m)) (map seatIndex ?busted) m) t
      = Some (fold (\<lambda>i bs. bs[nat i := False]) (map seatIndex ?busted) (seat_row st))"
    by (intro redis_seats.get_fold[OF m]) (auto simp: seat_row_def)
  then have "table_seats (mirror_busted t ?busted m) t = Some (seat_row (initTable st))"
    by (simp add: mirror_busted_def fold_map comp_def cleared_row[OF n(1)])
  moreover have "seat_row st3 = seat_row (initTable st)"
    using r st n(2) by (auto simp: finishHand_def Let_def put_state_def initTable_def seat_row_def)
  ultimately show ?thesis by simp
qed

section \<open>Properties\<close>

text \<open>The batch script changes exactly the bits it is given, as the single script applied to each would, and leaves
  every other table alone; one index outside of the row rejects the whole batch and nothing is written.\<close>

theorem seat_batch_all_or_nothing:
  assumes "table_seats m t = Some bs"
  shows "if \<forall>i\<in>set idxs. 0 \<le> i \<and> i < int (length bs)
    then table_seats (snd (updateSeatBitmapMany t idxs b m)) = (table_seats m)(t \<mapsto> fold (\<lambda>i bs. bs[nat i := b]) idxs bs)
       \<and> table_seats (snd (updateSeatBitmapMany t idxs b m)) t
           = table_seats (fold (\<lambda>i m. snd (updateSeatBitmap t i b m)) idxs m) t
    else updateSeatBitmapMany t idxs b m = (Inl SeatIndexOutOfRange, m)"
proof -
  obtain s where s: "m t = Some s" "bs = seat_status s" using assms by (auto simp: table_seats_def)
  have "table_seats (fold (\<lambda>i m. snd (updateSeatBitmap t i b m)) idxs m) t = Some (fold (\<lambda>i bs. bs[nat i := b]) idxs bs)"
    if "\<forall>i\<in>set idxs. 0 \<le> i \<and> i < int (length bs)"
    by (rule redis_seats.get_fold[OF assms that])
  then show ?thesis using s
    by (auto simp: updateSeatBitmapMany_def UPDATE_SEAT_BITS_MANY_def update_bits_spec table_seats_def seat_status_fold fun_eq_iff
        split: if_splits)
qed

theorem seat_batch_all_or_nothing_witness:
  "updateSeatBitmapMany ''t1'' [2, 9] True [''t1'' \<mapsto> ''000000000''] = (Inl SeatIndexOutOfRange, [''t1'' \<mapsto> ''000000000''])"
proof -
  have "table_seats [''t1'' \<mapsto> ''000000000''] ''t1'' = Some (replicate 9 False)"
    by (simp add: table_seats_def seat_status_def numeral_eq_Suc)
  from seat_batch_all_or_nothing[OF this, of "[2, 9]" True] show ?thesis by simp
qed

text \<open>Building the row of a table from a list of seats and reading it back gives exactly those seats; in particular
  the row rebuilt from a snapshot reads as the snapshot's occupied seats. Other tables are untouched.\<close>

theorem seat_map_roundtrip:
  assumes "\<forall>i\<in>set seats. 0 \<le> i \<and> i < int SEAT_COUNT"
  shows "getTableSeatStatus t (rebuildSeatBitmap t seats m) = map (\<lambda>k. int k \<in> set seats) [0..<SEAT_COUNT]
    \<and> (t' \<noteq> t \<longrightarrow> table_seats (rebuildSeatBitmap t seats m) t' = table_seats m t')"
proof -
  note r = rebuilt_row[OF assms, of t m]
  have "table_seats (rebuildSeatBitmap t seats m) t = Some (map (\<lambda>k. int k \<in> set seats) [0..<SEAT_COUNT])" using r by simp
  then have "getTableSeatStatus t (rebuildSeatBitmap t seats m) = map (\<lambda>k. int k \<in> set seats) [0..<SEAT_COUNT]"
    by (auto simp: getTableSeatStatus_def table_seats_def)
  then show ?thesis using r by simp
qed

theorem seat_map_roundtrip_witness:
  "getTableSeatStatus ''t'' (rebuildSeatBitmap ''t'' [0, 3, 8] (\<lambda>_. None))
     = [True, False, False, True, False, False, False, False, True]"
proof -
  have "\<forall>i\<in>set [0, 3, 8]. 0 \<le> i \<and> i < int SEAT_COUNT" by (simp add: SEAT_COUNT_def)
  from conjunct1[OF seat_map_roundtrip[OF this, of "''t''" "\<lambda>_. None"]] show ?thesis
    by (simp add: SEAT_COUNT_def upt_rec)
qed

text \<open>C22. The seat map shows the snapshot. When the row of a table shows which seats of the snapshot are occupied, it still
  does after a player has sat down, after seats have been released, and after a finished hand has been cleared of the
  players without chips, each with its mirrored write.\<close>

theorem seat_map_shows_snapshot:
  assumes "svState s = Some st" and "table_seats m t = Some (seat_row st)"
  shows "(free_seat u i s \<and> svState (claimSeat tn t i u nick chips s) = Some st1 \<longrightarrow>
      table_seats (mirror_claim t i m) t = Some (seat_row st1))
    \<and> (releaseSeats_snapshot seats s = (Inr (), s2) \<and> svState s2 = Some st2 \<longrightarrow>
      table_seats (mirror_release t seats m) t = Some (seat_row st2))
    \<and> (seats_numbered st \<and> phase st = HAND_END \<and> svState (snd (finishHand s)) = Some st3 \<longrightarrow>
      table_seats (mirror_busted t (filter (\<lambda>p. stack p \<le> 0) (occupants (players st))) m) t = Some (seat_row st3))"
  using claim_mirrored[OF assms] release_mirrored[OF assms] finish_mirrored[OF assms] by blast

definition one_player :: table_service where
  "one_player = claimSeat ''t'' ''tb'' 4 ''anna'' ''Anna'' 5000 (new_table ''t'')"

theorem seat_map_shows_snapshot_witness:
  "table_seats (mirror_claim ''tb'' 4 (setSeatBitmap ''tb'' (\<lambda>_. None))) ''tb'' = Some (seat_row (the (svState one_player)))"
proof -
  let ?s = "new_table ''t''"
  let ?st = "createEmptyTableState ''t''"
  have "svState ?s = Some ?st" by (simp add: new_table_def)
  moreover have "table_seats (setSeatBitmap ''tb'' (\<lambda>_. None)) ''tb'' = Some (seat_row ?st)"
    by (simp add: table_seats_def setSeatBitmap_def seat_status_def seat_row_def createEmptyTableState_def)
  moreover have "free_seat ''anna'' 4 ?s" by code_simp
  moreover have "svState one_player = Some (the (svState one_player))" by (simp add: one_player_def claimSeat_def new_table_def
    put_state_def createEmptyTableState_def seat_def slot_def SEAT_COUNT_def Let_def numeral_eq_Suc)
  ultimately show ?thesis
    using seat_map_shows_snapshot[of ?s ?st "setSeatBitmap ''tb'' (\<lambda>_. None)" "''tb''"] unfolding one_player_def by blast
qed

end
