(* ===== verification/TableLock.thy ===== *)
theory TableLock
  imports Prelude
begin

text \<open>
  The lock of a table (\<open>withTableLock\<close>, \<open>releaseTableLock\<close> and \<open>mutateSnapshot\<close> of \<open>redis/redis.service.ts\<close>). The callers
  of \<open>mutateSnapshot\<close> interleave in any order at the granularity of single Redis commands: taking the lock (\<open>SET NX PX\<close>),
  reading the snapshot, writing it, and the compare-and-delete script that gives the lock back. A caller's token is
  random; it is the caller's number here. The mutation of caller \<open>c\<close> is the argument \<open>f c\<close>; \<open>None\<close> stands for a
  mutation that declines or throws.
\<close>

section \<open>Callers and commands\<close>

datatype 'a caller =
    Waiting
  | Holding int
  | Loaded int 'a
  | Finished int
  | Gone

record 'a lock_world =
  lkNow :: int
  lkKey :: "(nat \<times> int) option"
  lkSnap :: 'a
  lkCaller :: "nat \<Rightarrow> 'a caller"

text \<open>The time at which the key expires is part of a caller's state: it is when the caller's lock ends.\<close>

datatype lock_event = TryLock nat | Load nat | Store nat | Release nat | Wait int

definition key_free :: "'a lock_world \<Rightarrow> bool" where
  "key_free w \<longleftrightarrow> (case lkKey w of None \<Rightarrow> True | Some (c, e) \<Rightarrow> e \<le> lkNow w)"

definition acquire :: "int \<Rightarrow> nat \<Rightarrow> 'a lock_world \<Rightarrow> 'a lock_world" where
  "acquire ttlMs c w =
     (case lkCaller w c of
        Waiting \<Rightarrow>
          if key_free w
          then w\<lparr>lkKey := Some (c, lkNow w + ttlMs), lkCaller := (lkCaller w)(c := Holding (lkNow w + ttlMs))\<rparr>
          else w
      | _ \<Rightarrow> w)"

definition load :: "nat \<Rightarrow> 'a lock_world \<Rightarrow> 'a lock_world" where
  "load c w =
     (case lkCaller w c of
        Holding e \<Rightarrow> w\<lparr>lkCaller := (lkCaller w)(c := Loaded e (lkSnap w))\<rparr>
      | _ \<Rightarrow> w)"

definition store :: "(nat \<Rightarrow> 'a \<Rightarrow> 'a option) \<Rightarrow> nat \<Rightarrow> 'a lock_world \<Rightarrow> 'a lock_world" where
  "store f c w =
     (case lkCaller w c of
        Loaded e x \<Rightarrow>
          w\<lparr>lkSnap := (case f c x of None \<Rightarrow> lkSnap w | Some y \<Rightarrow> y), lkCaller := (lkCaller w)(c := Finished e)\<rparr>
      | _ \<Rightarrow> w)"

text \<open>The script deletes the key only while it holds this caller's token.\<close>

definition releaseTableLock :: "nat \<Rightarrow> 'a lock_world \<Rightarrow> 'a lock_world" where
  "releaseTableLock c w =
     (case lkKey w of
        Some (c', e) \<Rightarrow> if c' = c \<and> lkNow w < e then w\<lparr>lkKey := None\<rparr> else w
      | None \<Rightarrow> w)"

definition leave :: "nat \<Rightarrow> 'a lock_world \<Rightarrow> 'a lock_world" where
  "leave c w =
     (case lkCaller w c of
        Waiting \<Rightarrow> w
      | Gone \<Rightarrow> w
      | _ \<Rightarrow> (releaseTableLock c w)\<lparr>lkCaller := (lkCaller w)(c := Gone)\<rparr>)"

fun lock_step :: "int \<Rightarrow> (nat \<Rightarrow> 'a \<Rightarrow> 'a option) \<Rightarrow> 'a lock_world \<Rightarrow> lock_event \<Rightarrow> 'a lock_world" where
  "lock_step ttlMs f w (TryLock c) = acquire ttlMs c w"
| "lock_step ttlMs f w (Load c) = load c w"
| "lock_step ttlMs f w (Store c) = store f c w"
| "lock_step ttlMs f w (Release c) = leave c w"
| "lock_step ttlMs f w (Wait d) = w\<lparr>lkNow := lkNow w + max 0 d\<rparr>"

definition lock_start :: "'a \<Rightarrow> int \<Rightarrow> 'a lock_world" where
  "lock_start x now = \<lparr>lkNow = now, lkKey = None, lkSnap = x, lkCaller = (\<lambda>_. Waiting)\<rparr>"

section \<open>Which mutations are written, and when\<close>

definition writes :: "'a lock_world \<Rightarrow> lock_event \<Rightarrow> bool" where
  "writes w e \<longleftrightarrow> (case e of Store c \<Rightarrow> (case lkCaller w c of Loaded _ _ \<Rightarrow> True | _ \<Rightarrow> False) | _ \<Rightarrow> False)"

text \<open>Every write of the run comes before the lock of its caller has run out.\<close>

fun timely :: "int \<Rightarrow> (nat \<Rightarrow> 'a \<Rightarrow> 'a option) \<Rightarrow> 'a lock_world \<Rightarrow> lock_event list \<Rightarrow> bool" where
  "timely ttlMs f w [] = True"
| "timely ttlMs f w (e # es) \<longleftrightarrow>
     (case e of Store c \<Rightarrow> (case lkCaller w c of Loaded t _ \<Rightarrow> lkNow w < t | _ \<Rightarrow> True) | _ \<Rightarrow> True)
     \<and> timely ttlMs f (lock_step ttlMs f w e) es"

fun write_order :: "int \<Rightarrow> (nat \<Rightarrow> 'a \<Rightarrow> 'a option) \<Rightarrow> 'a lock_world \<Rightarrow> lock_event list \<Rightarrow> nat list" where
  "write_order ttlMs f w [] = []"
| "write_order ttlMs f w (e # es) =
     (if writes w e then (case e of Store c \<Rightarrow> [c] | _ \<Rightarrow> []) else []) @ write_order ttlMs f (lock_step ttlMs f w e) es"

definition lock_run :: "int \<Rightarrow> (nat \<Rightarrow> 'a \<Rightarrow> 'a option) \<Rightarrow> 'a lock_world \<Rightarrow> lock_event list \<Rightarrow> 'a lock_world" where
  "lock_run ttlMs f w es = foldl (lock_step ttlMs f) w es"

text \<open>The abstract view: mutations applied one after the other.\<close>

definition mutate :: "('a \<Rightarrow> 'a option) \<Rightarrow> 'a \<Rightarrow> 'a" where
  "mutate g x = (case g x of None \<Rightarrow> x | Some y \<Rightarrow> y)"

section \<open>Waiting for the lock\<close>

text \<open>
  The loop of \<open>withTableLock\<close>: \<open>free t\<close> says whether the key can be taken at \<open>t\<close>; the result is the time it was taken,
  or \<open>None\<close> for the error after \<open>maxWaitMs\<close>. A turn of the loop takes 50 ms.
\<close>

definition retryIntervalMs :: int where
  "retryIntervalMs = 50"

function lock_loop :: "(int \<Rightarrow> bool) \<Rightarrow> int \<Rightarrow> int \<Rightarrow> int option" where
  "lock_loop free deadline now =
     (if free now then Some now
      else if now + retryIntervalMs < deadline then lock_loop free deadline (now + retryIntervalMs)
      else None)"
  by auto
termination
  by (relation "measure (\<lambda>(free, deadline, now). nat (deadline - now))") (auto simp: retryIntervalMs_def)

declare lock_loop.simps [simp del]

definition withTableLock_wait :: "(int \<Rightarrow> bool) \<Rightarrow> int \<Rightarrow> int \<Rightarrow> int option" where
  "withTableLock_wait free maxWaitMs now = lock_loop free (now + maxWaitMs) now"

section \<open>The invariant\<close>

definition lock_end :: "'a caller \<Rightarrow> int option" where
  "lock_end p = (case p of Holding e \<Rightarrow> Some e | Loaded e _ \<Rightarrow> Some e | Finished e \<Rightarrow> Some e | _ \<Rightarrow> None)"

lemma lock_end_simps [simp]: "lock_end Waiting = None" "lock_end Gone = None" "lock_end (Holding e) = Some e"
  "lock_end (Loaded e x) = Some e" "lock_end (Finished e) = Some e"
  by (simp_all add: lock_end_def)

definition in_section :: "'a lock_world \<Rightarrow> nat \<Rightarrow> int \<Rightarrow> bool" where
  "in_section w c e \<longleftrightarrow> lock_end (lkCaller w c) = Some e \<and> lkNow w < e"

text \<open>A caller whose lock has not run out owns the key; and what it has read is what is stored.\<close>

definition key_owned :: "'a lock_world \<Rightarrow> bool" where
  "key_owned w \<longleftrightarrow> (\<forall>c e. in_section w c e \<longrightarrow> lkKey w = Some (c, e))"

definition reads_fresh :: "'a lock_world \<Rightarrow> bool" where
  "reads_fresh w \<longleftrightarrow> (\<forall>c e x. lkCaller w c = Loaded e x \<and> lkNow w < e \<longrightarrow> x = lkSnap w)"

lemma key_ownedD: "key_owned w \<Longrightarrow> in_section w c e \<Longrightarrow> lkKey w = Some (c, e)"
  by (simp add: key_owned_def)

lemma reads_freshD: "reads_fresh w \<Longrightarrow> lkCaller w c = Loaded e x \<Longrightarrow> lkNow w < e \<Longrightarrow> x = lkSnap w"
  by (auto simp: reads_fresh_def)

lemma section_unique: "key_owned w \<Longrightarrow> in_section w c e \<Longrightarrow> in_section w d e' \<Longrightarrow> c = d"
  using key_ownedD[of w c e] key_ownedD[of w d e'] by simp

lemma no_section: "key_owned w \<Longrightarrow> key_free w \<Longrightarrow> \<not> in_section w c e"
  by (auto simp: key_free_def in_section_def dest: key_ownedD[of w c e])

lemma acquired:
  assumes "key_owned w" "lkCaller w c = Waiting" "key_free w"
  shows "key_owned (acquire ttl c w) \<and> reads_fresh (acquire ttl c w)"
proof -
  have none: "\<not> (lock_end (lkCaller w d) = Some e \<and> lkNow w < e)" for d e
    using no_section[OF assms(1,3), of d e] by (simp add: in_section_def)
  have "\<not> (lkCaller w d = Loaded e x \<and> lkNow w < e)" for d e x
    using none[of d e] lock_end_simps(4)[of e x] by metis
  then show ?thesis using assms(2,3) none by (auto simp: acquire_def key_owned_def reads_fresh_def in_section_def)
qed

lemma not_acquired: "\<not> (lkCaller w c = Waiting \<and> key_free w) \<Longrightarrow> acquire ttl c w = w"
  by (auto simp: acquire_def split: caller.splits)

lemma load_inv:
  "key_owned w \<Longrightarrow> key_owned (load c w)" "reads_fresh w \<Longrightarrow> reads_fresh (load c w)"
  by (cases "lkCaller w c"; force simp: load_def key_owned_def in_section_def reads_fresh_def)+

lemma store_owned: "key_owned w \<Longrightarrow> key_owned (store f c w)"
  by (cases "lkCaller w c") (auto simp: store_def key_owned_def in_section_def)

lemma store_fresh:
  assumes "key_owned w" "reads_fresh w" "\<And>e x. lkCaller w c = Loaded e x \<Longrightarrow> lkNow w < e"
  shows "reads_fresh (store f c w)"
proof (cases "lkCaller w c")
  case (Loaded e x)
  have "d = c" if "lkCaller w d = Loaded e' y" "lkNow w < e'" for d e' y
    using section_unique[OF assms(1), of d e' c e] that Loaded assms(3) by (simp add: in_section_def)
  then show ?thesis using Loaded by (auto simp: store_def reads_fresh_def)
qed (use assms in \<open>simp_all add: store_def\<close>)

lemma release_fields [simp]: "lkNow (releaseTableLock c w) = lkNow w" "lkSnap (releaseTableLock c w) = lkSnap w"
  "lkCaller (releaseTableLock c w) = lkCaller w"
  by (auto simp: releaseTableLock_def split: option.splits)

lemma release_keeps: "lkKey w = Some (d, e) \<Longrightarrow> d \<noteq> c \<Longrightarrow> lkKey (releaseTableLock c w) = Some (d, e)"
  by (simp add: releaseTableLock_def)

lemma leave_inv:
  "key_owned w \<Longrightarrow> key_owned (leave c w)" "reads_fresh w \<Longrightarrow> reads_fresh (leave c w)"
proof -
  have l: "leave c w = w \<or> leave c w = (releaseTableLock c w)\<lparr>lkCaller := (lkCaller w)(c := Gone)\<rparr>"
    by (cases "lkCaller w c") (simp_all add: leave_def)
  show "reads_fresh w \<Longrightarrow> reads_fresh (leave c w)" using l by (auto simp: reads_fresh_def split: if_splits)
  show "key_owned w \<Longrightarrow> key_owned (leave c w)"
    using l release_keeps[of w _ _ c] by (auto simp: key_owned_def in_section_def split: if_splits)
qed

lemma wait_inv:
  "key_owned w \<Longrightarrow> key_owned (w\<lparr>lkNow := lkNow w + max 0 d\<rparr>)"
  "reads_fresh w \<Longrightarrow> reads_fresh (w\<lparr>lkNow := lkNow w + max 0 d\<rparr>)"
proof -
  have "lkNow w + max 0 d < e \<Longrightarrow> lkNow w < e" for e by linarith
  then show "key_owned w \<Longrightarrow> key_owned (w\<lparr>lkNow := lkNow w + max 0 d\<rparr>)"
    "reads_fresh w \<Longrightarrow> reads_fresh (w\<lparr>lkNow := lkNow w + max 0 d\<rparr>)"
    by (simp_all add: key_owned_def in_section_def reads_fresh_def) blast+
qed

lemma lock_step_owned: "key_owned w \<Longrightarrow> key_owned (lock_step ttl f w e)"
proof (cases e)
  case (TryLock c)
  moreover assume "key_owned w"
  ultimately show ?thesis using acquired[of w c ttl] not_acquired[of w c ttl]
    by (cases "lkCaller w c = Waiting \<and> key_free w") auto
qed (simp_all add: load_inv store_owned leave_inv wait_inv)

lemma lock_step_fresh:
  assumes "key_owned w" "reads_fresh w" "timely ttl f w (e # es)"
  shows "reads_fresh (lock_step ttl f w e)"
proof (cases e)
  case (TryLock c)
  then show ?thesis using assms acquired[of w c ttl] not_acquired[of w c ttl]
    by (cases "lkCaller w c = Waiting \<and> key_free w") auto
qed (use assms in \<open>auto simp: load_inv leave_inv wait_inv intro!: store_fresh\<close>)

interpretation lock_machine: invariant_machine "lock_step ttl f" key_owned for ttl f
  by unfold_locales (rule lock_step_owned)

section \<open>Writes in order\<close>

definition written :: "'a lock_world \<Rightarrow> lock_event \<Rightarrow> nat list" where
  "written w e = (if writes w e then (case e of Store c \<Rightarrow> [c] | _ \<Rightarrow> []) else [])"

lemma lock_step_snap:
  assumes "reads_fresh w" "timely ttl f w (e # es)"
  shows "lkSnap (lock_step ttl f w e) = fold (\<lambda>c. mutate (f c)) (written w e) (lkSnap w)"
proof (cases e)
  case (Store c)
  then show ?thesis using assms reads_freshD[OF assms(1), of c]
    by (cases "lkCaller w c") (auto simp: store_def writes_def written_def mutate_def split: option.splits)
next
  case (Release c)
  then show ?thesis by (auto simp: leave_def writes_def written_def split: caller.splits)
qed (auto simp: acquire_def load_def writes_def written_def split: caller.splits)

lemma lock_start_inv: "key_owned (lock_start x now)" "reads_fresh (lock_start x now)"
  by (simp_all add: lock_start_def key_owned_def in_section_def reads_fresh_def)

lemma serial:
  "key_owned w \<Longrightarrow> reads_fresh w \<Longrightarrow> timely ttl f w es \<Longrightarrow>
   lkSnap (lock_run ttl f w es) = fold (\<lambda>c. mutate (f c)) (write_order ttl f w es) (lkSnap w)"
proof (induction es arbitrary: w)
  case (Cons e es)
  let ?w = "lock_step ttl f w e"
  have "key_owned ?w" "reads_fresh ?w" "timely ttl f ?w es"
    using lock_step_owned[OF Cons.prems(1)] lock_step_fresh[OF Cons.prems] Cons.prems(3) by auto
  then show ?case
    using Cons.IH[of ?w] lock_step_snap[OF Cons.prems(2,3)] by (simp add: lock_run_def written_def)
qed (simp add: lock_run_def)

definition pending :: "'a lock_world \<Rightarrow> nat \<Rightarrow> bool" where
  "pending w c \<longleftrightarrow> (case lkCaller w c of Finished _ \<Rightarrow> False | Gone \<Rightarrow> False | _ \<Rightarrow> True)"

lemma pending_step: "pending (lock_step ttl f w e) c \<Longrightarrow> pending w c"
  by (cases e) (auto simp: pending_def acquire_def load_def store_def leave_def split: caller.splits if_splits)

lemma write_order_once: "distinct (write_order ttl f w es) \<and> (\<forall>c\<in>set (write_order ttl f w es). pending w c)"
proof (induction es arbitrary: w)
  case (Cons e es)
  let ?w = "lock_step ttl f w e"
  have first: "pending w c \<and> \<not> pending ?w c" if "c \<in> set (written w e)" for c
  proof (cases e)
    case (Store d)
    then show ?thesis using that by (cases "lkCaller w d") (auto simp: written_def writes_def pending_def store_def)
  qed (use that in \<open>simp_all add: written_def writes_def\<close>)
  have one: "distinct (written w e)" by (auto simp: written_def split: lock_event.split)
  have rest: "distinct (write_order ttl f ?w es)" "\<forall>c\<in>set (write_order ttl f ?w es). pending ?w c"
    using Cons.IH[of ?w] by simp_all
  have "set (written w e) \<inter> set (write_order ttl f ?w es) = {}" using first rest(2) by blast
  moreover have "\<forall>c\<in>set (write_order ttl f ?w es). pending w c" using rest(2) pending_step[of ttl f w e] by blast
  moreover have "write_order ttl f w (e # es) = written w e @ write_order ttl f ?w es" by (simp add: written_def)
  ultimately show ?case using first one rest(1) by auto
qed simp

lemma lock_loop_spec:
  "lock_loop free deadline now = Some t \<Longrightarrow>
     free t \<and> now \<le> t \<and> (t = now \<or> t < deadline) \<and> (\<exists>k. t = now + int k * retryIntervalMs)"
proof (induction free deadline now rule: lock_loop.induct)
  case (1 free deadline now)
  show ?case
  proof (cases "free now")
    case True
    then show ?thesis using 1(2) by (subst (asm) lock_loop.simps) (auto intro: exI[of _ 0])
  next
    case False
    then have next_turn: "now + retryIntervalMs < deadline" "lock_loop free deadline (now + retryIntervalMs) = Some t"
      using 1(2) by (subst (asm) lock_loop.simps, simp split: if_splits)+
    from 1(1)[OF False this] obtain k where k: "free t" "now + retryIntervalMs \<le> t"
      "t = now + retryIntervalMs \<or> t < deadline" "t = now + retryIntervalMs + int k * retryIntervalMs" by blast
    then have "t = now + int (Suc k) * retryIntervalMs" by (simp add: algebra_simps)
    moreover have "now \<le> t" "t < deadline" using k next_turn(1) by (auto simp: retryIntervalMs_def)
    ultimately show ?thesis using k(1) by blast
  qed
qed

lemma lock_loop_gives_up:
  "lock_loop free deadline now = None \<Longrightarrow> now + int k * retryIntervalMs < deadline \<Longrightarrow> \<not> free (now + int k * retryIntervalMs)"
proof (induction k arbitrary: now)
  case 0
  then show ?case by (subst (asm) lock_loop.simps) (simp split: if_splits)
next
  case (Suc k)
  have "now + retryIntervalMs < deadline"
    using Suc.prems(2) by (simp add: retryIntervalMs_def)
  then have "lock_loop free deadline (now + retryIntervalMs) = None"
    using Suc.prems(1) by (subst (asm) lock_loop.simps) (simp split: if_splits)
  then show ?case using Suc.IH[of "now + retryIntervalMs"] Suc.prems(2) by (simp add: algebra_simps)
qed

section \<open>Properties\<close>

text \<open>C21. Mutations of a table are applied one after the other. However the callers interleave, if every write comes before the
  writer's lock has run out, the snapshot at the end is the first one changed by the mutations in the order they were
  written, each at most once: no update is lost.\<close>

theorem mutations_serialize:
  assumes "timely ttl f (lock_start x now) es"
  shows "lkSnap (lock_run ttl f (lock_start x now) es) = fold (\<lambda>c. mutate (f c)) (write_order ttl f (lock_start x now) es) x
    \<and> distinct (write_order ttl f (lock_start x now) es)"
  using serial[OF lock_start_inv assms] write_order_once by (auto simp: lock_start_def)

definition add_mutation :: "nat \<Rightarrow> int \<Rightarrow> int option" where
  "add_mutation c x = (if c = 0 then None else Some (x + int c))"

definition busy_run :: "lock_event list" where
  "busy_run = [TryLock 1, TryLock 2, Load 1, Wait 100, TryLock 2, Store 1, Release 1, TryLock 0, TryLock 2, Load 0, Store 0,
     Release 0, TryLock 2, Load 2, Wait 50, Store 2, Release 2]"

theorem mutations_serialize_witness:
  "lkSnap (lock_run 5000 add_mutation (lock_start 10 0) busy_run) = 13"
proof -
  have "timely 5000 add_mutation (lock_start 10 0) busy_run"
    "write_order 5000 add_mutation (lock_start 10 0) busy_run = [1, 0, 2]" by code_simp+
  with mutations_serialize[OF this(1)] show ?thesis by (simp add: add_mutation_def mutate_def)
qed

text \<open>The critical sections of a table exclude each other, with no assumption on the callers: at every moment at most one
  caller is between taking the lock and the end of that lock's time, and giving back a lock that has run out
  never takes away the lock of the caller that has it now.\<close>

theorem lock_excludes:
  assumes "in_section (lock_run ttl f (lock_start x now) es) c e"
    and "in_section (lock_run ttl f (lock_start x now) es) d e'"
  shows "c = d \<and> (a \<noteq> c \<longrightarrow> lkKey (leave a (lock_run ttl f (lock_start x now) es)) = Some (c, e))"
proof -
  have own: "key_owned (lock_run ttl f (lock_start x now) es)"
    unfolding lock_run_def by (rule lock_machine.run_inv[OF lock_start_inv(1)])
  have "in_section (leave a (lock_run ttl f (lock_start x now) es)) c e" if "a \<noteq> c"
    using assms(1) that by (auto simp: in_section_def leave_def split: caller.splits)
  then show ?thesis using section_unique[OF own assms] key_ownedD[OF leave_inv(1)[OF own]] by blast
qed

theorem lock_excludes_witness:
  "lkKey (leave 1 (lock_run 5000 add_mutation (lock_start 10 0) [TryLock 1, Load 1, Wait 6000, TryLock 2, Load 2])) = Some (2, 11000)"
proof -
  let ?w = "lock_run 5000 add_mutation (lock_start 10 0) [TryLock 1, Load 1, Wait 6000, TryLock 2, Load 2]"
  have "in_section ?w 2 11000" by code_simp
  from lock_excludes[OF this this, of 1] show ?thesis by simp
qed

text \<open>A write after the end of its lock does lose an update: the second caller's mutation is overwritten.\<close>

lemma late_write_overwrites:
  "lkSnap (lock_run 5000 add_mutation (lock_start 10 0)
     [TryLock 1, Load 1, Wait 6000, TryLock 2, Load 2, Store 2, Release 2, Store 1]) = 11"
  by code_simp

text \<open>Waiting for the lock ends. The loop gives the lock at the start or within the allowed time, at a moment when it was free;
  it fails only if the lock was taken at every one of its attempts.\<close>

theorem lock_wait_bounded:
  "case withTableLock_wait free maxWaitMs now of
     Some t \<Rightarrow> free t \<and> now \<le> t \<and> (t = now \<or> t < now + maxWaitMs)
   | None \<Rightarrow> (\<forall>k. int k * retryIntervalMs < maxWaitMs \<longrightarrow> \<not> free (now + int k * retryIntervalMs))"
  using lock_loop_spec[of free "now + maxWaitMs" now] lock_loop_gives_up[of free "now + maxWaitMs" now]
  by (auto simp: withTableLock_wait_def split: option.splits)

theorem lock_wait_bounded_witness: "withTableLock_wait (\<lambda>t. 130 < t) 5000 0 = Some 150"
proof -
  have w: "withTableLock_wait (\<lambda>t. 130 < t) 5000 0 = Some 150"
    by (simp add: withTableLock_wait_def lock_loop.simps retryIntervalMs_def)
  then show ?thesis using lock_wait_bounded[where free = "\<lambda>t. 130 < t" and maxWaitMs = 5000 and now = 0] by simp
qed

end
