(* ===== verification/Syncing.thy ===== *)
theory Syncing
  imports Blinds Attempts Settlement
begin

text \<open>
  A tournament that waits for its devices (\<open>SYNCING\<close>): the pause and its end in the tournament's row
  (\<open>recovery/recovery.service.ts\<close>: \<open>markSyncing\<close>, \<open>freezeTournament\<close>, \<open>pauseForLineOutage\<close>, \<open>completeSync\<close>), the blind
  clock on the board in Redis (\<open>checkAndSyncBlindLevel\<close> of \<open>redis.service.ts\<close>), and the decisions of the gateway about
  them (\<open>ws/ws.gateway.ts\<close>: \<open>handleDisconnect\<close>, \<open>pauseIfNoDealer\<close>, \<open>recount\<close>, \<open>forceSync\<close>). The clock's reading, what the
  sockets and the seat map say, and the row's settings for a board that has to be built anew are arguments.
\<close>

section \<open>Row, board and gateway\<close>

record sync_row =
  syStatus :: tournament_status
  syStartedAt :: "int option"
  syPausedMs :: int
  syPausedAt :: "int option"

text \<open>The part of \<open>tournament:{id}:info\<close> the blind clock works on.\<close>

record blind_board =
  boBlind :: "blind_field option"
  boRebuyUntil :: "int option"
  boRegistrationOpen :: bool

record sync_world =
  swRow :: sync_row
  swBoard :: blind_board
  swLineDown :: bool
  swRedisUp :: bool
  swLastDealerSeenAt :: "int option"
  swForcedAt :: "int option"

section \<open>The blind clock in Redis\<close>

definition blind_now :: "int \<Rightarrow> blind_field \<Rightarrow> int" where
  "blind_now wall blind = (case bfPausedAt blind of Some p \<Rightarrow> p | None \<Rightarrow> wall)"

text \<open>\<open>Inl\<close> is the exception of an empty structure; \<open>Inr None\<close> a tournament without a clock.\<close>

definition checkAndSyncBlindLevel ::
  "bool \<Rightarrow> int \<Rightarrow> blind_board \<Rightarrow> (unit + blind_field option) \<times> blind_board" where
  "checkAndSyncBlindLevel force wall board =
     (case boBlind board of
        None \<Rightarrow> (Inr None, board)
      | Some blind \<Rightarrow>
        if \<not> force \<and> bfNextLevelAt blind \<noteq> 0 \<and> blind_now wall blind < bfNextLevelAt blind
        then (Inr (Some (blind\<lparr>bfServerTime := wall\<rparr>)), board)
        else (case getCurrentBlindLevel (bfBlindStructure blind) (bfStartedAt blind) (blind_now wall blind) of
           None \<Rightarrow> (Inl (), board)
         | Some calculated \<Rightarrow>
             if force \<or> currentIndex calculated \<noteq> bfCurrentBlindLv blind \<or> isBreak calculated \<noteq> bfIsBreak blind
             then let updatedBlind = blind\<lparr>bfCurrentBlindLv := currentIndex calculated,
                        bfNextLevelAt := nextLevelAt calculated, bfIsBreak := isBreak calculated, bfServerTime := wall\<rparr>;
                      curLv = currentRegistrationLevel (map lv (bfBlindStructure blind)) (currentIndex calculated);
                      closes = (case boRebuyUntil board of None \<Rightarrow> False | Some regiCloseAt \<Rightarrow> regiCloseAt \<le> curLv)
                  in (Inr (Some updatedBlind),
                      board\<lparr>boBlind := Some updatedBlind,
                            boRegistrationOpen := boRegistrationOpen board \<and> \<not> closes\<rparr>)
             else (Inr (Some blind), board)))"

section \<open>Pausing and resuming a tournament\<close>

definition markSyncing :: "int \<Rightarrow> sync_row \<Rightarrow> sync_row" where
  "markSyncing pausedAt t =
     (if syStatus t = ONGOING then t\<lparr>syStatus := SYNCING, syPausedAt := Some pausedAt\<rparr> else t)"

text \<open>
  \<open>freezeTournament\<close> up to the tables: the board is brought in line with the row. \<open>False\<close> is an exception;
  \<open>game\<close> holds the row's other columns for a board that is missing.
\<close>

definition freeze_board :: "meta_source \<Rightarrow> int \<Rightarrow> sync_row \<Rightarrow> blind_board \<Rightarrow> bool \<times> blind_board" where
  "freeze_board game now t board =
     (case syStartedAt t of
        None \<Rightarrow> (False, board)
      | Some started \<Rightarrow>
        let blindBaseAt = started + syPausedMs t in
        (case boBlind board of
           Some blind \<Rightarrow>
             (case checkAndSyncBlindLevel True now
                     (board\<lparr>boBlind := Some (blind\<lparr>bfStartedAt := blindBaseAt, bfPausedAt := syPausedAt t\<rparr>)\<rparr>) of
                (Inl _, board') \<Rightarrow> (False, board')
              | (Inr _, board') \<Rightarrow> (True, board'))
         | None \<Rightarrow>
             (case buildTournamentMeta game blindBaseAt (syPausedAt t) now of
                Inl _ \<Rightarrow> (False, board)
              | Inr (dashboard, blindField, _) \<Rightarrow>
                  (True, \<lparr>boBlind = Some blindField, boRebuyUntil = Some (dbRebuyUntil dashboard),
                          boRegistrationOpen = dbIsRegistrationOpen dashboard\<rparr>))))"

text \<open>An exception of the freeze is logged and the tournament stays paused.\<close>

definition pauseForLineOutage :: "meta_source \<Rightarrow> int \<Rightarrow> int \<Rightarrow> sync_world \<Rightarrow> bool \<times> sync_world" where
  "pauseForLineOutage game pausedAt now w =
     (if syStatus (swRow w) \<noteq> ONGOING then (False, w)
      else let t = markSyncing pausedAt (swRow w)
           in (True, w\<lparr>swRow := t, swLineDown := True, swBoard := snd (freeze_board game now t (swBoard w))\<rparr>))"

text \<open>
  \<open>completeSync\<close> reads the row and then writes it under the condition that it is still paused at the same time;
  between the two another caller may have been first.
\<close>

definition sync_read :: "sync_row \<Rightarrow> sync_row option" where
  "sync_read t = (if syStatus t \<noteq> SYNCING \<or> syPausedAt t = None \<or> syStartedAt t = None then None else Some t)"

definition sync_delta :: "sync_row \<Rightarrow> int \<Rightarrow> int" where
  "sync_delta t now = max 0 (now - the (syPausedAt t))"

definition sync_commit :: "sync_row \<Rightarrow> int \<Rightarrow> sync_world \<Rightarrow> bool \<times> sync_world" where
  "sync_commit t now w =
     (if syStatus (swRow w) = SYNCING \<and> syPausedAt (swRow w) = syPausedAt t then
        let row' = (swRow w)\<lparr>syStatus := ONGOING, syPausedAt := None, syPausedMs := syPausedMs (swRow w) + sync_delta t now\<rparr>;
            board' = (case boBlind (swBoard w) of
                        None \<Rightarrow> swBoard w
                      | Some blind \<Rightarrow>
                          snd (checkAndSyncBlindLevel True now
                            ((swBoard w)\<lparr>boBlind := Some (blind\<lparr>bfPausedAt := None,
                               bfStartedAt := the (syStartedAt t) + syPausedMs t + sync_delta t now\<rparr>)\<rparr>)))
        in (True, w\<lparr>swRow := row', swLineDown := False, swBoard := board'\<rparr>)
      else (False, w))"

definition completeSync :: "int \<Rightarrow> sync_world \<Rightarrow> bool \<times> sync_world" where
  "completeSync now w = (case sync_read (swRow w) of None \<Rightarrow> (False, w) | Some t \<Rightarrow> sync_commit t now w)"

section \<open>The gateway\<close>

text \<open>A dealer's socket is gone: the last moment it answered is kept.\<close>

definition dealer_gone :: "int \<Rightarrow> sync_world \<Rightarrow> sync_world" where
  "dealer_gone seenAt w =
     w\<lparr>swLastDealerSeenAt := Some (max (case swLastDealerSeenAt w of None \<Rightarrow> 0 | Some s \<Rightarrow> s) seenAt)\<rparr>"

text \<open>The task of \<open>pauseIfNoDealer\<close> on the queue of the tournament.\<close>

definition pauseIfNoDealer :: "meta_source \<Rightarrow> bool \<Rightarrow> int \<Rightarrow> sync_world \<Rightarrow> bool \<times> sync_world" where
  "pauseIfNoDealer game hasDealer now w =
     (if \<not> swRedisUp w \<or> hasDealer then (False, w)
      else let seenAt = (case swLastDealerSeenAt w of None \<Rightarrow> now | Some s \<Rightarrow> s)
           in if (case swForcedAt w of None \<Rightarrow> False | Some f \<Rightarrow> seenAt \<le> f) then (False, w)
              else pauseForLineOutage game seenAt now w)"

text \<open>
  \<open>recount\<close>: the last of the required devices ends the pause. \<open>required\<close> lists the occupied seats of the seat maps,
  \<open>anyMap\<close> and \<open>anyTable\<close> say whether there are seat maps and tables at all.
\<close>

definition recount ::
  "required_table list \<Rightarrow> (string \<rightharpoonup> table_presence) \<Rightarrow> bool \<Rightarrow> bool \<Rightarrow> int \<Rightarrow> sync_world \<Rightarrow> bool \<times> sync_world" where
  "recount required presence anyMap anyTable now w =
     (if \<not> swRedisUp w then (False, w)
      else if syStatus (swRow w) \<noteq> SYNCING then (False, w)
      else if \<not> spDone (syncProgress required presence) then (False, w)
      else if \<not> anyMap \<and> anyTable then (False, w)
      else completeSync now w)"

definition forceSync :: "int \<Rightarrow> sync_world \<Rightarrow> (unit + bool) \<times> sync_world" where
  "forceSync now w =
     (if \<not> swRedisUp w then (Inl (), w)
      else if syStatus (swRow w) \<noteq> SYNCING then (Inr False, w)
      else (case completeSync now w of
              (False, w') \<Rightarrow> (Inr False, w')
            | (True, w') \<Rightarrow> (Inr True, w'\<lparr>swForcedAt := Some now\<rparr>)))"

text \<open>A tournament that closes forgets what the gateway knows about its line.\<close>

definition handleTournamentClosed :: "sync_world \<Rightarrow> sync_world" where
  "handleTournamentClosed w = w\<lparr>swLineDown := False, swLastDealerSeenAt := None, swForcedAt := None\<rparr>"

section \<open>The stopwatch\<close>

text \<open>
  What the pieces promise together: the blinds run on a stopwatch that stops when the tournament is paused and goes
  on from the same reading when it is resumed.
\<close>

datatype stopwatch = Running int | Stopped int

fun reading :: "int \<Rightarrow> stopwatch \<Rightarrow> int" where
  "reading now (Running base) = now - base"
| "reading now (Stopped r) = r"

fun stop_at :: "int \<Rightarrow> stopwatch \<Rightarrow> stopwatch" where
  "stop_at p (Running base) = Stopped (p - base)"
| "stop_at p (Stopped r) = Stopped r"

fun resume_at :: "int \<Rightarrow> stopwatch \<Rightarrow> stopwatch" where
  "resume_at now (Running base) = Running base"
| "resume_at now (Stopped r) = Running (now - r)"

definition row_watch :: "sync_row \<Rightarrow> stopwatch" where
  "row_watch t =
     (case syPausedAt t of
        None \<Rightarrow> Running (the (syStartedAt t) + syPausedMs t)
      | Some p \<Rightarrow> Stopped (p - (the (syStartedAt t) + syPausedMs t)))"

definition field_watch :: "blind_field \<Rightarrow> stopwatch" where
  "field_watch b = (case bfPausedAt b of None \<Rightarrow> Running (bfStartedAt b) | Some p \<Rightarrow> Stopped (p - bfStartedAt b))"

text \<open>A row whose status and columns agree: paused exactly while it is \<open>SYNCING\<close>.\<close>

definition row_ok :: "sync_row \<Rightarrow> bool" where
  "row_ok t \<longleftrightarrow> syStartedAt t \<noteq> None \<and> (syStatus t = SYNCING \<longleftrightarrow> syPausedAt t \<noteq> None)"

text \<open>The level at a reading of the stopwatch.\<close>

definition level_at :: "blind_level list \<Rightarrow> int \<Rightarrow> (int \<times> bool) option" where
  "level_at structure r = map_option (\<lambda>t. (currentIndex t, isBreak t)) (getCurrentBlindLevel structure 0 r)"

text \<open>The cached level was right at some moment that the clock has passed.\<close>

definition cache_ok :: "int \<Rightarrow> blind_field \<Rightarrow> bool" where
  "cache_ok wall b \<longleftrightarrow> (\<exists>t0 t. t0 \<le> blind_now wall b
     \<and> getCurrentBlindLevel (bfBlindStructure b) (bfStartedAt b) t0 = Some t
     \<and> bfCurrentBlindLv b = currentIndex t \<and> bfIsBreak b = isBreak t \<and> bfNextLevelAt b = nextLevelAt t)"

end
