(* ===== verification/SyncingProps.thy ===== *)
theory SyncingProps
  imports Syncing BlindProps
begin

text \<open>
  The pause of a tournament refines the stopwatch: the row, the clock on the board and the cached level agree with
  it, and a pause is counted once. The last section shows where the code counts time twice.
\<close>

section \<open>The level depends on the reading only\<close>

lemma find_level_shift:
  "find_level (s + d) e i acc ls = map_option (\<lambda>t. t\<lparr>nextLevelAt := nextLevelAt t + d\<rparr>) (find_level s e i acc ls)"
  by (induction s e i acc ls rule: find_level.induct) (simp_all add: Let_def)

lemma level_at_now:
  "map_option (\<lambda>t. (currentIndex t, isBreak t)) (getCurrentBlindLevel levels s now) = level_at levels (now - s)"
proof -
  have "find_level s e 0 0 levels = map_option (\<lambda>t. t\<lparr>nextLevelAt := nextLevelAt t + s\<rparr>) (find_level 0 e 0 0 levels)" for e
    using find_level_shift[of 0 s e 0 0 levels] by simp
  then show ?thesis
    by (cases "find_level 0 (now - s) 0 0 levels") (simp_all add: level_at_def getCurrentBlindLevel_def)
qed

lemma find_level_later:
  "find_level s e i acc ls = Some t \<Longrightarrow> e \<le> e' \<Longrightarrow> s + e' < nextLevelAt t \<Longrightarrow> find_level s e' i acc ls = Some t"
proof (induction s e i acc ls rule: find_level.induct)
  case (2 s e i acc l ls)
  show ?case
  proof (cases "e < acc + level_ms l")
    case False
    then show ?thesis using 2 by (simp add: Let_def)
  qed (use 2 in \<open>auto simp: Let_def\<close>)
qed simp

lemma find_level_over:
  "find_level s e i acc ls = None \<Longrightarrow> e \<le> e' \<Longrightarrow> find_level s e' i acc ls = None"
  by (induction s e i acc ls rule: find_level.induct) (auto simp: Let_def split: if_splits)

lemma cached_level:
  assumes "getCurrentBlindLevel levels s t0 = Some t" "t0 \<le> now" "now < nextLevelAt t"
  shows "\<exists>t'. getCurrentBlindLevel levels s now = Some t' \<and> currentIndex t' = currentIndex t \<and> isBreak t' = isBreak t"
proof (cases "find_level s (t0 - s) 0 0 levels")
  case None
  then have "find_level s (now - s) 0 0 levels = None" using find_level_over assms(2) by simp
  then show ?thesis using None assms(1) by (auto simp: getCurrentBlindLevel_def split: if_splits)
next
  case (Some t1)
  then have "find_level s (now - s) 0 0 levels = Some t1"
    using find_level_later[OF Some, of "now - s"] assms by (simp add: getCurrentBlindLevel_def)
  then show ?thesis using Some assms(1) by (simp add: getCurrentBlindLevel_def)
qed

lemma level_exists: "levels \<noteq> [] \<Longrightarrow> \<exists>c. getCurrentBlindLevel levels s now = Some c"
  by (auto simp: getCurrentBlindLevel_def split: option.split)

section \<open>The cache\<close>

lemma blind_now_fields [simp]: "blind_now wall (b\<lparr>bfServerTime := x\<rparr>) = blind_now wall b"
  "blind_now wall (b\<lparr>bfCurrentBlindLv := i\<rparr>) = blind_now wall b" "blind_now wall (b\<lparr>bfNextLevelAt := n\<rparr>) = blind_now wall b"
  "blind_now wall (b\<lparr>bfIsBreak := k\<rparr>) = blind_now wall b"
  by (simp_all add: blind_now_def)

lemma field_reading: "reading wall (field_watch b) = blind_now wall b - bfStartedAt b"
  by (simp add: field_watch_def blind_now_def split: option.split)

text \<open>Asking for the level gives what a fresh calculation gives, and leaves a right cache behind.\<close>

lemma check_level:
  assumes b: "boBlind board = Some b" and ok: "force \<or> cache_ok wall b" and ne: "bfBlindStructure b \<noteq> []"
  obtains b' where "fst (checkAndSyncBlindLevel force wall board) = Inr (Some b')"
    "level_at (bfBlindStructure b) (reading wall (field_watch b)) = Some (bfCurrentBlindLv b', bfIsBreak b')"
    "\<exists>b''. boBlind (snd (checkAndSyncBlindLevel force wall board)) = Some b'' \<and> cache_ok wall b''
       \<and> field_watch b'' = field_watch b \<and> bfBlindStructure b'' = bfBlindStructure b"
proof -
  let ?now = "blind_now wall b"
  obtain c where c: "getCurrentBlindLevel (bfBlindStructure b) (bfStartedAt b) ?now = Some c"
    using level_exists[OF ne] by blast
  have lvl: "level_at (bfBlindStructure b) (reading wall (field_watch b)) = Some (currentIndex c, isBreak c)"
    using level_at_now[of "bfBlindStructure b" "bfStartedAt b" ?now] c by (simp add: field_reading)
  let ?cached = "\<not> force \<and> bfNextLevelAt b \<noteq> 0 \<and> ?now < bfNextLevelAt b"
  let ?new = "b\<lparr>bfCurrentBlindLv := currentIndex c, bfNextLevelAt := nextLevelAt c, bfIsBreak := isBreak c, bfServerTime := wall\<rparr>"
  consider (cached) ?cached | (fresh) "\<not> ?cached" "force \<or> currentIndex c \<noteq> bfCurrentBlindLv b \<or> isBreak c \<noteq> bfIsBreak b"
    | (same) "\<not> ?cached" "\<not> (force \<or> currentIndex c \<noteq> bfCurrentBlindLv b \<or> isBreak c \<noteq> bfIsBreak b)" by blast
  then show ?thesis
  proof cases
    case cached
    obtain t0 t where t: "t0 \<le> ?now" "getCurrentBlindLevel (bfBlindStructure b) (bfStartedAt b) t0 = Some t"
      "bfCurrentBlindLv b = currentIndex t" "bfIsBreak b = isBreak t" "bfNextLevelAt b = nextLevelAt t"
      using ok cached by (auto simp: cache_ok_def)
    then have "currentIndex c = bfCurrentBlindLv b" "isBreak c = bfIsBreak b"
      using cached_level[OF t(2,1)] cached c by auto
    then show ?thesis
      using that[of "b\<lparr>bfServerTime := wall\<rparr>"] cached b ok lvl by (simp add: checkAndSyncBlindLevel_def)
  next
    case fresh
    have "cache_ok wall ?new" unfolding cache_ok_def using c by (auto intro!: exI[of _ ?now])
    moreover have "field_watch ?new = field_watch b" by (simp add: field_watch_def split: option.split)
    ultimately show ?thesis using that[of ?new] fresh b c lvl by (auto simp: checkAndSyncBlindLevel_def Let_def)
  next
    case same
    then have "checkAndSyncBlindLevel force wall board = (Inr (Some b), board)"
      using b c by (auto simp: checkAndSyncBlindLevel_def)
    then show ?thesis using that[of b] b lvl ok same by simp
  qed
qed

section \<open>The row\<close>

lemma mark_watch:
  assumes "row_ok t" "syStatus t \<in> {ONGOING, SYNCING}"
  shows "row_watch (markSyncing p t) = stop_at p (row_watch t) \<and> row_ok (markSyncing p t)"
  using assms by (auto simp: row_ok_def row_watch_def markSyncing_def split: option.split)

lemma sync_read_ok: "row_ok t \<Longrightarrow> sync_read t = (if syStatus t = SYNCING then Some t else None)"
  by (auto simp: row_ok_def sync_read_def)

lemma complete_row:
  assumes "row_ok (swRow w)" "syStatus (swRow w) = SYNCING" "the (syPausedAt (swRow w)) \<le> now"
  shows "fst (completeSync now w)"
    "row_watch (swRow (snd (completeSync now w))) = resume_at now (row_watch (swRow w))"
    "row_ok (swRow (snd (completeSync now w)))" "syStatus (swRow (snd (completeSync now w))) = ONGOING"
    "swLineDown (snd (completeSync now w)) = False"
proof -
  obtain p where p: "syPausedAt (swRow w) = Some p" using assms(1,2) by (auto simp: row_ok_def)
  have c: "completeSync now w = sync_commit (swRow w) now w"
    using assms(1,2) by (simp add: completeSync_def sync_read_ok)
  show "fst (completeSync now w)"
    "row_watch (swRow (snd (completeSync now w))) = resume_at now (row_watch (swRow w))"
    "row_ok (swRow (snd (completeSync now w)))" "syStatus (swRow (snd (completeSync now w))) = ONGOING"
    "swLineDown (snd (completeSync now w)) = False"
    using assms p unfolding c by (simp_all add: sync_commit_def Let_def row_watch_def row_ok_def sync_delta_def)
qed

section \<open>The board\<close>

lemma forced_check:
  assumes "bfBlindStructure b \<noteq> []" "field_watch b = sw"
  obtains b' where "fst (checkAndSyncBlindLevel True now (board\<lparr>boBlind := Some b\<rparr>)) = Inr (Some b')"
    "\<exists>b''. boBlind (snd (checkAndSyncBlindLevel True now (board\<lparr>boBlind := Some b\<rparr>))) = Some b''
       \<and> cache_ok now b'' \<and> field_watch b'' = sw \<and> bfBlindStructure b'' = bfBlindStructure b"
proof -
  have b: "boBlind (board\<lparr>boBlind := Some b\<rparr>) = Some b" and f: "True \<or> cache_ok now b" by simp_all
  from check_level[OF b f assms(1)] obtain b' where
    "fst (checkAndSyncBlindLevel True now (board\<lparr>boBlind := Some b\<rparr>)) = Inr (Some b')"
    "\<exists>b''. boBlind (snd (checkAndSyncBlindLevel True now (board\<lparr>boBlind := Some b\<rparr>))) = Some b''
       \<and> cache_ok now b'' \<and> field_watch b'' = field_watch b \<and> bfBlindStructure b'' = bfBlindStructure b" by blast
  then show ?thesis using that assms(2) by simp
qed

lemma freeze_follows:
  assumes "row_ok t" "boBlind board = Some b" "bfBlindStructure b \<noteq> []"
  obtains b' where "fst (freeze_board game now t board)" "boBlind (snd (freeze_board game now t board)) = Some b'"
    "cache_ok now b'" "field_watch b' = row_watch t" "bfBlindStructure b' = bfBlindStructure b"
proof -
  obtain started where st: "syStartedAt t = Some started" using assms(1) by (auto simp: row_ok_def)
  define b0 where "b0 = b\<lparr>bfStartedAt := started + syPausedMs t, bfPausedAt := syPausedAt t\<rparr>"
  define r where "r = checkAndSyncBlindLevel True now (board\<lparr>boBlind := Some b0\<rparr>)"
  have w: "bfBlindStructure b0 \<noteq> []" "field_watch b0 = row_watch t"
    using st assms(3) by (simp_all add: b0_def field_watch_def row_watch_def split: option.split)
  obtain b' b'' where r': "fst r = Inr (Some b')" "boBlind (snd r) = Some b''" "cache_ok now b''"
    "field_watch b'' = row_watch t" "bfBlindStructure b'' = bfBlindStructure b0"
    using forced_check[OF w, of now board] unfolding r_def by blast
  have "freeze_board game now t board = (True, snd r)"
    using st assms(2) r'(1) by (cases r) (simp add: freeze_board_def Let_def b0_def[symmetric] r_def[symmetric])
  then show ?thesis using that r' by (simp add: b0_def)
qed


section \<open>Properties\<close>


definition running_row :: sync_row where
  "running_row = \<lparr>syStatus = ONGOING, syStartedAt = Some 1000, syPausedMs = 0, syPausedAt = None\<rparr>"

definition sync_demo :: sync_world where
  "sync_demo = \<lparr>swRow = markSyncing 601000 running_row,
     swBoard = \<lparr>boBlind = None, boRebuyUntil = None, boRegistrationOpen = True\<rparr>,
     swLineDown = True, swRedisUp = True, swLastDealerSeenAt = None, swForcedAt = None\<rparr>"


text \<open>C30. The level that is read is the level of the stopwatch. After a freeze the board follows the row, and every reading of
  the blind clock, cached or recomputed, gives the level and the break a fresh calculation gives for the reading of the
  row's watch; while the tournament is paused that level stays the same.\<close>

theorem blind_level_follows_watch:
  assumes "row_ok t" and "boBlind board = Some b" and "bfBlindStructure b \<noteq> []" and "now \<le> wall"
  shows "\<exists>b'. fst (checkAndSyncBlindLevel False wall (snd (freeze_board game now t board))) = Inr (Some b')
    \<and> level_at (bfBlindStructure b) (reading wall (row_watch t)) = Some (bfCurrentBlindLv b', bfIsBreak b')
    \<and> (syStatus t = SYNCING \<longrightarrow> level_at (bfBlindStructure b) (reading now (row_watch t)) = Some (bfCurrentBlindLv b', bfIsBreak b'))"
proof -
  obtain b1 where b1: "boBlind (snd (freeze_board game now t board)) = Some b1" "cache_ok now b1"
    "field_watch b1 = row_watch t" "bfBlindStructure b1 = bfBlindStructure b"
    by (rule freeze_follows[OF assms(1-3), of game now])
  have "blind_now now b1 \<le> blind_now wall b1" using assms(4) by (simp add: blind_now_def split: option.split)
  then have later: "False \<or> cache_ok wall b1" using b1(2) order_trans by (auto simp: cache_ok_def)
  have "bfBlindStructure b1 \<noteq> []" using assms(3) b1(4) by simp
  from check_level[OF b1(1) later this] obtain b' where
    b': "fst (checkAndSyncBlindLevel False wall (snd (freeze_board game now t board))) = Inr (Some b')"
    "level_at (bfBlindStructure b1) (reading wall (field_watch b1)) = Some (bfCurrentBlindLv b', bfIsBreak b')" by blast
  have "reading wall (row_watch t) = reading now (row_watch t)" if "syStatus t = SYNCING"
    using that assms(1) by (auto simp: row_ok_def row_watch_def)
  then show ?thesis using b' b1(3,4) by auto
qed

definition demo_field :: blind_field where
  "demo_field = \<lparr>bfIsBreak = False, bfStartedAt = 1000, bfCurrentBlindLv = 0, bfNextLevelAt = 0, bfServerTime = 0,
     bfBlindStructure = [\<lparr>lv = 1, sb = 100, hasAnte = False, duration = 5\<rparr>, \<lparr>lv = 2, sb = 200, hasAnte = True, duration = 10\<rparr>],
     bfPausedAt = None\<rparr>"

theorem blind_level_follows_watch_witness:
  "\<exists>b'. fst (checkAndSyncBlindLevel False 9000000 (snd (freeze_board sample_meta 700000 (markSyncing 601000 running_row)
      \<lparr>boBlind = Some demo_field, boRebuyUntil = Some 3, boRegistrationOpen = True\<rparr>))) = Inr (Some b')
    \<and> bfCurrentBlindLv b' = 1"
proof -
  let ?board = "\<lparr>boBlind = Some demo_field, boRebuyUntil = Some 3, boRegistrationOpen = True\<rparr>"
  have "row_ok (markSyncing 601000 running_row)" "boBlind ?board = Some demo_field" "bfBlindStructure demo_field \<noteq> []"
    "(700000::int) \<le> 9000000" by (simp_all add: running_row_def markSyncing_def row_ok_def demo_field_def)
  moreover have "level_at (bfBlindStructure demo_field) (reading 9000000 (row_watch (markSyncing 601000 running_row))) = Some (1, False)"
    by code_simp
  ultimately show ?thesis using blind_level_follows_watch[of "markSyncing 601000 running_row" ?board demo_field 700000 9000000 sample_meta]
    by auto
qed

text \<open>A pause is counted once. Of two callers that have read the paused row, only the first ends the pause and adds its
  length; the other changes nothing.\<close>

theorem sync_completes_once:
  assumes "sync_read (swRow w) = Some t"
  shows "fst (sync_commit t now w) \<and> sync_commit t now' (snd (sync_commit t now w)) = (False, snd (sync_commit t now w))
    \<and> syPausedMs (swRow (snd (sync_commit t now w))) = syPausedMs (swRow w) + max 0 (now - the (syPausedAt (swRow w)))"
  using assms by (auto simp: sync_read_def sync_commit_def Let_def sync_delta_def split: if_splits)

theorem sync_completes_once_witness:
  "syPausedMs (swRow (snd (sync_commit (swRow sync_demo) 900000 sync_demo))) = 299000"
proof -
  have r: "sync_read (swRow sync_demo) = Some (swRow sync_demo)" "syPausedMs (swRow sync_demo) = 0"
    "the (syPausedAt (swRow sync_demo)) = 601000"
    by (simp_all add: sync_demo_def sync_read_def running_row_def markSyncing_def)
  show ?thesis using sync_completes_once[OF r(1), of 900000 0] r(2,3) by simp
qed

lemma complete_gateway:
  "swRedisUp (snd (completeSync now w)) = swRedisUp w" "swForcedAt (snd (completeSync now w)) = swForcedAt w"
  "swLastDealerSeenAt (snd (completeSync now w)) = swLastDealerSeenAt w"
  by (auto simp: completeSync_def sync_commit_def Let_def split: option.split)

lemma complete_done: "fst (completeSync now w) \<Longrightarrow> syStatus (swRow (snd (completeSync now w))) = ONGOING \<and> \<not> swLineDown (snd (completeSync now w))"
  by (auto simp: completeSync_def sync_commit_def Let_def split: option.splits if_splits)

text \<open>After the store has forced a tournament on, the line is blamed again only once a dealer has answered after that:
  whatever sockets are swept that last answered before, \<open>pauseIfNoDealer\<close> leaves the tournament running.\<close>

theorem forced_sync_stays:
  assumes "forceSync now w = (Inr True, w')" and "0 \<le> now" "seen \<le> now"
    and "swLastDealerSeenAt w \<noteq> None \<longrightarrow> the (swLastDealerSeenAt w) \<le> now"
  shows "pauseIfNoDealer game False later (dealer_gone seen w') = (False, dealer_gone seen w')
    \<and> syStatus (swRow w') = ONGOING \<and> \<not> swLineDown w'"
proof -
  define w1 where "w1 = snd (completeSync now w)"
  have c: "w' = w1\<lparr>swForcedAt := Some now\<rparr>" "fst (completeSync now w)"
    using assms(1) by (auto simp: forceSync_def w1_def split: if_splits prod.splits bool.splits)
  have "swLastDealerSeenAt w' = swLastDealerSeenAt w" using c(1) complete_gateway(3)[of now w] by (simp add: w1_def)
  then have "pauseIfNoDealer game False later (dealer_gone seen w') = (False, dealer_gone seen w')"
    using c(1) assms(2-4) by (auto simp: pauseIfNoDealer_def dealer_gone_def Let_def split: option.splits)
  then show ?thesis using complete_done[OF c(2)] c(1) by (simp add: w1_def)
qed

theorem forced_sync_stays_witness:
  "\<exists>w'. forceSync 900000 sync_demo = (Inr True, w')
     \<and> pauseIfNoDealer sample_meta False 920000 (dealer_gone 899000 w') = (False, dealer_gone 899000 w')"
proof -
  have "fst (forceSync 900000 sync_demo) = Inr True"
    by (simp add: forceSync_def sync_demo_def running_row_def markSyncing_def completeSync_def sync_read_def
        sync_commit_def Let_def)
  then obtain w' where w': "forceSync 900000 sync_demo = (Inr True, w')" by (cases "forceSync 900000 sync_demo") auto
  moreover have "swLastDealerSeenAt sync_demo = None" by (simp add: sync_demo_def)
  ultimately show ?thesis using forced_sync_stays[OF w', of 899000 sample_meta 920000] by auto
qed

text \<open>C31. A dead dealer's pause is counted twice. When a tournament is resumed at \<open>now\<close> and its last dealer turns out to have been
  silent since an earlier moment, the line pause starts at that earlier moment: the watch goes back by the time in
  between, although that time already belongs to the pause before. Only \<open>forceSync\<close> guards against it.\<close>

theorem dead_dealer_counted_twice:
  assumes "row_ok (swRow w)" "syStatus (swRow w) = SYNCING" "the (syPausedAt (swRow w)) \<le> now"
    and "swRedisUp w" "swForcedAt w = None" "swLastDealerSeenAt w = None" "0 \<le> seen" "seen \<le> now"
  shows "reading later (row_watch (swRow (snd (pauseIfNoDealer game False later (dealer_gone seen (snd (completeSync now w)))))))
    = reading now (row_watch (swRow w)) - (now - seen)"
proof -
  define w1 where "w1 = snd (completeSync now w)"
  have w1: "syStatus (swRow w1) = ONGOING" "row_ok (swRow w1)" "row_watch (swRow w1) = resume_at now (row_watch (swRow w))"
    using complete_row[OF assms(1-3)] by (simp_all add: w1_def)
  have "swRow (snd (pauseIfNoDealer game False later (dealer_gone seen w1))) = markSyncing seen (swRow w1)"
    using assms(4-8) w1(1) complete_gateway[of now w]
    by (simp add: pauseIfNoDealer_def dealer_gone_def pauseForLineOutage_def Let_def w1_def)
  moreover have "row_watch (markSyncing seen (swRow w1)) = stop_at seen (resume_at now (row_watch (swRow w)))"
    using mark_watch[OF w1(2), of seen] w1(1,3) by simp
  moreover obtain r where "row_watch (swRow w) = Stopped r" using assms(1,2) by (auto simp: row_ok_def row_watch_def)
  ultimately show ?thesis by (simp add: w1_def)
qed

theorem dead_dealer_counted_twice_witness:
  "reading 920000 (row_watch (swRow (snd (pauseIfNoDealer sample_meta False 920000
     (dealer_gone 891000 (snd (completeSync 900000 sync_demo))))))) = 591000"
proof -
  have "row_ok (swRow sync_demo)" "syStatus (swRow sync_demo) = SYNCING" "the (syPausedAt (swRow sync_demo)) \<le> 900000"
    "swRedisUp sync_demo" "swForcedAt sync_demo = None" "swLastDealerSeenAt sync_demo = None"
    "reading 900000 (row_watch (swRow sync_demo)) = 600000"
    by (simp_all add: sync_demo_def running_row_def markSyncing_def row_ok_def row_watch_def)
  then show ?thesis using dead_dealer_counted_twice[of sync_demo 900000 891000 920000 sample_meta] by simp
qed

end
