(* ===== verification/Recovery.thy ===== *)
theory Recovery
  imports SeatMap Syncing Ledger
begin

text \<open>
  Recovery at boot and after a Redis outage (\<open>recovery/recovery.service.ts\<close>: \<open>recoverAll\<close>, \<open>recoverTournament\<close>,
  \<open>freezeTournament\<close>, \<open>rebuildTable\<close>, \<open>onRedisDown\<close>, \<open>recoverFromOutage\<close>). A tournament is its row, its board, its
  participations, its tables with their seat rows, and per table the snapshot and queue of \<open>TablePlay\<close> and the row of the
  seat map. The clock, the random draw of a button and which tables the pause cannot reach are arguments; Redis and the
  database answer otherwise. Display counters on the board are not modelled.
\<close>

section \<open>State\<close>

record table_row =
  trId :: string
  trButton :: "int option"
  trSeats :: "(string \<times> string option \<times> int) list"

record room =
  rmSync :: sync_row
  rmBoard :: blind_board
  rmLine :: bool
  rmParts :: "participation list"
  rmTables :: "table_row list"
  rmService :: "string \<Rightarrow> table_service"
  rmMap :: seat_map
  rmContext :: "string \<Rightarrow> (string \<times> int) option"

datatype recovery_error =
    NotStarted
  | BoardBroken
  | BlindMissing
  | LevelMissing
  | NobodyToSeat

definition put_service :: "string \<Rightarrow> table_service \<Rightarrow> room \<Rightarrow> room" where
  "put_service tb s w = w\<lparr>rmService := (rmService w)(tb := s)\<rparr>"

section \<open>Rebuilding a table from the database\<close>

text \<open>The stacks of the players who still play.\<close>

definition stackOf :: "participation list \<Rightarrow> string \<Rightarrow> int option" where
  "stackOf parts u = map_option pStack (List.find (\<lambda>p. pUser p = u \<and> pStatus p = PLAYING) parts)"

definition row_player :: "string \<Rightarrow> string \<Rightarrow> string option \<Rightarrow> int \<Rightarrow> int \<Rightarrow> table_player" where
  "row_player tb u nick pos chips =
     \<lparr>player_id = u, tableId = tb, nickname = (case nick of None \<Rightarrow> '''' | Some n \<Rightarrow> n), seatIndex = pos, stack = chips,
      bet = 0, hasFolded = False, hasChecked = False, isAllIn = False, totalContributed = 0\<rparr>"

fun seat_rows ::
  "string \<Rightarrow> (string \<Rightarrow> int option) \<Rightarrow> (string \<times> string option \<times> int) list \<Rightarrow> table_player option list \<Rightarrow> int list
   \<Rightarrow> table_player option list \<times> int list" where
  "seat_rows tb stk [] ps seated = (ps, seated)"
| "seat_rows tb stk ((u, nick, pos) # rows) ps seated =
     (case stk u of
        None \<Rightarrow> seat_rows tb stk rows ps seated
      | Some chips \<Rightarrow> seat_rows tb stk rows (js_array_set ps pos (row_player tb u nick pos chips)) (seated @ [pos]))"

definition drawFirstButton :: "nat \<Rightarrow> int list \<Rightarrow> int option" where
  "drawFirstButton pick seated = (if seated = [] then None else Some (seated ! (pick mod length seated)))"

definition rebuilt_state :: "string \<Rightarrow> blind_level \<Rightarrow> table_player option list \<Rightarrow> int \<Rightarrow> table_state" where
  "rebuilt_state t level ps button =
     \<lparr>phase = WAITING, players = ps, buttonUser = button, currentTurnSeatIndex = -1, pot = 0, sidePots = [], currentBet = 0,
      smallBlind = sb level, ante = deriveAnteAmount (sb level) (hasAnte level), actionDeadline = None,
      resumePending = None, timerEpoch = None, lastRaiseSize = None, dbSyncStatus = None, rebuyPending = None,
      tournamentId = t\<rparr>"

text \<open>The level the board says a new hand is played at; the inner \<open>None\<close> is an index outside of the structure, which is
  noticed only when the level is used.\<close>

definition board_level :: "int \<Rightarrow> blind_board \<Rightarrow> (recovery_error + blind_level option) \<times> blind_board" where
  "board_level now board =
     (case checkAndSyncBlindLevel False now board of
        (Inl _, board') \<Rightarrow> (Inl BlindMissing, board')
      | (Inr None, board') \<Rightarrow> (Inl BlindMissing, board')
      | (Inr (Some blind), board') \<Rightarrow>
          (Inr (if 0 \<le> bfCurrentBlindLv blind \<and> bfCurrentBlindLv blind < int (length (bfBlindStructure blind))
                then Some (bfBlindStructure blind ! nat (bfCurrentBlindLv blind)) else None), board'))"

text \<open>The checkpoint of a hand's end also saves the button with the table (the stacks are \<open>syncTableInventoryToDb\<close>).\<close>

definition sync_button :: "table_state \<Rightarrow> table_row \<Rightarrow> table_row" where
  "sync_button st row = row\<lparr>trButton := Some (buttonUser st)\<rparr>"

text \<open>Rows of players whose participation is over go with the rebuilding.\<close>

definition drop_orphans :: "(string \<Rightarrow> int option) \<Rightarrow> table_row \<Rightarrow> table_row" where
  "drop_orphans stk row =
     (let orphans = filter (\<lambda>(u, nick, pos). stk u = None) (trSeats row)
      in row\<lparr>trSeats := filter (\<lambda>(u, nick, pos). pos \<notin> (\<lambda>(u, nick, pos). pos) ` set orphans) (trSeats row)\<rparr>)"

definition put_row :: "string \<Rightarrow> (table_row \<Rightarrow> table_row) \<Rightarrow> room \<Rightarrow> room" where
  "put_row tb f w = w\<lparr>rmTables := map (\<lambda>r. if trId r = tb then f r else r) (rmTables w)\<rparr>"

definition contexts :: "string \<Rightarrow> table_player option list \<Rightarrow> int list \<Rightarrow> (string \<Rightarrow> (string \<times> int) option) \<Rightarrow> string \<Rightarrow> (string \<times> int) option" where
  "contexts tb ps seated c =
     fold (\<lambda>i c. case slot ps i of None \<Rightarrow> c | Some p \<Rightarrow> c(player_id p \<mapsto> (tb, i))) seated c"

definition rebuildTable :: "string \<Rightarrow> int \<Rightarrow> nat \<Rightarrow> table_row \<Rightarrow> room \<Rightarrow> recovery_error option \<times> room" where
  "rebuildTable t now pick row w =
     (let stk = stackOf (rmParts w) in
      case board_level now (rmBoard w) of
        (Inl e, board') \<Rightarrow> (Some e, w\<lparr>rmBoard := board'\<rparr>)
      | (Inr lev, board') \<Rightarrow>
        (case seat_rows (trId row) stk (trSeats row) (replicate SEAT_COUNT None) [] of
           (ps, seated) \<Rightarrow>
           (case (case trButton row of Some b \<Rightarrow> Some b | None \<Rightarrow> drawFirstButton pick seated) of
              None \<Rightarrow> (Some NobodyToSeat, w\<lparr>rmBoard := board'\<rparr>)
            | Some button \<Rightarrow>
              (let w1 = put_row (trId row) (drop_orphans stk) (w\<lparr>rmBoard := board'\<rparr>) in
               case lev of
                 None \<Rightarrow> (Some LevelMissing, w1)
               | Some level \<Rightarrow>
                   (None,
                    w1\<lparr>rmService := (rmService w1)(trId row :=
                         (rmService w1 (trId row))\<lparr>svState := Some (rebuilt_state t level ps button)\<rparr>),
                       rmMap := rebuildSeatBitmap (trId row) seated (rmMap w1),
                       rmContext := contexts (trId row) ps seated (rmContext w1)\<rparr>)))))"

section \<open>Freezing\<close>

text \<open>\<open>reached tb\<close>: the critical section of the pause could be run; an error there is logged only.\<close>

definition pause_tables ::
  "bool \<Rightarrow> bool \<Rightarrow> (string \<Rightarrow> bool) \<Rightarrow> (string \<Rightarrow> bool) \<Rightarrow> int \<Rightarrow> room \<Rightarrow> room" where
  "pause_tables overwrite lineDown reached sameOutage downTime w =
     fold (\<lambda>row w. if trSeats row \<noteq> [] \<and> reached (trId row)
                    then put_service (trId row)
                      (pauseTable overwrite lineDown (sameOutage (trId row)) downTime (rmService w (trId row))) w
                    else w) (rmTables w) w"

definition freezeTournament ::
  "meta_source \<Rightarrow> int \<Rightarrow> bool \<Rightarrow> bool \<Rightarrow> (string \<Rightarrow> bool) \<Rightarrow> (string \<Rightarrow> bool) \<Rightarrow> int \<Rightarrow> room
   \<Rightarrow> recovery_error option \<times> room" where
  "freezeTournament game now overwrite lineDown reached sameOutage downTime w =
     (if syStartedAt (rmSync w) = None then (Some NotStarted, w)
      else (case freeze_board game now (rmSync w) (rmBoard w) of
              (False, board') \<Rightarrow> (Some BoardBroken, w\<lparr>rmBoard := board'\<rparr>)
            | (True, board') \<Rightarrow>
                (None, pause_tables overwrite lineDown reached sameOutage downTime (w\<lparr>rmBoard := board'\<rparr>))))"

section \<open>One tournament at boot\<close>

definition sync_world_of :: "room \<Rightarrow> sync_world" where
  "sync_world_of w = \<lparr>swRow = rmSync w, swBoard = rmBoard w, swLineDown = rmLine w, swRedisUp = True,
     swLastDealerSeenAt = None, swForcedAt = None\<rparr>"

definition room_completeSync :: "int \<Rightarrow> room \<Rightarrow> room" where
  "room_completeSync now w =
     (let s = snd (completeSync now (sync_world_of w))
      in w\<lparr>rmSync := swRow s, rmBoard := swBoard s, rmLine := swLineDown s\<rparr>)"

text \<open>A table's seats in the order of the snapshot.\<close>

definition occupied_seats :: "table_state \<Rightarrow> int list" where
  "occupied_seats st = filter (\<lambda>i. seat st i \<noteq> None) (map int [0..<length (players st)])"

definition rebuild_map_if_lost :: "string \<Rightarrow> int list \<Rightarrow> room \<Rightarrow> room" where
  "rebuild_map_if_lost tb seats w =
     (if getTableSeatStatus tb (rmMap w) = [] then w\<lparr>rmMap := rebuildSeatBitmap tb seats (rmMap w)\<rparr> else w)"

definition recover_table :: "string \<Rightarrow> int \<Rightarrow> (string \<Rightarrow> nat) \<Rightarrow> table_row \<Rightarrow> room \<Rightarrow> room" where
  "recover_table t now pick row w =
     (if trSeats row = [] then
        (let w' = rebuild_map_if_lost (trId row) [] w in
         case svState (rmService w' (trId row)) of
           None \<Rightarrow> put_service (trId row) ((rmService w' (trId row))\<lparr>svState := Some (createEmptyTableState t)\<rparr>) w'
         | Some _ \<Rightarrow> w')
      else (case svState (rmService w (trId row)) of
              Some existing \<Rightarrow> rebuild_map_if_lost (trId row) (occupied_seats existing) w
            | None \<Rightarrow> snd (rebuildTable t now (pick (trId row)) row w)))"

text \<open>\<open>stale\<close> lists fields of the seat map whose table has no row any more.\<close>

definition anyone_seated :: "string list \<Rightarrow> room \<Rightarrow> bool" where
  "anyone_seated stale w =
     list_ex (\<lambda>tb. case table_seats (rmMap w) tb of None \<Rightarrow> False | Some bs \<Rightarrow> list_ex id bs) (map trId (rmTables w) @ stale)"

definition recoverTournament ::
  "meta_source \<Rightarrow> int \<Rightarrow> (string \<Rightarrow> bool) \<Rightarrow> (string \<Rightarrow> nat) \<Rightarrow> string list \<Rightarrow> int \<Rightarrow> int \<Rightarrow> string \<Rightarrow> room
   \<Rightarrow> recovery_error option \<times> room" where
  "recoverTournament game now reached pick stale downtime pauseStartedAt t w =
     (let w1 = w\<lparr>rmSync := markSyncing pauseStartedAt (rmSync w)\<rparr> in
      case freezeTournament game now True False reached (\<lambda>_. True) downtime w1 of
        (Some e, w2) \<Rightarrow> (Some e, w2)
      | (None, w2) \<Rightarrow>
          let w3 = fold (recover_table t now pick) (rmTables w2) w2
          in (None, if anyone_seated stale w3 then w3 else room_completeSync now w3))"

section \<open>The server\<close>

record server =
  seBeat :: "int option"
  seBooting :: bool
  seFromBoot :: bool
  seRooms :: "(string \<times> room) list"

text \<open>One tournament whose recovery fails does not keep the others from theirs.\<close>

definition recoverAll ::
  "(string \<Rightarrow> meta_source) \<Rightarrow> int \<Rightarrow> (string \<Rightarrow> bool) \<Rightarrow> (string \<Rightarrow> nat) \<Rightarrow> (string \<Rightarrow> string list) \<Rightarrow> server \<Rightarrow> server" where
  "recoverAll games now reached pick stale sv =
     (let downtime = (case seBeat sv of None \<Rightarrow> 0 | Some b \<Rightarrow> max 0 (now - b));
          pauseStartedAt = (case seBeat sv of None \<Rightarrow> now | Some b \<Rightarrow> b)
      in sv\<lparr>seBeat := Some now, seBooting := False, seFromBoot := False,
            seRooms := map (\<lambda>(t, w).
              (t, if isLiveTournament (syStatus (rmSync w))
                  then snd (recoverTournament (games t) now reached pick (stale t) downtime pauseStartedAt t w) else w))
              (seRooms sv)\<rparr>)"

definition onRedisDown :: "int \<Rightarrow> bool \<Rightarrow> server \<Rightarrow> server" where
  "onRedisDown downSinceAt wasBooting sv =
     (let sv1 = sv\<lparr>seRooms := map (\<lambda>(t, w). (t, w\<lparr>rmLine := False\<rparr>)) (seRooms sv),
                   seFromBoot := seFromBoot sv \<or> wasBooting\<rparr>
      in if seBooting sv1 \<or> seFromBoot sv1 then sv1
         else sv1\<lparr>seRooms := map (\<lambda>(t, w). (t, w\<lparr>rmSync := markSyncing downSinceAt (rmSync w)\<rparr>)) (seRooms sv1)\<rparr>)"

definition recoverFromOutage ::
  "(string \<Rightarrow> meta_source) \<Rightarrow> int \<Rightarrow> int \<Rightarrow> (string \<Rightarrow> bool) \<Rightarrow> (string \<Rightarrow> bool) \<Rightarrow> server \<Rightarrow> server" where
  "recoverFromOutage games now downSinceAt reached sameOutage sv =
     (let marked = (if seFromBoot sv then seRooms sv
                    else map (\<lambda>(t, w). (t, w\<lparr>rmSync := markSyncing downSinceAt (rmSync w)\<rparr>)) (seRooms sv))
      in sv\<lparr>seRooms := map (\<lambda>(t, w).
            (t, if syStatus (rmSync w) = SYNCING
                then snd (freezeTournament (games t) now False False reached sameOutage (now - downSinceAt) w) else w)) marked\<rparr>)"

end
