(* ===== verification/RecoveryProps.thy ===== *)
theory RecoveryProps
  imports Recovery SeatMapProps SyncingProps TableService LedgerProps
begin

text \<open>
  After a recovery every table of a tournament has a snapshot that satisfies the invariant of the table service and a row of
  the seat map that shows it; every hand that was running is paused and its queued timeouts are void; a table that lost
  its snapshot comes back as its last checkpoint left it.
\<close>

section \<open>Seats from rows\<close>

abbreviation row_pos :: "string \<times> string option \<times> int \<Rightarrow> int" where
  "row_pos r \<equiv> snd (snd r)"

abbreviation row_user :: "string \<times> string option \<times> int \<Rightarrow> string" where
  "row_user r \<equiv> fst r"

definition fill_seat :: "string \<Rightarrow> (string \<Rightarrow> int option) \<Rightarrow> string \<times> string option \<times> int \<Rightarrow> table_player" where
  "fill_seat tb stk r = row_player tb (fst r) (fst (snd r)) (snd (snd r)) (the (stk (fst r)))"

abbreviation playing_rows :: "(string \<Rightarrow> int option) \<Rightarrow> (string \<times> string option \<times> int) list \<Rightarrow> (string \<times> string option \<times> int) list" where
  "playing_rows stk rows \<equiv> filter (\<lambda>r. stk (fst r) \<noteq> None) rows"

lemma seat_rows_fold:
  assumes "\<forall>r\<in>set rows. 0 \<le> row_pos r \<and> row_pos r < int (length ps)"
  shows "seat_rows tb stk rows ps seated =
    (fold (\<lambda>r ps. ps[nat (row_pos r) := Some (fill_seat tb stk r)]) (playing_rows stk rows) ps,
     seated @ map row_pos (playing_rows stk rows))"
  using assms
proof (induction tb stk rows ps seated rule: seat_rows.induct)
  case (2 tb stk u nick pos rows ps seated)
  show ?case
  proof (cases "stk u")
    case None
    then show ?thesis using 2 by simp
  next
    case (Some chips)
    have "js_array_set ps pos (row_player tb u nick pos chips) = ps[nat pos := Some (fill_seat tb stk (u, nick, pos))]"
      using 2(3) Some by (auto simp: js_array_set_def fill_seat_def)
    then show ?thesis using 2(2)[OF Some] 2(3) Some by simp
  qed
qed simp

lemma fold_place_other:
  "k \<notin> f ` set xs \<Longrightarrow> fold (\<lambda>x ps. ps[f x := g x]) xs ps ! k = ps ! k"
  by (induction xs arbitrary: ps) auto

lemma fold_place:
  assumes "distinct (map f xs)" "x \<in> set xs" "f x < length ps"
  shows "fold (\<lambda>x ps. ps[f x := g x]) xs ps ! f x = g x"
  using assms
proof (induction xs arbitrary: ps)
  case (Cons y xs)
  show ?case
  proof (cases "x = y")
    case True
    then show ?thesis using Cons.prems fold_place_other[of "f x" f xs g "ps[f y := g y]"] by simp
  next
    case False
    then show ?thesis using Cons by simp
  qed
qed simp

text \<open>Rows as the schema of the database keeps them: every seat and every player once, seats on the table.\<close>

definition rows_ok :: "table_row \<Rightarrow> bool" where
  "rows_ok row \<longleftrightarrow> distinct (map row_pos (trSeats row)) \<and> distinct (map row_user (trSeats row))
     \<and> (\<forall>r\<in>set (trSeats row). 0 \<le> row_pos r \<and> row_pos r < int SEAT_COUNT)"

definition built_seats :: "table_row \<Rightarrow> (string \<Rightarrow> int option) \<Rightarrow> table_player option list" where
  "built_seats row stk = fst (seat_rows (trId row) stk (trSeats row) (replicate SEAT_COUNT None) [])"

lemma fold_place_length [simp]: "length (fold (\<lambda>x ps. ps[f x := g x]) xs ps) = length ps"
  by (induction xs arbitrary: ps) auto

lemma seat_rows_built:
  assumes "rows_ok row"
  shows "seat_rows (trId row) stk (trSeats row) (replicate SEAT_COUNT None) []
      = (built_seats row stk, map row_pos (playing_rows stk (trSeats row)))"
    and "length (built_seats row stk) = SEAT_COUNT"
    and "built_seats row stk = fold (\<lambda>r ps. ps[nat (row_pos r) := Some (fill_seat (trId row) stk r)])
           (playing_rows stk (trSeats row)) (replicate SEAT_COUNT None)"
proof -
  have "\<forall>r\<in>set (trSeats row). 0 \<le> row_pos r \<and> row_pos r < int (length (replicate SEAT_COUNT None))"
    using assms by (simp add: rows_ok_def)
  note f = seat_rows_fold[OF this, of "trId row" stk "[]"]
  show "seat_rows (trId row) stk (trSeats row) (replicate SEAT_COUNT None) []
      = (built_seats row stk, map row_pos (playing_rows stk (trSeats row)))"
    "length (built_seats row stk) = SEAT_COUNT"
    "built_seats row stk = fold (\<lambda>r ps. ps[nat (row_pos r) := Some (fill_seat (trId row) stk r)])
           (playing_rows stk (trSeats row)) (replicate SEAT_COUNT None)"
    by (simp_all add: built_seats_def f)
qed

lemma built_seat:
  assumes "rows_ok row" "r \<in> set (trSeats row)" "stk (fst r) = Some chips"
  shows "built_seats row stk ! nat (row_pos r) = Some (fill_seat (trId row) stk r)"
proof -
  have d: "distinct (map (\<lambda>r. nat (row_pos r)) (playing_rows stk (trSeats row)))"
  proof -
    have "inj_on (\<lambda>r. nat (row_pos r)) (set (trSeats row))"
    proof (rule inj_onI)
      fix a b assume ab: "a \<in> set (trSeats row)" "b \<in> set (trSeats row)" "nat (row_pos a) = nat (row_pos b)"
      have "0 \<le> row_pos a" "0 \<le> row_pos b" using assms(1) ab(1,2) unfolding rows_ok_def by blast+
      then have "row_pos a = row_pos b" using ab(3) by (simp add: eq_nat_nat_iff)
      then show "a = b" using assms(1) ab unfolding rows_ok_def by (metis distinct_map inj_onD)
    qed
    then show ?thesis using assms(1) by (auto simp: rows_ok_def distinct_map intro: inj_on_subset)
  qed
  have m: "r \<in> set (playing_rows stk (trSeats row))" using assms(2,3) by simp
  have l: "nat (row_pos r) < length (replicate SEAT_COUNT (None :: table_player option))"
    using assms(1,2) by (auto simp: rows_ok_def)
  show ?thesis unfolding seat_rows_built(3)[OF assms(1)] by (rule fold_place[OF d m l])
qed

lemma built_none:
  assumes "rows_ok row" "k < SEAT_COUNT" "\<And>r. r \<in> set (trSeats row) \<Longrightarrow> stk (fst r) \<noteq> None \<Longrightarrow> nat (row_pos r) \<noteq> k"
  shows "built_seats row stk ! k = None"
proof -
  have "k \<notin> (\<lambda>r. nat (row_pos r)) ` set (playing_rows stk (trSeats row))" using assms(3) by auto
  from fold_place_other[OF this, of "\<lambda>r. Some (fill_seat (trId row) stk r)" "replicate SEAT_COUNT None"]
  show ?thesis unfolding seat_rows_built(3)[OF assms(1)] using assms(2) by (simp only: nth_replicate)
qed

section \<open>The rebuilt table\<close>

lemma built_someone:
  assumes "rows_ok row" "k < SEAT_COUNT" "built_seats row stk ! k = Some p"
  obtains r chips where "r \<in> set (trSeats row)" "stk (fst r) = Some chips" "row_pos r = int k" "p = fill_seat (trId row) stk r"
proof -
  have "\<exists>r\<in>set (trSeats row). stk (fst r) \<noteq> None \<and> nat (row_pos r) = k"
    using built_none[OF assms(1,2), of stk] assms(3) by (metis option.distinct(1))
  then obtain r chips where r: "r \<in> set (trSeats row)" "stk (fst r) = Some chips" "nat (row_pos r) = k" by auto
  moreover have "row_pos r = int k" using assms(1) r(1,3) unfolding rows_ok_def by fastforce
  moreover have "p = fill_seat (trId row) stk r" using built_seat[of row r stk chips, OF assms(1) r(1,2)] r(3) assms(3) by simp
  ultimately show ?thesis using that by blast
qed

lemma fill_seat_fields [simp]: "player_id (fill_seat tb stk r) = fst r" "stack (fill_seat tb stk r) = the (stk (fst r))"
  "seatIndex (fill_seat tb stk r) = row_pos r"
  by (simp_all add: fill_seat_def row_player_def)

lemma rebuilt_seat: "seat (rebuilt_state t level ps button) i = slot ps i"
  by (simp add: seat_def rebuilt_state_def)

lemma rebuilt_one_seat:
  assumes "rows_ok row"
  shows "one_seat (rebuilt_state t level (built_seats row stk) button)"
  unfolding one_seat_def slot_ids rebuilt_seat
proof (intro allI impI)
  fix i j u assume ij: "map_option player_id (slot (built_seats row stk) i) = Some u
    \<and> map_option player_id (slot (built_seats row stk) j) = Some u"
  have row: "\<exists>r\<in>set (trSeats row). fst r = u \<and> row_pos r = i" if "map_option player_id (slot (built_seats row stk) i) = Some u" for i
  proof -
    obtain p where p: "slot (built_seats row stk) i = Some p" "player_id p = u" using \<open>map_option _ _ = _\<close> by auto
    then have i: "0 \<le> i" "nat i < SEAT_COUNT" "built_seats row stk ! nat i = Some p"
      using seat_rows_built(2)[OF assms, of stk] by (auto simp: slot_def split: if_splits)
    obtain r chips where "r \<in> set (trSeats row)" "stk (fst r) = Some chips" "row_pos r = int (nat i)" "p = fill_seat (trId row) stk r"
      by (rule built_someone[OF assms i(2,3)])
    then show ?thesis using p(2) i(1) by auto
  qed
  obtain r1 r2 where r: "r1 \<in> set (trSeats row)" "r2 \<in> set (trSeats row)" "fst r1 = u" "fst r2 = u" "row_pos r1 = i" "row_pos r2 = j"
    using row[of i] row[of j] ij by blast
  then have "r1 = r2" using assms unfolding rows_ok_def by (metis distinct_map inj_onD)
  then show "i = j" using r by simp
qed

lemma rebuilt_ready:
  assumes "rows_ok row" "\<And>u chips. u \<in> row_user ` set (trSeats row) \<Longrightarrow> stk u = Some chips \<Longrightarrow> 0 < chips"
    and "0 \<le> button" "button < int SEAT_COUNT"
  shows "table_inv (rebuilt_state t level (built_seats row stk) button)"
proof -
  let ?st = "rebuilt_state t level (built_seats row stk) button"
  have "ready_player p" if "seat ?st i = Some p" for i p
  proof -
    have i: "0 \<le> i" "nat i < SEAT_COUNT" "built_seats row stk ! nat i = Some p"
      using that seat_rows_built(2)[OF assms(1), of stk] by (auto simp: rebuilt_seat slot_def split: if_splits)
    obtain r chips where "r \<in> set (trSeats row)" "stk (fst r) = Some chips" "p = fill_seat (trId row) stk r"
      by (rule built_someone[OF assms(1) i(2,3)])
    then show ?thesis using assms(2) by (auto simp: ready_player_def fill_seat_def row_player_def)
  qed
  moreover have "button_ok ?st"
    using assms(3,4) seat_rows_built(2)[OF assms(1), of stk] by (simp add: button_ok_def rebuilt_state_def)
  moreover have "phase ?st = WAITING" "pot ?st = 0" by (simp_all add: rebuilt_state_def)
  ultimately show ?thesis
    unfolding table_inv_def using rebuilt_one_seat[OF assms(1), of t level stk button] by (auto simp: betting_phases_def)
qed

lemma rebuilt_shown:
  assumes "rows_ok row"
  shows "table_seats (rebuildSeatBitmap tb (map row_pos (playing_rows stk (trSeats row))) m) tb
    = Some (seat_row (rebuilt_state t level (built_seats row stk) button))"
proof -
  have in_range: "\<forall>i\<in>set (map row_pos (playing_rows stk (trSeats row))). 0 \<le> i \<and> i < int SEAT_COUNT"
    using assms by (auto simp: rows_ok_def)
  have "map (\<lambda>k. int k \<in> set (map row_pos (playing_rows stk (trSeats row)))) [0..<SEAT_COUNT]
      = map (\<lambda>s. s \<noteq> None) (built_seats row stk)"
  proof (rule nth_equalityI)
    fix k assume "k < length (map (\<lambda>k. int k \<in> set (map row_pos (playing_rows stk (trSeats row)))) [0..<SEAT_COUNT])"
    then have k: "k < SEAT_COUNT" by simp
    have "int k \<in> set (map row_pos (playing_rows stk (trSeats row))) \<longleftrightarrow> built_seats row stk ! k \<noteq> None"
    proof
      assume "int k \<in> set (map row_pos (playing_rows stk (trSeats row)))"
      then obtain r chips where "r \<in> set (trSeats row)" "stk (fst r) = Some chips" "row_pos r = int k" by auto
      then show "built_seats row stk ! k \<noteq> None" using built_seat[OF assms, of r stk chips] by simp
    next
      assume "built_seats row stk ! k \<noteq> None"
      then obtain p where "built_seats row stk ! k = Some p" by blast
      then obtain r chips where "r \<in> set (trSeats row)" "stk (fst r) = Some chips" "row_pos r = int k"
        by (rule built_someone[OF assms k])
      then show "int k \<in> set (map row_pos (playing_rows stk (trSeats row)))" by force
    qed
    then show "map (\<lambda>k. int k \<in> set (map row_pos (playing_rows stk (trSeats row)))) [0..<SEAT_COUNT] ! k
        = map (\<lambda>s. s \<noteq> None) (built_seats row stk) ! k"
      using k seat_rows_built(2)[OF assms, of stk] by simp
  qed (simp add: seat_rows_built(2)[OF assms])
  then show ?thesis using rebuilt_row[OF in_range, of tb m] by (simp add: seat_row_def rebuilt_state_def)
qed

section \<open>The board\<close>

definition board_ready :: "int \<Rightarrow> blind_board \<Rightarrow> bool" where
  "board_ready now board \<longleftrightarrow> (\<exists>b. boBlind board = Some b \<and> bfBlindStructure b \<noteq> [] \<and> cache_ok now b)"

lemma level_at_index: "level_at ls r = Some (i, k) \<Longrightarrow> 0 \<le> i \<and> i < int (length ls)"
  by (auto simp: level_at_def dest: getCurrentBlindLevel_index)

lemma cache_now_fields: "cache_ok now (b\<lparr>bfServerTime := x\<rparr>) = cache_ok now b"
  by (simp add: cache_ok_def)

lemma board_level_ready:
  assumes "board_ready now board"
  obtains level board' where "board_level now board = (Inr (Some level), board')" "board_ready now board'"
proof -
  obtain b where b: "boBlind board = Some b" "bfBlindStructure b \<noteq> []" "cache_ok now b"
    using assms by (auto simp: board_ready_def)
  have c: "False \<or> cache_ok now b" using b(3) by simp
  obtain b' where r: "fst (checkAndSyncBlindLevel False now board) = Inr (Some b')"
    "level_at (bfBlindStructure b) (reading now (field_watch b)) = Some (bfCurrentBlindLv b', bfIsBreak b')"
    "\<exists>b''. boBlind (snd (checkAndSyncBlindLevel False now board)) = Some b'' \<and> cache_ok now b''
       \<and> field_watch b'' = field_watch b \<and> bfBlindStructure b'' = bfBlindStructure b"
    by (rule check_level[OF b(1) c b(2)])
  have "bfBlindStructure b' = bfBlindStructure b"
    using r(1) b(1) by (auto simp: checkAndSyncBlindLevel_def Let_def split: if_splits option.splits)
  then have i: "0 \<le> bfCurrentBlindLv b'" "bfCurrentBlindLv b' < int (length (bfBlindStructure b'))"
    using level_at_index[OF r(2)] by simp_all
  obtain board' where p: "checkAndSyncBlindLevel False now board = (Inr (Some b'), board')"
    using r(1) by (metis prod.collapse)
  show ?thesis
  proof (rule that)
    show "board_level now board = (Inr (Some (bfBlindStructure b' ! nat (bfCurrentBlindLv b'))), board')"
      using i by (simp add: board_level_def p)
    show "board_ready now board'" using r(3) b(2) by (auto simp: p board_ready_def)
  qed
qed

lemma freeze_ready:
  assumes "row_ok t" "fst (freeze_board game now t board)" "\<And>b. boBlind board = Some b \<Longrightarrow> bfBlindStructure b \<noteq> []"
  shows "board_ready now (snd (freeze_board game now t board))"
proof (cases "boBlind board")
  case (Some b)
  obtain b' where "boBlind (snd (freeze_board game now t board)) = Some b'" "cache_ok now b'" "bfBlindStructure b' = bfBlindStructure b"
    by (rule freeze_follows[OF assms(1) Some assms(3)[OF Some], of game now])
  then show ?thesis using assms(3)[OF Some] by (simp add: board_ready_def)
next
  case None
  obtain started where st: "syStartedAt t = Some started" using assms(1) by (auto simp: row_ok_def)
  obtain d bf pt where m: "buildTournamentMeta game (started + syPausedMs t) (syPausedAt t) now = Inr (d, bf, pt)"
    using assms(2) None st by (auto simp: freeze_board_def Let_def split: sum.splits)
  obtain levels info where i: "parseBlindStructure (msBlindStructure game) = Inr levels"
      "getCurrentBlindLevel levels (started + syPausedMs t) (case syPausedAt t of Some p \<Rightarrow> p | None \<Rightarrow> now) = Some info"
    using m by (auto simp: buildTournamentMeta_def split: sum.splits option.splits)
  have bf: "bfBlindStructure bf = levels" "bfStartedAt bf = started + syPausedMs t" "bfPausedAt bf = syPausedAt t"
    "bfCurrentBlindLv bf = currentIndex info" "bfIsBreak bf = isBreak info" "bfNextLevelAt bf = nextLevelAt info"
    using m i by (auto simp: buildTournamentMeta_def Let_def split: sum.splits option.splits)
  have "cache_ok now bf" unfolding cache_ok_def using i(2) bf
    by (intro exI[of _ "blind_now now bf"] exI[of _ info]) (simp add: blind_now_def)
  then show ?thesis using None st m bf(1) parseBlindStructure_nonempty[OF i(1)]
    by (simp add: freeze_board_def Let_def board_ready_def)
qed

section \<open>One table\<close>

definition table_done :: "room \<Rightarrow> string \<Rightarrow> bool" where
  "table_done w tb \<longleftrightarrow> service_inv (rmService w tb)
     \<and> (\<forall>st. svState (rmService w tb) = Some st \<longrightarrow> table_seats (rmMap w) tb = Some (seat_row st))"

text \<open>What recovery may find. A table that lost its snapshot has lost its queued timeouts as well; a row of the seat map
  is lost or shows the snapshot; the checkpoint of a player who still plays has chips, and the button that was saved is a seat.\<close>

definition lost_ok :: "participation list \<Rightarrow> table_row \<Rightarrow> bool" where
  "lost_ok parts row \<longleftrightarrow> (\<forall>u c. u \<in> row_user ` set (trSeats row) \<longrightarrow> stackOf parts u = Some c \<longrightarrow> 0 < c)
     \<and> (case trButton row of Some b \<Rightarrow> 0 \<le> b \<and> b < int SEAT_COUNT
        | None \<Rightarrow> \<exists>u \<in> row_user ` set (trSeats row). stackOf parts u \<noteq> None)"

definition recoverable :: "participation list \<Rightarrow> room \<Rightarrow> table_row \<Rightarrow> bool" where
  "recoverable parts w row \<longleftrightarrow> rows_ok row \<and>
     (case svState (rmService w (trId row)) of
        None \<Rightarrow> svJobs (rmService w (trId row)) = []
          \<and> (if trSeats row = []
             then table_seats (rmMap w) (trId row) = None
               \<or> table_seats (rmMap w) (trId row) = Some (replicate SEAT_COUNT False)
             else lost_ok parts row)
      | Some st \<Rightarrow> service_inv (rmService w (trId row)) \<and> length (players st) = SEAT_COUNT
          \<and> (trSeats row = [] \<longrightarrow> (\<forall>i. seat st i = None))
          \<and> (table_seats (rmMap w) (trId row) = None \<or> table_seats (rmMap w) (trId row) = Some (seat_row st)))"

lemma waiting_service:
  assumes "table_inv st" "phase st = WAITING" "svJobs s = []"
  shows "service_inv (s\<lparr>svState := Some st\<rparr>)"
  using assms by (intro service_invI[of _ st]) (auto simp: service_ok_def jobs_ok_def turn_running_def betting_def betting_phases_def)

lemma empty_table_inv: "table_inv (createEmptyTableState t)"
  using new_table_inv[of t] by (auto simp: service_inv_def service_ok_def new_table_def)

lemma rebuilt_done:
  assumes r: "rebuildTable t now pick row w = (None, w')" and ok: "rows_ok row" "lost_ok (rmParts w) row"
    and jobs: "svJobs (rmService w (trId row)) = []"
  shows "table_done w' (trId row)"
proof -
  let ?stk = "stackOf (rmParts w)"
  obtain level board' where l: "board_level now (rmBoard w) = (Inr (Some level), board')"
    using r by (auto simp: rebuildTable_def Let_def split: prod.splits sum.splits option.splits)
  let ?seated = "map row_pos (playing_rows ?stk (trSeats row))"
  obtain button where b: "(case trButton row of Some b \<Rightarrow> Some b | None \<Rightarrow> drawFirstButton pick ?seated) = Some button"
    and w': "rmService w' (trId row) = (rmService w (trId row))\<lparr>svState := Some (rebuilt_state t level (built_seats row ?stk) button)\<rparr>"
      "rmMap w' = rebuildSeatBitmap (trId row) ?seated (rmMap w)"
    using r l by (auto simp: rebuildTable_def Let_def seat_rows_built(1)[OF ok(1)] put_row_def split: option.splits)
  have "0 \<le> button \<and> button < int SEAT_COUNT"
  proof (cases "trButton row")
    case None
    then have "?seated \<noteq> []" "button = ?seated ! (pick mod length ?seated)"
      using b by (auto simp: drawFirstButton_def split: if_splits)
    then have "button \<in> set ?seated" by (metis length_greater_0_conv mod_less_divisor nth_mem)
    then show ?thesis using ok(1) by (auto simp: rows_ok_def)
  qed (use b ok(2) in \<open>auto simp: lost_ok_def\<close>)
  then have "table_inv (rebuilt_state t level (built_seats row ?stk) button)"
    using rebuilt_ready[OF ok(1), of ?stk button t level] ok(2) by (auto simp: lost_ok_def)
  then have "service_inv (rmService w' (trId row))"
    unfolding w'(1) by (rule waiting_service) (simp_all add: rebuilt_state_def jobs)
  then show ?thesis unfolding table_done_def w'
    using rebuilt_shown[OF ok(1), of "trId row" ?stk "rmMap w" t level button] by simp
qed

text \<open>Recovering one table touches nothing of the others.\<close>

definition only_table :: "string \<Rightarrow> room \<Rightarrow> room \<Rightarrow> bool" where
  "only_table tb w w' \<longleftrightarrow> (\<forall>tb'. tb' \<noteq> tb \<longrightarrow> rmService w' tb' = rmService w tb' \<and> rmMap w' tb' = rmMap w tb')
     \<and> rmParts w' = rmParts w \<and> rmSync w' = rmSync w \<and> rmLine w' = rmLine w
     \<and> map trId (rmTables w') = map trId (rmTables w)"

lemma map_lost_iff: "getTableSeatStatus tb m = [] \<longleftrightarrow> table_seats m tb = None \<or> table_seats m tb = Some []"
  by (auto simp: getTableSeatStatus_def table_seats_def seat_status_def split: option.split)

lemma rebuild_map_only: "only_table tb w (rebuild_map_if_lost tb seats w)"
  "rmService (rebuild_map_if_lost tb seats w) = rmService w" "rmBoard (rebuild_map_if_lost tb seats w) = rmBoard w"
  by (simp_all add: only_table_def rebuild_map_if_lost_def rebuildSeatBitmap_def)

lemma put_service_only: "only_table tb w (put_service tb s w)" "rmMap (put_service tb s w) = rmMap w"
  "rmBoard (put_service tb s w) = rmBoard w" "rmService (put_service tb s w) tb = s"
  by (simp_all add: only_table_def put_service_def)

lemma only_table_trans: "only_table tb a b \<Longrightarrow> only_table tb b c \<Longrightarrow> only_table tb a c"
  by (simp add: only_table_def)

lemma put_row_fields [simp]: "rmService (put_row tb f w) = rmService w" "rmMap (put_row tb f w) = rmMap w"
  "rmParts (put_row tb f w) = rmParts w" "rmSync (put_row tb f w) = rmSync w" "rmLine (put_row tb f w) = rmLine w"
  "rmBoard (put_row tb f w) = rmBoard w"
  by (simp_all add: put_row_def)

lemma put_row_ids: "(\<And>r. trId (f r) = trId r) \<Longrightarrow> map trId (rmTables (put_row tb f w)) = map trId (rmTables w)"
  by (simp add: put_row_def comp_def if_distrib cong: if_cong)

lemma drop_orphans_id [simp]: "trId (drop_orphans stk r) = trId r"
  by (simp add: drop_orphans_def Let_def)

lemma rebuildTable_only: "only_table (trId row) w (snd (rebuildTable t now pick row w))"
  unfolding rebuildTable_def only_table_def
  by (auto simp: Let_def rebuildSeatBitmap_def put_row_ids[unfolded put_row_def] put_row_def comp_def
      intro!: map_cong split: sum.split option.split prod.split)

lemma rebuildTable_works:
  assumes "rows_ok row" "lost_ok (rmParts w) row" "board_ready now (rmBoard w)"
  obtains w' where "rebuildTable t now pick row w = (None, w')" "board_ready now (rmBoard w')"
proof -
  let ?stk = "stackOf (rmParts w)"
  obtain level board' where l: "board_level now (rmBoard w) = (Inr (Some level), board')" "board_ready now board'"
    by (rule board_level_ready[OF assms(3)])
  have "playing_rows ?stk (trSeats row) \<noteq> []" if "trButton row = None"
    using assms(2) that by (auto simp: lost_ok_def filter_empty_conv)
  then obtain button where
    "(case trButton row of Some b \<Rightarrow> Some b | None \<Rightarrow> drawFirstButton pick (map row_pos (playing_rows ?stk (trSeats row)))) = Some button"
    by (cases "trButton row") (auto simp: drawFirstButton_def)
  then show ?thesis
    using l that by (simp add: rebuildTable_def Let_def seat_rows_built(1)[OF assms(1)] del: not_None_eq)
qed

lemma occupied_row:
  assumes "length (players st) = SEAT_COUNT"
  shows "table_seats (rebuildSeatBitmap tb (occupied_seats st) m) tb = Some (seat_row st)"
proof -
  have "\<forall>i\<in>set (occupied_seats st). 0 \<le> i \<and> i < int SEAT_COUNT" using assms by (auto simp: occupied_seats_def)
  moreover have "map (\<lambda>k. int k \<in> set (occupied_seats st)) [0..<SEAT_COUNT] = seat_row st"
    using assms by (intro nth_equalityI) (auto simp: occupied_seats_def seat_row_def seat_def slot_def)
  ultimately show ?thesis by (simp add: rebuilt_row)
qed

lemma recover_table_one:
  assumes r: "recoverable (rmParts w) w row" and b: "board_ready now (rmBoard w)"
  shows "table_done (recover_table t now pick row w) (trId row)"
    and "only_table (trId row) w (recover_table t now pick row w)"
    and "board_ready now (rmBoard (recover_table t now pick row w))"
proof -
  let ?tb = "trId row"
  let ?w1 = "rebuild_map_if_lost ?tb [] w"
  have rows: "rows_ok row" using r by (simp add: recoverable_def)
  note only = rebuild_map_only put_service_only
  have "table_done (recover_table t now pick row w) ?tb \<and> only_table ?tb w (recover_table t now pick row w)
    \<and> board_ready now (rmBoard (recover_table t now pick row w))"
  proof (cases "svState (rmService w ?tb)")
    case None
    have jobs: "svJobs (rmService w ?tb) = []" using r None by (simp add: recoverable_def)
    show ?thesis
    proof (cases "trSeats row = []")
      case True
      have e: "recover_table t now pick row w = put_service ?tb ((rmService w ?tb)\<lparr>svState := Some (createEmptyTableState t)\<rparr>) ?w1"
        using True None by (simp add: recover_table_def Let_def only)
      have m: "table_seats (rmMap w) ?tb = None \<or> table_seats (rmMap w) ?tb = Some (replicate SEAT_COUNT False)"
        using r None True by (simp add: recoverable_def)
      have "table_seats (rmMap ?w1) ?tb = Some (replicate SEAT_COUNT False)"
      proof (cases "table_seats (rmMap w) ?tb")
        case None
        then show ?thesis using rebuilt_row[of "[]" ?tb "rmMap w"]
          by (simp add: rebuild_map_if_lost_def map_lost_iff map_replicate_const)
      next
        case (Some x)
        then have "x = replicate SEAT_COUNT False" using m by simp
        then show ?thesis using Some by (simp add: rebuild_map_if_lost_def map_lost_iff SEAT_COUNT_def)
      qed
      moreover have "seat_row (createEmptyTableState t) = replicate SEAT_COUNT False"
        by (simp add: seat_row_def createEmptyTableState_def)
      moreover have "service_inv ((rmService w ?tb)\<lparr>svState := Some (createEmptyTableState t)\<rparr>)"
        by (rule waiting_service[OF empty_table_inv]) (simp_all add: createEmptyTableState_def jobs)
      ultimately have "table_done (recover_table t now pick row w) ?tb" unfolding e by (simp add: table_done_def only)
      moreover have "only_table ?tb w (recover_table t now pick row w)"
        unfolding e by (rule only_table_trans[OF only(1) only(4)])
      ultimately show ?thesis using b e by (simp add: only)
    next
      case False
      have lost: "lost_ok (rmParts w) row" using r None False by (simp add: recoverable_def)
      obtain w' where w': "rebuildTable t now (pick ?tb) row w = (None, w')" "board_ready now (rmBoard w')"
        by (rule rebuildTable_works[OF rows lost b])
      have "recover_table t now pick row w = w'" using False None w'(1) by (simp add: recover_table_def)
      then show ?thesis
        using rebuilt_done[OF w'(1) rows lost jobs] rebuildTable_only[of row w t now "pick ?tb"] w' by simp
    qed
  next
    case (Some st)
    have s: "service_inv (rmService w ?tb)" "length (players st) = SEAT_COUNT" "trSeats row = [] \<longrightarrow> (\<forall>i. seat st i = None)"
      "table_seats (rmMap w) ?tb = None \<or> table_seats (rmMap w) ?tb = Some (seat_row st)"
      using r Some by (simp_all add: recoverable_def)
    have "occupied_seats st = []" if "trSeats row = []" using s(3) that by (simp add: occupied_seats_def)
    then have e: "recover_table t now pick row w = rebuild_map_if_lost ?tb (occupied_seats st) w"
      using Some by (simp add: recover_table_def Let_def only)
    have "seat_row st \<noteq> []" using s(2) by (auto simp: seat_row_def SEAT_COUNT_def)
    then have "table_seats (rmMap (recover_table t now pick row w)) ?tb = Some (seat_row st)"
      using s(4) occupied_row[OF s(2)] unfolding e by (auto simp: rebuild_map_if_lost_def map_lost_iff)
    then have "table_done (recover_table t now pick row w) ?tb" using s(1) Some by (simp add: table_done_def e only)
    then show ?thesis using b by (simp add: e only)
  qed
  then show "table_done (recover_table t now pick row w) ?tb" "only_table ?tb w (recover_table t now pick row w)"
    "board_ready now (rmBoard (recover_table t now pick row w))" by blast+
qed

section \<open>All tables\<close>

lemma recoverable_same:
  assumes "rmService w' (trId row) = rmService w (trId row)" "rmMap w' (trId row) = rmMap w (trId row)"
  shows "recoverable parts w' row = recoverable parts w row"
  unfolding recoverable_def table_seats_def assms ..

lemma recover_fold:
  assumes "distinct (map trId rows)" "\<forall>row\<in>set rows. recoverable (rmParts w) w row" "board_ready now (rmBoard w)"
  shows "(\<forall>row\<in>set rows. table_done (fold (recover_table t now pick) rows w) (trId row))
    \<and> (\<forall>tb. tb \<notin> trId ` set rows \<longrightarrow> rmService (fold (recover_table t now pick) rows w) tb = rmService w tb
         \<and> rmMap (fold (recover_table t now pick) rows w) tb = rmMap w tb)"
  using assms
proof (induction rows arbitrary: w)
  case (Cons row rows)
  define w1 where "w1 = recover_table t now pick row w"
  have "recoverable (rmParts w) w row" using Cons.prems(2) by simp
  note one = recover_table_one[OF this Cons.prems(3), of t pick, folded w1_def]
  have fresh: "trId row \<notin> trId ` set rows" using Cons.prems(1) by simp
  have same: "rmService w1 tb = rmService w tb" "rmMap w1 tb = rmMap w tb" if "tb \<noteq> trId row" for tb
    using one(2) that by (simp_all add: only_table_def)
  have parts: "rmParts w1 = rmParts w" using one(2) by (simp add: only_table_def)
  have "recoverable (rmParts w1) w1 r" if "r \<in> set rows" for r
  proof -
    have "trId r \<noteq> trId row" using fresh imageI[OF that, of trId] by metis
    then have "recoverable (rmParts w) w1 r = recoverable (rmParts w) w r" by (intro recoverable_same same)
    then show ?thesis using Cons.prems(2) that parts by simp
  qed
  then have rest: "\<forall>r\<in>set rows. table_done (fold (recover_table t now pick) rows w1) (trId r)"
    "\<forall>tb. tb \<notin> trId ` set rows \<longrightarrow> rmService (fold (recover_table t now pick) rows w1) tb = rmService w1 tb
       \<and> rmMap (fold (recover_table t now pick) rows w1) tb = rmMap w1 tb"
    using Cons.IH[of w1] Cons.prems(1) one(3) by auto
  have "table_done (fold (recover_table t now pick) rows w1) (trId row)"
    using one(1) rest(2) fresh by (simp add: table_done_def table_seats_def)
  then show ?case using rest same by (simp add: w1_def[symmetric])
qed simp

lemma recover_fold_sync: "rmSync (fold (recover_table t now pick) rows w) = rmSync w"
proof (induction rows arbitrary: w)
  case (Cons row rows)
  have "rmSync (snd (rebuildTable t now p row w)) = rmSync w" for p
    using rebuildTable_only[of row w t now p] by (simp add: only_table_def)
  then have "rmSync (recover_table t now pick row w) = rmSync w"
    by (auto simp: recover_table_def Let_def rebuild_map_if_lost_def put_service_def split: option.split)
  then show ?case using Cons by simp
qed simp

text \<open>A hand that is stopped: it waits for the dealer, and no timeout in the queue is of its epoch.\<close>

definition frozen :: "table_service \<Rightarrow> bool" where
  "frozen s \<longleftrightarrow> (\<forall>st. svState s = Some st \<and> betting st \<longrightarrow>
     resumePending st \<noteq> None \<and> actionDeadline st = None \<and> (\<forall>j\<in>set (svJobs s). jobEpoch j < epoch st))"

lemma recover_frozen:
  assumes "frozen (rmService w tb)"
  shows "frozen (rmService (recover_table t now pick row w) tb)"
proof -
  have waiting: "frozen (s\<lparr>svState := Some st\<rparr>)" if "phase st = WAITING" for s :: table_service and st
    using that by (auto simp: frozen_def betting_def betting_phases_def)
  have rebuilt: "frozen (rmService (snd (rebuildTable t now p row w)) tb)" for p
    unfolding rebuildTable_def using assms waiting
    by (auto simp: Let_def rebuilt_state_def split: prod.split sum.split option.split)
  show ?thesis
    using assms waiting rebuilt
    by (auto simp: recover_table_def Let_def rebuild_map_only put_service_def createEmptyTableState_def split: option.split)
qed

lemma recover_fold_frozen:
  "frozen (rmService w tb) \<Longrightarrow> frozen (rmService (fold (recover_table t now pick) rows w) tb)"
  by (induction rows arbitrary: w) (simp_all add: recover_frozen)

lemma pause_players:
  "svJobs (pauseTable ow lnd same d s) = svJobs s"
  "svState s = None \<Longrightarrow> svState (pauseTable ow lnd same d s) = None"
  "svState s = Some st \<Longrightarrow> \<exists>st'. svState (pauseTable ow lnd same d s) = Some st' \<and> players st' = players st"
  by (auto simp: pauseTable_def put_state_def split: option.split)

lemma pause_frozen:
  assumes "service_inv s"
  shows "frozen (pauseTable True lnd True d s)"
proof -
  obtain st where st: "svState s = Some st" and ok: "service_ok s st" using assms by (auto simp: service_inv_def)
  have "planPause st = Some (epoch st + 1)" if "betting st"
  proof -
    have "active_at st (currentTurnSeatIndex st)"
      using ok that by (simp add: service_ok_def table_inv_def betting_def hand_inv_def)
    then show ?thesis using that
      by (auto simp: planPause_def turnOwner_def active_at_def betting_def betting_phases_def split: option.splits dest: turn_ge)
  qed
  moreover have "\<forall>j\<in>set (svJobs s). jobEpoch j \<le> epoch st" using ok by (simp add: service_ok_def jobs_ok_def)
  ultimately show ?thesis using st
    by (fastforce simp: frozen_def pauseTable_def put_state_def betting_def epoch_def[of "_\<lparr>timerEpoch := _\<rparr>"] epoch_def split: option.splits)
qed

section \<open>A tournament at boot\<close>

definition on_rows ::
  "(table_row \<Rightarrow> bool) \<Rightarrow> (string \<Rightarrow> table_service \<Rightarrow> table_service) \<Rightarrow> table_row \<Rightarrow> room \<Rightarrow> room" where
  "on_rows Q pz row w = (if Q row then put_service (trId row) (pz (trId row) (rmService w (trId row))) w else w)"

lemma pause_tables_rows:
  "pause_tables overwrite lnd reached same d w =
     fold (on_rows (\<lambda>row. trSeats row \<noteq> [] \<and> reached (trId row)) (\<lambda>tb. pauseTable overwrite lnd (same tb) d)) (rmTables w) w"
  unfolding pause_tables_def by (intro arg_cong[of _ _ "\<lambda>f. fold f _ _"] ext) (simp add: on_rows_def)

lemma pause_fold:
  assumes "distinct (map trId rows)"
  shows "rmService (fold (on_rows Q pz) rows w) tb
      = (if \<exists>row\<in>set rows. trId row = tb \<and> Q row then pz tb (rmService w tb) else rmService w tb)"
  using assms
proof (induction rows arbitrary: w)
  case (Cons row rows)
  show ?case
  proof (cases "trId row = tb")
    case True
    then have "trId r \<noteq> tb" if "r \<in> set rows" for r using Cons.prems imageI[OF that, of trId] by auto
    then have "\<not> (\<exists>r\<in>set rows. trId r = tb \<and> Q r)" by blast
    then show ?thesis using Cons True by (auto simp: put_service_def on_rows_def)
  qed (use Cons in \<open>auto simp: put_service_def on_rows_def\<close>)
qed simp

lemma pause_fold_fields:
  "rmMap (fold (on_rows Q pz) rows w) = rmMap w" "rmBoard (fold (on_rows Q pz) rows w) = rmBoard w"
  "rmSync (fold (on_rows Q pz) rows w) = rmSync w" "rmParts (fold (on_rows Q pz) rows w) = rmParts w"
  "rmTables (fold (on_rows Q pz) rows w) = rmTables w"
  by (induction rows arbitrary: w) (simp_all add: on_rows_def put_service_def)

lemma room_complete_fields [simp]: "rmService (room_completeSync now w) = rmService w" "rmMap (room_completeSync now w) = rmMap w"
  "rmTables (room_completeSync now w) = rmTables w"
  by (simp_all add: room_completeSync_def Let_def)

lemma recovered:
  assumes run: "recoverTournament game now reached pick stale downtime pausedAt t w = (None, w')"
    and row: "row_ok (rmSync w)" "isLiveTournament (syStatus (rmSync w))"
    and ids: "distinct (map trId (rmTables w))" and ok: "\<forall>row\<in>set (rmTables w). recoverable (rmParts w) w row"
    and board: "\<And>b. boBlind (rmBoard w) = Some b \<Longrightarrow> bfBlindStructure b \<noteq> []"
  obtains w2 where "w' = (let w3 = fold (recover_table t now pick) (rmTables w2) w2 in
      if anyone_seated stale w3 then w3 else room_completeSync now w3)"
    "rmTables w2 = rmTables w" "rmSync w2 = markSyncing pausedAt (rmSync w)" "board_ready now (rmBoard w2)"
    "\<forall>row\<in>set (rmTables w2). recoverable (rmParts w2) w2 row"
    "\<forall>row\<in>set (rmTables w). trSeats row \<noteq> [] \<and> reached (trId row) \<longrightarrow>
      rmService w2 (trId row) = pauseTable True False True downtime (rmService w (trId row))"
proof -
  define w1 where "w1 = w\<lparr>rmSync := markSyncing pausedAt (rmSync w)\<rparr>"
  have row1: "row_ok (rmSync w1)" using mark_watch[OF row(1), of pausedAt] row(2) by (simp add: w1_def isLiveTournament_def)
  obtain w2 where f: "freezeTournament game now True False reached (\<lambda>_. True) downtime w1 = (None, w2)"
    and w': "w' = (let w3 = fold (recover_table t now pick) (rmTables w2) w2 in
      if anyone_seated stale w3 then w3 else room_completeSync now w3)"
    using run by (auto simp: recoverTournament_def w1_def[symmetric] Let_def split: prod.splits option.splits)
  obtain board' where b: "freeze_board game now (rmSync w1) (rmBoard w1) = (True, board')"
    and w2: "w2 = pause_tables True False reached (\<lambda>_. True) downtime (w1\<lparr>rmBoard := board'\<rparr>)"
    using f by (auto simp: freezeTournament_def split: if_splits prod.splits bool.splits)
  let ?Q = "\<lambda>row. trSeats row \<noteq> [] \<and> reached (trId row)"
  let ?pz = "\<lambda>tb. pauseTable True False True downtime"
  have ids1: "distinct (map trId (rmTables (w1\<lparr>rmBoard := board'\<rparr>)))" using ids by (simp add: w1_def)
  have fields: "rmMap w2 = rmMap w" "rmBoard w2 = board'" "rmSync w2 = rmSync w1" "rmParts w2 = rmParts w" "rmTables w2 = rmTables w"
    unfolding w2 pause_tables_rows
    using pause_fold_fields[of ?Q ?pz "rmTables (w1\<lparr>rmBoard := board'\<rparr>)" "w1\<lparr>rmBoard := board'\<rparr>"] by (simp_all add: w1_def)
  have service: "rmService w2 tb = (if \<exists>row\<in>set (rmTables w). trId row = tb \<and> ?Q row
      then pauseTable True False True downtime (rmService w tb) else rmService w tb)" for tb
    unfolding w2 pause_tables_rows pause_fold[OF ids1] by (auto simp: w1_def)
  have two: "rmService w2 tb = rmService w tb \<or> rmService w2 tb = pauseTable True False True downtime (rmService w tb)" for tb
    by (simp add: service)
  have "fst (freeze_board game now (rmSync w1) (rmBoard w1))" using b by simp
  from freeze_ready[OF row1 this] have ready: "board_ready now (rmBoard w2)"
    using board b fields(2) by (simp add: w1_def)
  have "recoverable (rmParts w2) w2 r" if "r \<in> set (rmTables w2)" for r
  proof -
    have r: "recoverable (rmParts w) w r" using ok that fields(5) by simp
    show ?thesis
    proof (cases "svState (rmService w (trId r))")
      case None
      then show ?thesis using r pause_players(2)[OF None, of True False True downtime] pause_players(1)
        by (auto simp: recoverable_def service fields)
    next
      case (Some st)
      then obtain st' where st': "svState (rmService w2 (trId r)) = Some st'" "players st' = players st"
        using two[of "trId r"] pause_players(3)[OF Some, of True False True downtime] Some by metis
      have "service_inv (rmService w2 (trId r))" using two[of "trId r"] r Some pause_inv by (auto simp: recoverable_def)
      then show ?thesis using r Some st' by (simp add: recoverable_def fields seat_def seat_row_def)
    qed
  qed
  then have all: "\<forall>row\<in>set (rmTables w2). recoverable (rmParts w2) w2 row" by blast
  have "rmService w2 (trId r) = pauseTable True False True downtime (rmService w (trId r))"
    if "r \<in> set (rmTables w)" "trSeats r \<noteq> []" "reached (trId r)" for r
  proof -
    have "\<exists>row\<in>set (rmTables w). trId row = trId r \<and> trSeats row \<noteq> [] \<and> reached (trId row)" using that by blast
    then show ?thesis by (simp add: service[of "trId r"])
  qed
  then have paused: "\<forall>row\<in>set (rmTables w). trSeats row \<noteq> [] \<and> reached (trId row) \<longrightarrow>
      rmService w2 (trId row) = pauseTable True False True downtime (rmService w (trId row))" by blast
  have "rmSync w2 = markSyncing pausedAt (rmSync w)" using fields(3) by (simp add: w1_def)
  then show ?thesis using that[OF w' fields(5) _ ready all paused] by blast
qed

section \<open>The last checkpoint\<close>

lemma find_part_update:
  assumes "\<And>p. pUser (f p) = pUser p"
  shows "find_part v (update_part u f ps) = (if v = u then map_option f (find_part v ps) else find_part v ps)"
  using assms by (induction ps) (auto simp: find_part_def update_part_def)

lemma synced_stack:
  assumes "distinct (map fst xs)"
  shows "find_part u (fold (\<lambda>(u, n) ps. update_part u (\<lambda>p. p\<lparr>pStack := n\<rparr>) ps) xs ps)
      = map_option (\<lambda>p. case map_of xs u of None \<Rightarrow> p | Some n \<Rightarrow> p\<lparr>pStack := n\<rparr>) (find_part u ps)"
  using assms
proof (induction xs arbitrary: ps)
  case (Cons x xs)
  obtain v n where x: "x = (v, n)" by (cases x)
  have "map_of xs v = None" using Cons.prems x by (simp add: map_of_eq_None_iff)
  then show ?case
    using Cons.IH[of "update_part v (\<lambda>p. p\<lparr>pStack := n\<rparr>) ps"] Cons.prems x
    by (cases "u = v"; cases "find_part u ps") (simp_all add: find_part_update)
qed (simp add: option.map_ident)

lemma synced_users:
  "map pUser (fold (\<lambda>(u, n) ps. update_part u (\<lambda>p. p\<lparr>pStack := n\<rparr>) ps) xs ps) = map pUser ps"
  by (induction xs arbitrary: ps) (simp_all add: case_prod_beta)

lemma stackOf_playing:
  assumes "distinct (map pUser ps)" "find_part u ps = Some q" "pStatus q = PLAYING"
  shows "stackOf ps u = Some (pStack q)"
proof -
  have "List.find (\<lambda>p. pUser p = u \<and> pStatus p = PLAYING) ps = Some q"
    using assms
  proof (induction ps)
    case (Cons p ps)
    show ?case
    proof (cases "pUser p = u")
      case True
      then show ?thesis using Cons.prems by (simp add: find_part_def)
    next
      case False
      then show ?thesis using Cons by (simp add: find_part_def)
    qed
  qed (simp add: find_part_def)
  then show ?thesis by (simp add: stackOf_def)
qed

lemma synced_row:
  assumes "syncTableInventoryToDb t xs l = (True, l')" "tour t l' = Some trow'"
  obtains trow where "tour t l = Some trow"
    "tParts trow' = fold (\<lambda>(u, n) ps. update_part u (\<lambda>p. p\<lparr>pStack := n\<rparr>) ps) xs (tParts trow)"
proof -
  obtain trow where r: "tour t l = Some trow" using assms(1) by (auto simp: syncTableInventoryToDb_def split: option.splits)
  then have "l' = put_tour t (trow\<lparr>tParts := fold (\<lambda>(u, n) ps. update_part u (\<lambda>p. p\<lparr>pStack := n\<rparr>) ps) xs (tParts trow)\<rparr>) l"
    using assms(1) by (auto simp: syncTableInventoryToDb_def commit_def split: if_splits)
  then show ?thesis using that r assms(2) by (auto simp: tour_put_tour)
qed

text \<open>A player between two hands.\<close>

definition between_hands :: "table_player \<Rightarrow> table_player" where
  "between_hands p = p\<lparr>bet := 0, hasFolded := False, hasChecked := False, isAllIn := False, totalContributed := 0\<rparr>"

text \<open>The rows of a table name the players of the snapshot, in any order.\<close>

definition rows_match :: "table_row \<Rightarrow> table_state \<Rightarrow> bool" where
  "rows_match row st \<longleftrightarrow> rows_ok row \<and> length (players st) = SEAT_COUNT \<and> seats_numbered st
     \<and> set (trSeats row) = (\<lambda>p. (player_id p, Some (nickname p), seatIndex p)) ` set (occupants (players st))
     \<and> (\<forall>p\<in>set (occupants (players st)). tableId p = trId row)"

lemma matched_seats:
  assumes m: "rows_match row st" and stk: "\<And>p. p \<in> set (occupants (players st)) \<Longrightarrow> stk (player_id p) = Some (stack p)"
  shows "built_seats row stk = map (map_option between_hands) (players st)"
proof (rule nth_equalityI)
  have rows: "rows_ok row" "length (players st) = SEAT_COUNT" "seats_numbered st" using m by (simp_all add: rows_match_def)
  show "length (built_seats row stk) = length (map (map_option between_hands) (players st))"
    using rows seat_rows_built(2) by simp
  fix k assume "k < length (built_seats row stk)"
  then have k: "k < SEAT_COUNT" using seat_rows_built(2)[OF rows(1)] by simp
  show "built_seats row stk ! k = map (map_option between_hands) (players st) ! k"
  proof (cases "players st ! k")
    case (Some p)
    have p: "p \<in> set (occupants (players st))" using Some nth_mem[of k "players st"] k rows(2) by (simp add: set_occupants)
    have pos: "seatIndex p = int k" using seats_numberedD[OF rows(3) _ Some] k rows(2) by simp
    let ?r = "(player_id p, Some (nickname p), seatIndex p)"
    have r: "?r \<in> set (trSeats row)" using m p by (auto simp: rows_match_def)
    have "built_seats row stk ! nat (row_pos ?r) = Some (fill_seat (trId row) stk ?r)"
      by (rule built_seat[OF rows(1) r]) (simp add: stk[OF p])
    then show ?thesis using Some k rows(2) pos stk[OF p] m p
      by (simp add: fill_seat_def row_player_def between_hands_def rows_match_def)
  next
    case None
    have "nat (row_pos r) \<noteq> k" if r: "r \<in> set (trSeats row)" for r
    proof
      assume e: "nat (row_pos r) = k"
      obtain p where p: "p \<in> set (occupants (players st))" "row_pos r = seatIndex p" using m r by (auto simp: rows_match_def)
      obtain n where n: "n < length (players st)" "players st ! n = Some p" using numbered_occupant[OF p(1)] by blast
      then have "n = k" using seats_numberedD[OF rows(3) n] p(2) e by simp
      then show False using n(2) None by simp
    qed
    then have "built_seats row stk ! k = None" by (intro built_none[OF rows(1) k])
    then show ?thesis using None k rows(2) by simp
  qed
qed

lemma numbered_distinct:
  assumes "\<forall>k<length ps. case ps ! k of None \<Rightarrow> True | Some p \<Rightarrow> seatIndex p = int (n + k)"
  shows "distinct (map seatIndex (occupants ps)) \<and> (\<forall>p\<in>set (occupants ps). int n \<le> seatIndex p)"
  using assms
proof (induction ps arbitrary: n)
  case (Cons s ps)
  have "case ps ! k of None \<Rightarrow> True | Some p \<Rightarrow> seatIndex p = int (Suc n + k)" if "k < length ps" for k
    using Cons.prems[rule_format, of "Suc k"] that by (simp split: option.splits)
  then have rest: "distinct (map seatIndex (occupants ps))" "\<forall>p\<in>set (occupants ps). int (Suc n) \<le> seatIndex p"
    using Cons.IH[of "Suc n"] by blast+
  show ?case
  proof (cases s)
    case (Some p)
    then have "seatIndex p = int n" using Cons.prems[rule_format, of 0] by simp
    then show ?thesis using rest Some by fastforce
  qed (use rest in auto)
qed simp

lemma matched_users:
  assumes "rows_match row st"
  shows "distinct (map fst (map (\<lambda>p. (player_id p, stack p)) (occupants (players st))))"
proof -
  have m: "rows_ok row" "seats_numbered st"
    "set (trSeats row) = (\<lambda>p. (player_id p, Some (nickname p), seatIndex p)) ` set (occupants (players st))"
    using assms by (simp_all add: rows_match_def)
  have d: "distinct (map seatIndex (occupants (players st)))"
    using numbered_distinct[of "players st" 0] m(2) unfolding seats_numbered_def add_0_left by blast
  have "inj_on player_id (set (occupants (players st)))"
  proof (rule inj_onI)
    fix p q assume pq: "p \<in> set (occupants (players st))" "q \<in> set (occupants (players st))" "player_id p = player_id q"
    let ?r = "\<lambda>p. (player_id p, Some (nickname p), seatIndex p)"
    have "?r p \<in> set (trSeats row)" "?r q \<in> set (trSeats row)" unfolding m(3) by (rule imageI, fact)+
    then have "?r p = ?r q" using m(1) pq(3) unfolding rows_ok_def by (metis distinct_map fst_conv inj_onD)
    then have "seatIndex p = seatIndex q" by simp
    then show "p = q" using d pq(1,2) unfolding distinct_map by (blast dest: inj_onD)
  qed
  moreover have "distinct (occupants (players st))" using d by (simp add: distinct_map)
  ultimately show ?thesis by (simp add: distinct_map comp_def)
qed

lemma synced_value:
  assumes "syncTableInventoryToDb t xs l = (True, l')" "tour t l' = Some trow'" "distinct (map fst xs)"
    and "find_part u (tParts trow') = Some q" "map_of xs u = Some n"
  shows "pStack q = n"
proof -
  obtain trow where "tour t l = Some trow"
    "tParts trow' = fold (\<lambda>(u, n) ps. update_part u (\<lambda>p. p\<lparr>pStack := n\<rparr>) ps) xs (tParts trow)"
    by (rule synced_row[OF assms(1,2)])
  then show ?thesis using synced_stack[OF assms(3), of u "tParts trow"] assms(4,5) by auto
qed

end
