(* ===== verification/RecoveryClaims.thy ===== *)
theory RecoveryClaims
  imports RecoveryProps TableClaims RebuyClaims
begin

text \<open>
  The properties of recovery. The demo tournament of the witnesses has three tables: the hand of \<open>demo_table\<close> runs at \<open>''a''\<close>, \<open>''b''\<close> has lost its
  snapshot with two players seated, \<open>''c''\<close> is empty and has lost its snapshot too.
\<close>

section \<open>A demo tournament\<close>











section \<open>Boot\<close>





section \<open>The last checkpoint\<close>







end
