(* ===== verification/Contract.thy ===== *)
theory Contract
  imports GameTypes
begin

text \<open>
  The messages a socket may send (\<open>packages/contract/src/action.ts\<close>, \<open>dealer-action.ts\<close>): zod schemas as parsers of JSON values.
  Objects are strict: a missing key, another key or a value of another kind refuses the message. A number is a whole
  one or not; \<open>z.int()\<close> takes the whole ones that a double holds exactly.
\<close>

datatype wire_value =
    WNull
  | WBool bool
  | WInt int
  | WFraction
  | WStr string
  | WList "wire_value list"
  | WObj "(string \<times> wire_value) list"

definition exact_keys :: "string list \<Rightarrow> (string \<times> wire_value) list \<Rightarrow> bool" where
  "exact_keys ks kvs \<longleftrightarrow> set (map fst kvs) = set ks \<and> distinct (map fst kvs)"

definition safe_int :: "int \<Rightarrow> bool" where
  "safe_int n \<longleftrightarrow> - 9007199254740991 \<le> n \<and> n \<le> 9007199254740991"

text \<open>\<open>z.string().min(1)\<close>, and arrays of them with at least one element.\<close>

fun parse_userId :: "wire_value \<Rightarrow> string option" where
  "parse_userId (WStr s) = (if s = [] then None else Some s)"
| "parse_userId _ = None"

fun parse_all :: "('a \<Rightarrow> 'b option) \<Rightarrow> 'a list \<Rightarrow> 'b list option" where
  "parse_all f [] = Some []"
| "parse_all f (x # xs) = (case f x of None \<Rightarrow> None | Some y \<Rightarrow> map_option (\<lambda>ys. y # ys) (parse_all f xs))"

fun parse_nonempty :: "(wire_value \<Rightarrow> 'b option) \<Rightarrow> wire_value \<Rightarrow> 'b list option" where
  "parse_nonempty f (WList xs) = (if xs = [] then None else parse_all f xs)"
| "parse_nonempty f _ = None"

section \<open>The player\<close>

datatype player_message = MCheck | MCall | MFold | MRaise int

definition PlayerActionSchema :: "wire_value \<Rightarrow> player_message option" where
  "PlayerActionSchema v =
     (case v of
        WObj kvs \<Rightarrow>
          (case map_of kvs ''action'' of
             Some (WStr a) \<Rightarrow>
               if a = ''RAISE'' then
                 (case map_of kvs ''amount'' of
                    Some (WInt n) \<Rightarrow> if exact_keys [''action'', ''amount''] kvs \<and> safe_int n \<and> 0 < n then Some (MRaise n) else None
                  | _ \<Rightarrow> None)
               else if \<not> exact_keys [''action''] kvs then None
               else if a = ''CHECK'' then Some MCheck
               else if a = ''CALL'' then Some MCall
               else if a = ''FOLD'' then Some MFold
               else None
           | _ \<Rightarrow> None)
      | _ \<Rightarrow> None)"

definition action_of_message :: "player_message \<Rightarrow> action_type" where
  "action_of_message m = (case m of MCheck \<Rightarrow> CHECK | MCall \<Rightarrow> CALL | MFold \<Rightarrow> FOLD | MRaise _ \<Rightarrow> RAISE)"

definition amount_of_message :: "player_message \<Rightarrow> int option" where
  "amount_of_message m = (case m of MRaise n \<Rightarrow> Some n | _ \<Rightarrow> None)"

section \<open>The dealer\<close>

datatype dealer_message =
    DStart
  | DWinners "string list list"
  | DFold string
  | DKick string
  | DRetry
  | DResume

definition DealerActionSchema :: "wire_value \<Rightarrow> dealer_message option" where
  "DealerActionSchema v =
     (case v of
        WObj kvs \<Rightarrow>
          (case map_of kvs ''action'' of
             Some (WStr a) \<Rightarrow>
               if a = ''RESOLVE_WINNERS'' then
                 (if exact_keys [''action'', ''winnerGroups''] kvs
                  then map_option DWinners (case map_of kvs ''winnerGroups'' of None \<Rightarrow> None | Some w \<Rightarrow> parse_nonempty (parse_nonempty parse_userId) w)
                  else None)
               else if a = ''DEALER_FOLD'' \<or> a = ''DEALER_KICK'' then
                 (if exact_keys [''action'', ''targetUserId''] kvs
                  then map_option (if a = ''DEALER_FOLD'' then DFold else DKick)
                         (case map_of kvs ''targetUserId'' of None \<Rightarrow> None | Some w \<Rightarrow> parse_userId w)
                  else None)
               else if \<not> exact_keys [''action''] kvs then None
               else if a = ''START_PRE_FLOP'' then Some DStart
               else if a = ''RETRY_CHECKPOINT'' then Some DRetry
               else if a = ''RESUME_TABLE'' then Some DResume
               else None
           | _ \<Rightarrow> None)
      | _ \<Rightarrow> None)"

definition RebuyResponseSchema :: "wire_value \<Rightarrow> bool option" where
  "RebuyResponseSchema v =
     (case v of
        WObj kvs \<Rightarrow> (case map_of kvs ''accept'' of Some (WBool b) \<Rightarrow> if exact_keys [''accept''] kvs then Some b else None | _ \<Rightarrow> None)
      | _ \<Rightarrow> None)"

section \<open>Printing\<close>

text \<open>What the clients send.\<close>

definition print_player :: "player_message \<Rightarrow> wire_value" where
  "print_player m =
     (case m of
        MCheck \<Rightarrow> WObj [(''action'', WStr ''CHECK'')]
      | MCall \<Rightarrow> WObj [(''action'', WStr ''CALL'')]
      | MFold \<Rightarrow> WObj [(''action'', WStr ''FOLD'')]
      | MRaise n \<Rightarrow> WObj [(''action'', WStr ''RAISE''), (''amount'', WInt n)])"

definition print_dealer :: "dealer_message \<Rightarrow> wire_value" where
  "print_dealer m =
     (case m of
        DStart \<Rightarrow> WObj [(''action'', WStr ''START_PRE_FLOP'')]
      | DWinners gs \<Rightarrow> WObj [(''action'', WStr ''RESOLVE_WINNERS''), (''winnerGroups'', WList (map (\<lambda>g. WList (map WStr g)) gs))]
      | DFold u \<Rightarrow> WObj [(''action'', WStr ''DEALER_FOLD''), (''targetUserId'', WStr u)]
      | DKick u \<Rightarrow> WObj [(''action'', WStr ''DEALER_KICK''), (''targetUserId'', WStr u)]
      | DRetry \<Rightarrow> WObj [(''action'', WStr ''RETRY_CHECKPOINT'')]
      | DResume \<Rightarrow> WObj [(''action'', WStr ''RESUME_TABLE'')])"

definition player_message_ok :: "player_message \<Rightarrow> bool" where
  "player_message_ok m \<longleftrightarrow> (case m of MRaise n \<Rightarrow> 0 < n \<and> safe_int n | _ \<Rightarrow> True)"

definition dealer_message_ok :: "dealer_message \<Rightarrow> bool" where
  "dealer_message_ok m \<longleftrightarrow>
     (case m of
        DWinners gs \<Rightarrow> gs \<noteq> [] \<and> list_all (\<lambda>g. g \<noteq> [] \<and> list_all (\<lambda>u. u \<noteq> []) g) gs
      | DFold u \<Rightarrow> u \<noteq> []
      | DKick u \<Rightarrow> u \<noteq> []
      | _ \<Rightarrow> True)"

section \<open>Round trips\<close>

lemma parse_all_printed: "list_all (\<lambda>y. f (p y) = Some y) ys \<Longrightarrow> parse_all f (map p ys) = Some ys"
  by (induction ys) simp_all

lemma parse_all_sound: "parse_all f xs = Some ys \<Longrightarrow> list_all2 (\<lambda>x y. f x = Some y) xs ys"
  by (induction xs arbitrary: ys) (auto split: option.splits)

lemma parsed_user: "parse_userId v = Some u \<Longrightarrow> u \<noteq> []"
  by (cases v) (auto split: if_splits)

lemma parse_nonempty_ok:
  assumes "parse_nonempty f v = Some ys" "\<And>x y. f x = Some y \<Longrightarrow> P y"
  shows "ys \<noteq> [] \<and> list_all P ys"
proof -
  obtain xs where xs: "v = WList xs" "xs \<noteq> []" "parse_all f xs = Some ys" using assms(1) by (cases v) (auto split: if_splits)
  have "list_all2 (\<lambda>x y. f x = Some y) xs ys" by (rule parse_all_sound[OF xs(3)])
  then show ?thesis using xs(2) assms(2) by (auto simp: list_all2_conv_all_nth list_all_length)
qed

lemma player_parse_ok: "PlayerActionSchema v = Some m \<Longrightarrow> player_message_ok m"
  by (auto simp: PlayerActionSchema_def player_message_ok_def split: wire_value.splits option.splits if_splits)

lemma dealer_parse_ok: "DealerActionSchema v = Some m \<Longrightarrow> dealer_message_ok m"
proof -
  have groups: "gs \<noteq> [] \<and> list_all (\<lambda>g. g \<noteq> [] \<and> list_all (\<lambda>u. u \<noteq> []) g) gs" if "parse_nonempty (parse_nonempty parse_userId) w = Some gs" for w gs
    by (rule parse_nonempty_ok[OF that]) (rule parse_nonempty_ok, assumption, rule parsed_user)
  show "DealerActionSchema v = Some m \<Longrightarrow> dealer_message_ok m"
    by (auto simp: DealerActionSchema_def dealer_message_ok_def dest!: parsed_user groups split: wire_value.splits option.splits if_splits)
qed

lemma player_printed: "player_message_ok m \<Longrightarrow> PlayerActionSchema (print_player m) = Some m"
  by (cases m) (auto simp: PlayerActionSchema_def print_player_def player_message_ok_def exact_keys_def)

lemma winners_printed:
  assumes "gs \<noteq> []" "list_all (\<lambda>g. g \<noteq> [] \<and> list_all (\<lambda>u. u \<noteq> []) g) gs"
  shows "parse_nonempty (parse_nonempty parse_userId) (WList (map (\<lambda>g. WList (map WStr g)) gs)) = Some gs"
proof -
  have "parse_nonempty parse_userId (WList (map WStr g)) = Some g" if "g \<noteq> [] \<and> list_all (\<lambda>u. u \<noteq> []) g" for g
    using that parse_all_printed[of parse_userId WStr g] by (simp add: list_all_iff)
  then have "parse_all (parse_nonempty parse_userId) (map (\<lambda>g. WList (map WStr g)) gs) = Some gs"
    using assms(2) by (intro parse_all_printed) (auto simp: list_all_iff)
  then show ?thesis using assms(1) by simp
qed

lemma dealer_printed: "dealer_message_ok m \<Longrightarrow> DealerActionSchema (print_dealer m) = Some m"
  using winners_printed
  by (cases m) (auto simp: DealerActionSchema_def print_dealer_def dealer_message_ok_def exact_keys_def simp del: parse_nonempty.simps)

text \<open>C12. A message of a player or a dealer that the clients can form is understood as it was meant, and every message that is
  accepted is one of those: a raise of a positive whole amount, named targets, winner groups that are not empty. In
  particular no socket can time a player out.\<close>

theorem messages_understood:
  "(player_message_ok m \<longrightarrow> PlayerActionSchema (print_player m) = Some m)
   \<and> (dealer_message_ok d \<longrightarrow> DealerActionSchema (print_dealer d) = Some d)
   \<and> (\<forall>m'. PlayerActionSchema v = Some m' \<longrightarrow> player_message_ok m' \<and> action_of_message m' \<in> {CHECK, CALL, FOLD, RAISE})
   \<and> (\<forall>d'. DealerActionSchema v = Some d' \<longrightarrow> dealer_message_ok d')"
  using player_printed[of m] dealer_printed[of d] player_parse_ok[of v] dealer_parse_ok[of v]
  by (auto simp: action_of_message_def split: player_message.splits)

theorem messages_understood_witness:
  "PlayerActionSchema (print_player (MRaise 400)) = Some (MRaise 400)
   \<and> DealerActionSchema (print_dealer (DWinners [[''anna'', ''ben''], [''cem'']])) = Some (DWinners [[''anna'', ''ben''], [''cem'']])"
proof -
  have "player_message_ok (MRaise 400)" "dealer_message_ok (DWinners [[''anna'', ''ben''], [''cem'']])"
    by (simp_all add: player_message_ok_def safe_int_def dealer_message_ok_def)
  then show ?thesis using messages_understood[of "MRaise 400" "DWinners [[''anna'', ''ben''], [''cem'']]"] by simp
qed

end
