(* ===== verification/Gateway.thy ===== *)
theory Gateway
  imports Tournaments TablePlay Contract
begin

text \<open>
  Sockets of the gateway (\<open>ws/ws.gateway.ts\<close>, \<open>ws/ws-ticket.service.ts\<close>): tickets, the steps of \<open>handleConnection\<close> between which
  other things happen, the rooms, disconnection, the closing of sockets whose token was revoked, and the gates of the
  commands. Sockets are numbered; a \<open>Set\<close> of sockets is a list without repetition, an absent room an empty one. \<open>close\<close> leaves
  the socket in its room until the event of its end; nothing is sent to it meanwhile. The database is the \<open>ledger\<close>.
\<close>

section \<open>Identities and tickets\<close>

datatype ws_role = UserRole | DealerRole | StoreAdminRole | PlatformAdminRole | SeatRole

record ws_identity =
  idSub :: string
  idRole :: ws_role
  idTournament :: "string option"
  idTable :: "string option"
  idSeatVersion :: "int option"
  idTokenVersion :: "int option"

definition TICKET_TTL_MS :: int where
  "TICKET_TTL_MS = 30 * 1000"

type_synonym tickets = "string \<Rightarrow> (ws_identity \<times> int) option"

definition ticket_issue :: "int \<Rightarrow> string \<Rightarrow> ws_identity \<Rightarrow> tickets \<Rightarrow> tickets" where
  "ticket_issue now ticket identity ts = ts(ticket \<mapsto> (identity, now + TICKET_TTL_MS))"

text \<open>\<open>GETDEL\<close>: read and removed in one command; an expired key is gone.\<close>

definition ticket_consume :: "int \<Rightarrow> string \<Rightarrow> tickets \<Rightarrow> ws_identity option \<times> tickets" where
  "ticket_consume now ticket ts =
     (case ts ticket of
        None \<Rightarrow> (None, ts)
      | Some (identity, end_at) \<Rightarrow> (if now < end_at then Some identity else None, ts(ticket := None)))"

definition assertIdentityCurrent :: "ws_identity \<Rightarrow> ledger \<Rightarrow> bool" where
  "assertIdentityCurrent p l =
     (case idRole p of
        SeatRole \<Rightarrow> (case (idTournament p, idSeatVersion p) of
            (Some t, Some ver) \<Rightarrow> assertSeatTokenCurrent t (idSub p) ver l
          | _ \<Rightarrow> False)
      | DealerRole \<Rightarrow> (case (idTournament p, idTable p, idTokenVersion p) of
            (Some t, Some tb, Some ver) \<Rightarrow> assertDealerSessionValid t tb ver l
          | _ \<Rightarrow> False)
      | _ \<Rightarrow> True)"

text \<open>What the ticket's controller hands out: only for a token that is current.\<close>

definition issue_ticket :: "int \<Rightarrow> string \<Rightarrow> ws_identity \<Rightarrow> ledger \<Rightarrow> tickets \<Rightarrow> (unit + string) \<times> tickets" where
  "issue_ticket now fresh identity l ts =
     (if assertIdentityCurrent identity l then (Inr fresh, ticket_issue now fresh identity ts) else (Inl (), ts))"

section \<open>Sockets and rooms\<close>

datatype stage = Entering | Admitted | InRoom | Live | Rejected

record socket =
  skIdentity :: ws_identity
  skTable :: "string option"
  skTournament :: "string option"
  skSeat :: "int option"
  skSyncTournament :: "string option"
  skOpen :: bool
  skStage :: stage
  skWasTableDealer :: bool
  skClosedByServer :: bool
  skRevoked :: bool
  skHandled :: bool

datatype revocation =
    SeatTokens string "string list"
  | DealerSession string

record gateway =
  gwSocket :: "nat \<Rightarrow> socket option"
  gwTables :: "string \<Rightarrow> nat list"
  gwTournaments :: "string \<Rightarrow> nat list"
  gwDue :: "revocation list"
  gwTickets :: tickets
  gwLedger :: ledger

definition addToMap :: "string \<Rightarrow> nat \<Rightarrow> (string \<Rightarrow> nat list) \<Rightarrow> string \<Rightarrow> nat list" where
  "addToMap k n rooms = rooms(k := (if n \<in> set (rooms k) then rooms k else rooms k @ [n]))"

definition drop_from :: "string option \<Rightarrow> nat \<Rightarrow> (string \<Rightarrow> nat list) \<Rightarrow> string \<Rightarrow> nat list" where
  "drop_from k n rooms = (case k of None \<Rightarrow> rooms | Some x \<Rightarrow> rooms(x := filter (\<lambda>m. m \<noteq> n) (rooms x)))"

definition change_socket :: "nat \<Rightarrow> (socket \<Rightarrow> socket) \<Rightarrow> gateway \<Rightarrow> gateway" where
  "change_socket n f g = g\<lparr>gwSocket := (gwSocket g)(n := map_option f (gwSocket g n))\<rparr>"

text \<open>The rooms are left once, by whichever of the two callers comes first.\<close>

definition handleDisconnect :: "nat \<Rightarrow> gateway \<Rightarrow> gateway" where
  "handleDisconnect n g =
     (case gwSocket g n of
        None \<Rightarrow> g
      | Some sk \<Rightarrow>
        if skHandled sk then g
        else change_socket n (\<lambda>s. s\<lparr>skHandled := True\<rparr>)
               (g\<lparr>gwTables := drop_from (skTable sk) n (gwTables g),
                  gwTournaments := drop_from (skTournament sk) n (gwTournaments g)\<rparr>))"

definition close_socket :: "nat \<Rightarrow> gateway \<Rightarrow> gateway" where
  "close_socket n g = change_socket n (\<lambda>s. s\<lparr>skOpen := False\<rparr>) g"

definition reject :: "nat \<Rightarrow> gateway \<Rightarrow> gateway" where
  "reject n g = change_socket n (\<lambda>s. s\<lparr>skOpen := False, skStage := Rejected\<rparr>) g"

section \<open>A connection, step by step\<close>

text \<open>The part of \<open>handleConnection\<close> up to the first wait for the database: origin, ticket.\<close>

definition connect :: "bool \<Rightarrow> int \<Rightarrow> nat \<Rightarrow> string option \<Rightarrow> gateway \<Rightarrow> gateway" where
  "connect originAllowed now n ticket g =
     (if gwSocket g n \<noteq> None \<or> \<not> originAllowed then g
      else case ticket of
        None \<Rightarrow> g
      | Some tk \<Rightarrow>
        (case ticket_consume now tk (gwTickets g) of
           (None, ts') \<Rightarrow> g\<lparr>gwTickets := ts'\<rparr>
         | (Some payload, ts') \<Rightarrow>
             g\<lparr>gwTickets := ts', gwSocket := (gwSocket g)(n \<mapsto> \<lparr>skIdentity = payload, skTable = None, skTournament = None,
                skSeat = None, skSyncTournament = None, skOpen = True, skStage = Entering, skWasTableDealer = False,
                skClosedByServer = False, skRevoked = False, skHandled = False\<rparr>)\<rparr>))"

definition check_identity :: "nat \<Rightarrow> gateway \<Rightarrow> gateway" where
  "check_identity n g =
     (case gwSocket g n of
        None \<Rightarrow> g
      | Some sk \<Rightarrow>
        if skStage sk \<noteq> Entering then g
        else if assertIdentityCurrent (skIdentity sk) (gwLedger g)
        then change_socket n (\<lambda>s. s\<lparr>skStage := Admitted, skTournament := idTournament (skIdentity sk)\<rparr>) g
        else reject n g)"

text \<open>
  \<open>assertTournamentAccess\<close>: a token made for a tournament is good for that one only; \<open>related\<close> says whether the user takes part or
  owns the store. \<open>assertTableAccess\<close>: a dealer's table is in the token, a player must sit in the snapshot.
\<close>

definition assertTournamentAccess :: "ws_identity \<Rightarrow> bool \<Rightarrow> string \<Rightarrow> bool" where
  "assertTournamentAccess p related t = (case idTournament p of Some x \<Rightarrow> x = t | None \<Rightarrow> related)"

definition assertTableAccess :: "ws_identity \<Rightarrow> table_state option \<Rightarrow> string \<Rightarrow> bool" where
  "assertTableAccess p snapshot tb =
     (if idRole p = DealerRole then idTable p = Some tb
      else (case snapshot of None \<Rightarrow> False | Some st \<Rightarrow> seat_index_of (idSub p) st \<noteq> -1))"

definition enter_room ::
  "nat \<Rightarrow> string option \<Rightarrow> string option \<Rightarrow> bool \<Rightarrow> table_state option \<Rightarrow> gateway \<Rightarrow> gateway" where
  "enter_room n tableParam tourParam related snapshot g =
     (case gwSocket g n of
        None \<Rightarrow> g
      | Some sk \<Rightarrow>
        if skStage sk \<noteq> Admitted then g
        else (case (tableParam, tourParam) of
            (None, Some t) \<Rightarrow>
              if assertTournamentAccess (skIdentity sk) related t
              then change_socket n (\<lambda>s. s\<lparr>skStage := InRoom, skTournament := Some t\<rparr>)
                     (g\<lparr>gwTournaments := addToMap t n (gwTournaments g)\<rparr>)
              else reject n g
          | (Some tb, _) \<Rightarrow>
              if assertTableAccess (skIdentity sk) snapshot tb
              then change_socket n (\<lambda>s. s\<lparr>skStage := InRoom, skTable := Some tb\<rparr>)
                     (g\<lparr>gwTables := addToMap tb n (gwTables g)\<rparr>)
              else reject n g
          | (None, None) \<Rightarrow> change_socket n (\<lambda>s. s\<lparr>skStage := Live\<rparr>) g))"

text \<open>
  \<open>closeIfStale\<close> and what follows for a table: \<open>failed\<close> is an error other than a refusal. The seat number is that of the
  snapshot read last.
\<close>

definition closeIfStale :: "bool \<Rightarrow> nat \<Rightarrow> gateway \<Rightarrow> bool \<times> gateway" where
  "closeIfStale failed n g =
     (case gwSocket g n of
        None \<Rightarrow> (False, g)
      | Some sk \<Rightarrow>
        if idRole (skIdentity sk) \<notin> {SeatRole, DealerRole} then (False, g)
        else if \<not> failed \<and> assertIdentityCurrent (skIdentity sk) (gwLedger g) then (False, g)
        else (True, handleDisconnect n (reject n g)))"

definition seat_of :: "ws_identity \<Rightarrow> table_state option \<Rightarrow> int option" where
  "seat_of p snapshot =
     (if idRole p = DealerRole then None
      else (case snapshot of None \<Rightarrow> None
            | Some st \<Rightarrow> if seat_index_of (idSub p) st \<noteq> -1 then Some (seat_index_of (idSub p) st) else None))"

definition finish_entry :: "nat \<Rightarrow> bool \<Rightarrow> table_state option \<Rightarrow> gateway \<Rightarrow> gateway" where
  "finish_entry n failed snapshot g =
     (case gwSocket g n of
        None \<Rightarrow> g
      | Some sk \<Rightarrow>
        if skStage sk \<noteq> InRoom then g
        else (case closeIfStale failed n g of
           (True, g') \<Rightarrow> g'
         | (False, g') \<Rightarrow>
             change_socket n (\<lambda>s. if skTable s = None then s\<lparr>skStage := Live\<rparr>
               else s\<lparr>skStage := Live, skWasTableDealer := (idRole (skIdentity s) = DealerRole),
                      skSeat := seat_of (skIdentity s) snapshot,
                      skSyncTournament := (if seat_of (skIdentity s) snapshot = None then None
                                           else map_option tournamentId snapshot)\<rparr>) g'))"

section \<open>The server closes\<close>

definition matches :: "revocation \<Rightarrow> socket \<Rightarrow> bool" where
  "matches r sk =
     (case r of
        SeatTokens t us \<Rightarrow> idRole (skIdentity sk) = SeatRole \<and> skTournament sk = Some t \<and> idSub (skIdentity sk) \<in> set us
      | DealerSession t \<Rightarrow> idRole (skIdentity sk) = DealerRole \<and> skTournament sk = Some t)"

definition in_rooms :: "nat \<Rightarrow> socket \<Rightarrow> gateway \<Rightarrow> bool" where
  "in_rooms n sk g \<longleftrightarrow> (case skTable sk of None \<Rightarrow> False | Some tb \<Rightarrow> n \<in> set (gwTables g tb))
     \<or> (case skTournament sk of None \<Rightarrow> False | Some t \<Rightarrow> n \<in> set (gwTournaments g t))"

text \<open>\<open>closeWhere\<close> goes through the rooms; a socket knows the rooms it is in.\<close>

definition closeWhere :: "(socket \<Rightarrow> bool) \<Rightarrow> gateway \<Rightarrow> gateway" where
  "closeWhere match g =
     g\<lparr>gwSocket := (\<lambda>n. case gwSocket g n of
          None \<Rightarrow> None
        | Some sk \<Rightarrow> Some (if in_rooms n sk g \<and> match sk then sk\<lparr>skRevoked := True, skOpen := False\<rparr> else sk))\<rparr>"

definition notify :: "gateway \<Rightarrow> gateway" where
  "notify g = (case gwDue g of [] \<Rightarrow> g | r # rs \<Rightarrow> closeWhere (matches r) (g\<lparr>gwDue := rs\<rparr>))"

definition closeTable :: "string \<Rightarrow> gateway \<Rightarrow> gateway" where
  "closeTable tb g =
     g\<lparr>gwSocket := (\<lambda>n. if n \<in> set (gwTables g tb) then map_option (\<lambda>s. s\<lparr>skClosedByServer := True, skOpen := False\<rparr>) (gwSocket g n)
                       else gwSocket g n),
       gwTables := (gwTables g)(tb := [])\<rparr>"

section \<open>Reading the rooms\<close>

definition open_in :: "gateway \<Rightarrow> nat \<Rightarrow> bool" where
  "open_in g n = (case gwSocket g n of None \<Rightarrow> False | Some sk \<Rightarrow> skOpen sk)"

text \<open>The sockets a broadcast reaches; those not open any more are dropped from the room on the way.\<close>

definition broadcastToTable :: "string \<Rightarrow> gateway \<Rightarrow> nat list \<times> gateway" where
  "broadcastToTable tb g =
     (let reached = filter (open_in g) (gwTables g tb) in (reached, g\<lparr>gwTables := (gwTables g)(tb := reached)\<rparr>))"

definition broadcastToTournament :: "string \<Rightarrow> gateway \<Rightarrow> nat list \<times> gateway" where
  "broadcastToTournament t g =
     (let reached = filter (open_in g) (gwTournaments g t) in (reached, g\<lparr>gwTournaments := (gwTournaments g)(t := reached)\<rparr>))"

definition sendToTableUser :: "string \<Rightarrow> string \<Rightarrow> gateway \<Rightarrow> nat list" where
  "sendToTableUser tb u g =
     filter (\<lambda>n. case gwSocket g n of None \<Rightarrow> False | Some sk \<Rightarrow> idSub (skIdentity sk) = u \<and> skOpen sk) (gwTables g tb)"

definition dealer_socket :: "gateway \<Rightarrow> nat \<Rightarrow> bool" where
  "dealer_socket g n = (case gwSocket g n of None \<Rightarrow> False | Some sk \<Rightarrow> idRole (skIdentity sk) = DealerRole \<and> skOpen sk)"

text \<open>\<open>tables\<close> lists the keys of the map of tables.\<close>

definition hasDealer :: "string list \<Rightarrow> string \<Rightarrow> gateway \<Rightarrow> bool" where
  "hasDealer tables t g =
     list_ex (\<lambda>tb. list_ex (\<lambda>n. dealer_socket g n \<and> (case gwSocket g n of None \<Rightarrow> False | Some sk \<Rightarrow> skTournament sk = Some t))
                (gwTables g tb)) tables"

text \<open>Who is present at a table: whether a dealer, and which seats.\<close>

definition tablePresence :: "string \<Rightarrow> gateway \<Rightarrow> bool \<times> int list" where
  "tablePresence tb g =
     (list_ex (dealer_socket g) (gwTables g tb),
      concat (map (\<lambda>n. case gwSocket g n of None \<Rightarrow> []
                     | Some sk \<Rightarrow> if skOpen sk \<and> idRole (skIdentity sk) \<noteq> DealerRole
                                  then (case skSeat sk of None \<Rightarrow> [] | Some i \<Rightarrow> [i]) else []) (gwTables g tb)))"

text \<open>\<open>pong n\<close> says whether socket \<open>n\<close> answers its ping in time.\<close>

definition confirmDealer :: "(nat \<Rightarrow> bool) \<Rightarrow> string \<Rightarrow> gateway \<Rightarrow> bool" where
  "confirmDealer pong tb g = list_ex pong (filter (dealer_socket g) (gwTables g tb))"

section \<open>The gateway as a machine\<close>

text \<open>
  The database changes under the gateway. An entry raises the version of the seat token and announces it in the same breath;
  a release announces after its writes to Redis, so \<open>mirrored = False\<close> (one of them failed) leaves it unannounced; expelling
  the dealers raises the version of the dealer session. Other transactions keep the versions.
\<close>

datatype gateway_event =
    TicketIssued int string ws_identity
  | Connected bool int nat "string option"
  | IdentityChecked nat
  | RoomEntered nat "string option" "string option" bool "table_state option"
  | EntryFinished nat bool "table_state option"
  | SocketGone nat
  | SeatEntry bool string string int string
  | SeatsFreed bool string string "(int \<times> string) list" string "(string \<times> string) list"
  | DealerExpelled string string
  | OtherChange ledger
  | Notified
  | TableClosed string
  | TableBroadcast string
  | TournamentBroadcast string

definition same_versions :: "ledger \<Rightarrow> ledger \<Rightarrow> bool" where
  "same_versions l l' \<longleftrightarrow>
     list_all (\<lambda>t. case (tour t l, tour t l') of
        (Some row, Some row') \<Rightarrow> tDealer row' = tDealer row \<and>
          list_all (\<lambda>u. map_option pSeatVersion (find_part u (tParts row')) = map_option pSeatVersion (find_part u (tParts row)))
            (map pUser (tParts row))
      | _ \<Rightarrow> False) (map fst (lTours l))"

fun gateway_step :: "gateway \<Rightarrow> gateway_event \<Rightarrow> gateway" where
  "gateway_step g (TicketIssued now tk p) = g\<lparr>gwTickets := snd (issue_ticket now tk p (gwLedger g) (gwTickets g))\<rparr>"
| "gateway_step g (Connected originAllowed now n tk) = connect originAllowed now n tk g"
| "gateway_step g (IdentityChecked n) = check_identity n g"
| "gateway_step g (RoomEntered n tb t related snapshot) = enter_room n tb t related snapshot g"
| "gateway_step g (EntryFinished n failed snapshot) = finish_entry n failed snapshot g"
| "gateway_step g (SocketGone n) = handleDisconnect n (close_socket n g)"
| "gateway_step g (SeatEntry missing t tb i otp) =
     (case enterSeat missing t tb i otp (gwLedger g) of
        (Inl _, l') \<Rightarrow> g\<lparr>gwLedger := l'\<rparr>
      | (Inr (u, _), l') \<Rightarrow> g\<lparr>gwLedger := l', gwDue := gwDue g @ [SeatTokens t [u]]\<rparr>)"
| "gateway_step g (SeatsFreed mirrored t tb seats owner otps) =
     (case releaseSeats t tb seats owner otps (gwLedger g) of
        (Inl _, l') \<Rightarrow> g\<lparr>gwLedger := l'\<rparr>
      | (Inr _, l') \<Rightarrow> g\<lparr>gwLedger := l', gwDue := gwDue g @ (if mirrored then [SeatTokens t (map snd seats)] else [])\<rparr>)"
| "gateway_step g (DealerExpelled t owner) =
     (case revokeDealerSession t owner (gwLedger g) of
        (Inl _, l') \<Rightarrow> g\<lparr>gwLedger := l'\<rparr>
      | (Inr _, l') \<Rightarrow> g\<lparr>gwLedger := l', gwDue := gwDue g @ [DealerSession t]\<rparr>)"
| "gateway_step g (OtherChange l') = (if same_versions (gwLedger g) l' then g\<lparr>gwLedger := l'\<rparr> else g)"
| "gateway_step g Notified = notify g"
| "gateway_step g (TableClosed tb) = closeTable tb g"
| "gateway_step g (TableBroadcast tb) = snd (broadcastToTable tb g)"
| "gateway_step g (TournamentBroadcast t) = snd (broadcastToTournament t g)"

definition gateway_start :: "ledger \<Rightarrow> gateway" where
  "gateway_start l = \<lparr>gwSocket = (\<lambda>_. None), gwTables = (\<lambda>_. []), gwTournaments = (\<lambda>_. []), gwDue = [], gwTickets = (\<lambda>_. None),
     gwLedger = l\<rparr>"

definition gateway_run :: "ledger \<Rightarrow> gateway_event list \<Rightarrow> gateway" where
  "gateway_run l es = foldl gateway_step (gateway_start l) es"

section \<open>Commands\<close>

datatype command_result = NoAnswer | CommandError | CommandDone

text \<open>\<open>handlePlayerAction\<close>: what reaches the table, and only from an open socket of a player while Redis is up.\<close>

definition handlePlayerAction :: "bool \<Rightarrow> int \<Rightarrow> socket \<Rightarrow> wire_value \<Rightarrow> table_service \<Rightarrow> command_result \<times> table_service" where
  "handlePlayerAction removed now sk data s =
     (if \<not> skOpen sk then (NoAnswer, s)
      else if \<not> svUp s then (CommandError, s)
      else if idRole (skIdentity sk) = DealerRole then (CommandError, s)
      else (case PlayerActionSchema data of
              None \<Rightarrow> (CommandError, s)
            | Some m \<Rightarrow>
                (case handleAction removed now (idSub (skIdentity sk)) (action_of_message m)
                        (map_option IntNum (amount_of_message m)) None s of
                   (Inl _, s') \<Rightarrow> (CommandError, s')
                 | (Inr acted, s') \<Rightarrow> (if acted then CommandDone else NoAnswer, s'))))"

text \<open>
  \<open>runDealerAction\<close>: nothing while the tournament is paused. \<open>resolve\<close> stands for \<open>resolveWinners\<close>, which takes many critical
  sections (see \<open>TablePlay\<close> and \<open>Rebuy\<close>); the other arguments are those of the dealer's operations.
\<close>

definition runDealerAction ::
  "bool \<Rightarrow> bool \<Rightarrow> int \<Rightarrow> (bool \<times> blind_level) option \<Rightarrow> (string list list \<Rightarrow> table_service \<Rightarrow> unit service_result) \<Rightarrow> bool \<times> bool \<times> bool
   \<Rightarrow> dealer_message \<Rightarrow> table_service \<Rightarrow> command_result \<times> table_service" where
  "runDealerAction syncing removed now blind resolve checkpoint m s =
     (if syncing then (CommandError, s)
      else case (case m of
            DStart \<Rightarrow> dealer_startPreFlop removed now blind s
          | DWinners gs \<Rightarrow> resolve gs s
          | DFold u \<Rightarrow> handleDealerAction removed now u False s
          | DKick u \<Rightarrow> handleDealerAction removed now u True s
          | DRetry \<Rightarrow> (case checkpoint of (rebuying, saving, synced) \<Rightarrow> retryCheckpoint rebuying saving synced s)
          | DResume \<Rightarrow> resumeTable removed now s) of
        (Inl _, s') \<Rightarrow> (CommandError, s')
      | (Inr _, s') \<Rightarrow> (CommandDone, s'))"

definition handleDealerCommand ::
  "bool \<Rightarrow> bool \<Rightarrow> int \<Rightarrow> (bool \<times> blind_level) option \<Rightarrow> (string list list \<Rightarrow> table_service \<Rightarrow> unit service_result) \<Rightarrow> bool \<times> bool \<times> bool
   \<Rightarrow> socket \<Rightarrow> wire_value \<Rightarrow> table_service \<Rightarrow> command_result \<times> table_service" where
  "handleDealerCommand syncing removed now blind resolve checkpoint sk data s =
     (if \<not> skOpen sk then (NoAnswer, s)
      else if \<not> svUp s then (CommandError, s)
      else if idRole (skIdentity sk) \<noteq> DealerRole then (CommandError, s)
      else (case DealerActionSchema data of
              None \<Rightarrow> (CommandError, s)
            | Some m \<Rightarrow> runDealerAction syncing removed now blind resolve checkpoint m s))"

section \<open>Rebuy prompts\<close>

text \<open>The prompts that are out, by table and user: deadline and the outage they belong to.\<close>

type_synonym prompts = "string \<times> string \<Rightarrow> (int \<times> nat) option"

definition handleRebuyRequest :: "string \<Rightarrow> string \<Rightarrow> int \<Rightarrow> nat \<Rightarrow> gateway \<Rightarrow> prompts \<Rightarrow> nat list \<times> prompts" where
  "handleRebuyRequest tb u deadline gen g ps = (sendToTableUser tb u g, ps((tb, u) \<mapsto> (deadline, gen)))"

definition resendPendingRebuyPrompt :: "int \<Rightarrow> nat \<Rightarrow> string \<Rightarrow> string \<Rightarrow> table_state \<Rightarrow> prompts \<Rightarrow> int option \<times> prompts" where
  "resendPendingRebuyPrompt now gen tb u st ps =
     (let seatPosition = seat_index_of u st in
      if seatPosition = -1 then (None, ps)
      else case rebuyPending st of
        None \<Rightarrow> (None, ps)
      | Some pend \<Rightarrow>
        if seatPosition \<notin> set (seatIndexes pend) then (None, ps)
        else (case ps (tb, u) of
           None \<Rightarrow> (None, ps)
         | Some (deadline, promptGen) \<Rightarrow>
             if deadline \<le> now then (None, ps((tb, u) := None))
             else if deadline < rebuyDeadline pend then (None, ps)
             else if promptGen \<noteq> gen then (None, ps((tb, u) := None))
             else (Some deadline, ps)))"

text \<open>The answer reaches the waiting \<open>processRebuy\<close> as \<open>Answered\<close> of its user.\<close>

definition handleRebuyResponse :: "bool \<Rightarrow> socket \<Rightarrow> wire_value \<Rightarrow> prompts \<Rightarrow> (string \<times> bool) option \<times> prompts" where
  "handleRebuyResponse up sk data ps =
     (if \<not> skOpen sk \<or> \<not> up then (None, ps)
      else (case RebuyResponseSchema data of
              None \<Rightarrow> (None, ps)
            | Some accept \<Rightarrow>
                (Some (idSub (skIdentity sk), accept),
                 case skTable sk of None \<Rightarrow> ps | Some tb \<Rightarrow> ps((tb, idSub (skIdentity sk)) := None))))"

definition forget_prompts :: "string \<Rightarrow> prompts \<Rightarrow> prompts" where
  "forget_prompts tb ps = (\<lambda>(tb', u). if tb' = tb then None else ps (tb', u))"

end
