(* ===== verification/GatewayProps.thy ===== *)
theory GatewayProps
  imports Gateway LedgerTokens
begin

text \<open>
  A socket whose token is superseded is closed. Revocation and connection race; checking the token once more after the socket
  has entered its room closes the gap, in every interleaving of the steps. The last section shows the one place where
  the announcement itself is lost.
\<close>

section \<open>Superseded tokens\<close>

definition restricted :: "ws_identity \<Rightarrow> bool" where
  "restricted p \<longleftrightarrow> idRole p \<in> {SeatRole, DealerRole}"

text \<open>The version that the token names is not the one of the database any more.\<close>

definition superseded :: "ws_identity \<Rightarrow> ledger \<Rightarrow> bool" where
  "superseded p l =
     (case idRole p of
        SeatRole \<Rightarrow> (case (idTournament p, idSeatVersion p) of
            (Some t, Some ver) \<Rightarrow> \<not> assertSeatTokenCurrent t (idSub p) ver l
          | _ \<Rightarrow> True)
      | DealerRole \<Rightarrow> (case (idTournament p, idTokenVersion p) of
            (Some t, Some ver) \<Rightarrow> (case tour t l of None \<Rightarrow> True | Some row \<Rightarrow> tDealer row \<noteq> Some ver)
          | _ \<Rightarrow> True)
      | _ \<Rightarrow> False)"

lemma current_not_superseded: "assertIdentityCurrent p l \<Longrightarrow> \<not> superseded p l"
  by (auto simp: assertIdentityCurrent_def superseded_def assertDealerSessionValid_def split: ws_role.splits option.splits)

lemma current_tournament: "assertIdentityCurrent p l \<Longrightarrow> restricted p \<Longrightarrow> idTournament p \<noteq> None"
  by (auto simp: assertIdentityCurrent_def restricted_def split: ws_role.splits option.splits)

text \<open>The revocation that speaks of an identity.\<close>

definition names :: "revocation \<Rightarrow> ws_identity \<Rightarrow> bool" where
  "names r p =
     (case r of
        SeatTokens t us \<Rightarrow> idRole p = SeatRole \<and> idTournament p = Some t \<and> idSub p \<in> set us
      | DealerSession t \<Rightarrow> idRole p = DealerRole \<and> idTournament p = Some t)"

lemma names_matches: "skTournament sk = idTournament (skIdentity sk) \<Longrightarrow> matches r sk = names r (skIdentity sk)"
  by (simp add: matches_def names_def split: revocation.split)

text \<open>Changes of the database that announce every token they end.\<close>

definition announced :: "ledger \<Rightarrow> ledger \<Rightarrow> revocation list \<Rightarrow> bool" where
  "announced l l' rs \<longleftrightarrow> (\<forall>p. superseded p l' \<longrightarrow> superseded p l \<or> (\<exists>r\<in>set rs. names r p))"

lemma announced_refl [simp]: "announced l l rs"
  by (simp add: announced_def)

lemma announcedI:
  assumes seat: "\<And>t u k. assertSeatTokenCurrent t u k l \<Longrightarrow> \<not> assertSeatTokenCurrent t u k l' \<Longrightarrow>
      \<exists>r\<in>set rs. case r of SeatTokens t' us \<Rightarrow> t' = t \<and> u \<in> set us | DealerSession _ \<Rightarrow> False"
    and dealer: "\<And>t row. tour t l = Some row \<Longrightarrow> tDealer row \<noteq> None \<Longrightarrow>
      (\<exists>row'. tour t l' = Some row' \<and> tDealer row' = tDealer row) \<or> DealerSession t \<in> set rs"
  shows "announced l l' rs"
  unfolding announced_def
proof (intro allI impI)
  fix p assume s: "superseded p l'"
  show "superseded p l \<or> (\<exists>r\<in>set rs. names r p)"
  proof (rule disjCI)
    assume "\<not> (\<exists>r\<in>set rs. names r p)"
    then have n: "\<forall>r\<in>set rs. \<not> names r p" by blast
    show "superseded p l"
    proof (rule ccontr)
      assume c: "\<not> superseded p l"
      consider (seat) t ver where "idRole p = SeatRole" "idTournament p = Some t" "idSeatVersion p = Some ver"
          "assertSeatTokenCurrent t (idSub p) ver l" "\<not> assertSeatTokenCurrent t (idSub p) ver l'"
        | (dealer) t row where "idRole p = DealerRole" "idTournament p = Some t" "tour t l = Some row" "tDealer row \<noteq> None"
          "\<not> (\<exists>row'. tour t l' = Some row' \<and> tDealer row' = tDealer row)"
        using s c by (auto simp: superseded_def split: ws_role.splits option.splits)
      then show False
      proof cases
        case seat
        then obtain r where "r \<in> set rs" "case r of SeatTokens t' us \<Rightarrow> t' = t \<and> idSub p \<in> set us | DealerSession _ \<Rightarrow> False"
          using assms(1) by blast
        then show False using n seat by (auto simp: names_def split: revocation.splits)
      next
        case dealer
        then have "DealerSession t \<in> set rs" using assms(2) by blast
        then show False using n dealer by (auto simp: names_def)
      qed
    qed
  qed
qed

section \<open>What the transactions announce\<close>

lemma claimSeat_dealer:
  assumes "claimSeat_tx t tb s u l = (r, l')" "tour t' l = Some row"
  shows "\<exists>row'. tour t' l' = Some row' \<and> tDealer row' = tDealer row"
  using assms by (auto simp: claimSeat_tx_def Let_def commit_def tour_put_tour split: option.splits if_splits)

lemma claimSeat_failed: "claimSeat_tx t tb s u l = (Inl e, l') \<Longrightarrow> l' = l"
  by (auto simp: claimSeat_tx_def Let_def commit_def split: option.splits if_splits)

lemma bump_other:
  assumes "assertSeatTokenCurrent t' v k l" "t' \<noteq> t \<or> v \<noteq> u"
  shows "assertSeatTokenCurrent t' v k (bump_seat_version t u l)"
proof -
  have f: "pUser (if pUser p = u then p\<lparr>pSeatVersion := pSeatVersion p + 1\<rparr> else p) = pUser p" for p by simp
  obtain row p where row: "tour t' l = Some row" "find_part v (tParts row) = Some p" "pSeatVersion p = k"
    using assms(1) by (auto simp: seat_token_iff)
  have v: "pUser p = v" using find_part_SomeD[OF row(2)] by simp
  show ?thesis
  proof (cases "tour t l")
    case None
    then show ?thesis using assms(1) by (simp add: bump_seat_version_def)
  next
    case (Some r)
    show ?thesis
    proof (cases "t' = t")
      case True
      then have "v \<noteq> u" using assms(2) by simp
      then show ?thesis using True Some row v
        by (simp add: bump_seat_version_def seat_token_iff tour_put_tour update_part_def find_part_map[OF f])
    next
      case False
      then show ?thesis using Some row by (simp add: bump_seat_version_def seat_token_iff tour_put_tour)
    qed
  qed
qed

lemma bump_dealer: "tour t' l = Some row \<Longrightarrow> \<exists>row'. tour t' (bump_seat_version t u l) = Some row' \<and> tDealer row' = tDealer row"
  by (auto simp: bump_seat_version_def tour_put_tour split: option.splits)

lemma enterSeat_announced:
  "enterSeat missing t tb i otp l = (Inl e, l') \<Longrightarrow> l' = l"
  "enterSeat missing t tb i otp l = (Inr (u, v), l') \<Longrightarrow> announced l l' [SeatTokens t [u]]"
proof -
  show "enterSeat missing t tb i otp l = (Inl e, l') \<Longrightarrow> l' = l"
    by (auto simp: enterSeat_def Let_def dest: claimSeat_failed split: option.splits if_splits sum.splits prod.splits)
  assume "enterSeat missing t tb i otp l = (Inr (u, v), l')"
  then obtain l1 x where l': "l' = bump_seat_version t u l1" and l1: "l1 = l \<or> claimSeat_tx t tb i u l = (Inr x, l1)"
    by (auto simp: enterSeat_def Let_def split: option.splits if_splits sum.splits prod.splits)
  show "announced l l' [SeatTokens t [u]]"
  proof (rule announcedI)
    fix t' v k assume c: "assertSeatTokenCurrent t' v k l" "\<not> assertSeatTokenCurrent t' v k l'"
    have "assertSeatTokenCurrent t' v k l1"
    proof (cases "l1 = l")
      case False
      then have cl: "claimSeat_tx t tb i u l = (Inr x, l1)" using l1 by blast
      show ?thesis
      proof (cases "t' = t")
        case True
        then show ?thesis using claimSeat_version[OF cl] c(1) by simp
      next
        case False
        then have "tour t' l1 = tour t' l"
          using cl by (auto simp: claimSeat_tx_def Let_def commit_def tour_put_tour split: option.splits if_splits)
        then show ?thesis using c(1) by (simp add: seat_token_iff)
      qed
    qed (use c in simp)
    then have "\<not> (t' \<noteq> t \<or> v \<noteq> u)" using bump_other[of t' v k l1 t u] c(2) l' by blast
    then show "\<exists>r\<in>set [SeatTokens t [u]]. case r of SeatTokens t'' us \<Rightarrow> t'' = t' \<and> v \<in> set us | DealerSession _ \<Rightarrow> False"
      by simp
  next
    fix t' row assume "tour t' l = Some row"
    then obtain row1 where "tour t' l1 = Some row1" "tDealer row1 = tDealer row" using l1 claimSeat_dealer by blast
    then show "(\<exists>row'. tour t' l' = Some row' \<and> tDealer row' = tDealer row) \<or> DealerSession t' \<in> set [SeatTokens t [u]]"
      using bump_dealer l' by metis
  qed
qed

lemma announced_row:
  assumes row: "tour t l = Some row" "tour t l' = Some row'" "tParts row' = map h (tParts row)" "tDealer row' = tDealer row"
    and h: "\<And>p. pUser (h p) = pUser p" "\<And>p. pUser p \<notin> set us \<Longrightarrow> pSeatVersion (h p) = pSeatVersion p"
    and others: "\<And>t'. t' \<noteq> t \<Longrightarrow> tour t' l' = tour t' l"
  shows "announced l l' [SeatTokens t us]"
proof (rule announcedI)
  fix t' v k assume c: "assertSeatTokenCurrent t' v k l" "\<not> assertSeatTokenCurrent t' v k l'"
  have t: "t' = t"
  proof (rule ccontr)
    assume "t' \<noteq> t"
    then show False using c others[of t'] by (simp add: seat_token_iff)
  qed
  then obtain p where p: "find_part v (tParts row) = Some p" "pSeatVersion p = k" using c(1) row(1) by (auto simp: seat_token_iff)
  have "v \<in> set us"
  proof (rule ccontr)
    assume "v \<notin> set us"
    then have "pSeatVersion (h p) = k" using h(2) p find_part_SomeD by metis
    then show False using c(2) row(2,3) p(1) t by (simp add: seat_token_iff find_part_map[OF h(1)])
  qed
  then show "\<exists>r\<in>set [SeatTokens t us]. case r of SeatTokens t'' us \<Rightarrow> t'' = t' \<and> v \<in> set us | DealerSession _ \<Rightarrow> False"
    using t by simp
next
  fix t' r assume "tour t' l = Some r"
  then show "(\<exists>row'. tour t' l' = Some row' \<and> tDealer row' = tDealer r) \<or> DealerSession t' \<in> set [SeatTokens t us]"
    using row others by (cases "t' = t") auto
qed

lemma release_announced:
  "releaseSeats t tb seats owner otps l = (Inl e, l') \<Longrightarrow> l' = l"
  "releaseSeats t tb seats owner otps l = (Inr x, l') \<Longrightarrow> announced l l' [SeatTokens t (map snd seats)]"
proof -
  show "releaseSeats t tb seats owner otps l = (Inl e, l') \<Longrightarrow> l' = l"
    by (auto simp: releaseSeats_def Let_def split: sum.splits prod.splits if_splits)
  assume "releaseSeats t tb seats owner otps l = (Inr x, l')"
  then obtain y l1 where l1: "releaseSeats_tx t tb seats l = (Inr y, l1)" "l' = rotate_otps t otps l1"
    by (auto simp: releaseSeats_def Let_def split: sum.splits prod.splits if_splits)
  define f where "f p = (if pUser p \<in> set (map snd seats) then p\<lparr>pStatus := RELEASED, pSeatVersion := pSeatVersion p + 1\<rparr> else p)" for p :: participation
  define g where "g p = fold (\<lambda>(u, otp) p. if pUser p = u then p\<lparr>pOtp := otp\<rparr> else p) otps p" for p :: participation
  have g: "pUser (g p) = pUser p" "pSeatVersion (g p) = pSeatVersion p" for p :: participation
    unfolding g_def using fold_part_keeps[of "\<lambda>otp p. p\<lparr>pOtp := otp\<rparr>" otps p] by simp_all
  obtain row where row: "tour t l = Some row" using l1(1) by (auto simp: releaseSeats_tx_def split: option.splits)
  then obtain row1 where row1: "l1 = put_tour t row1 l" "tParts row1 = map f (tParts row)" "tDealer row1 = tDealer row"
    using l1(1) by (auto simp: releaseSeats_tx_def Let_def f_def split: if_splits)
  have t1: "tour t l1 = Some row1" using row1(1) row by (simp add: tour_put_tour)
  have "fold (\<lambda>(u, otp) ps. update_part u (\<lambda>p. p\<lparr>pOtp := otp\<rparr>) ps) otps (tParts row1) = map g (tParts row1)"
    unfolding g_def[abs_def] by (rule fold_update_map)
  then have t2: "tour t l' = Some (row1\<lparr>tParts := map g (tParts row1)\<rparr>)" "t' \<noteq> t \<Longrightarrow> tour t' l' = tour t' l" for t'
    using t1 row1(1) row l1(2) by (simp_all add: rotate_otps_def tour_put_tour)
  have parts: "tParts (row1\<lparr>tParts := map g (tParts row1)\<rparr>) = map (\<lambda>p. g (f p)) (tParts row)" using row1(2) by simp
  show "announced l l' [SeatTokens t (map snd seats)]"
  proof (rule announced_row[OF row t2(1) parts])
    show "tDealer (row1\<lparr>tParts := map g (tParts row1)\<rparr>) = tDealer row" using row1(3) by simp
    show "pUser (g (f p)) = pUser p" for p by (simp add: g f_def)
    show "pSeatVersion (g (f p)) = pSeatVersion p" if "pUser p \<notin> set (map snd seats)" for p using that g by (simp add: f_def)
  qed (use t2(2) in simp)
qed

lemma expel_announced:
  "revokeDealerSession t owner l = (Inl e, l') \<Longrightarrow> l' = l"
  "revokeDealerSession t owner l = (Inr x, l') \<Longrightarrow> announced l l' [DealerSession t]"
proof -
  show "revokeDealerSession t owner l = (Inl e, l') \<Longrightarrow> l' = l"
    by (auto simp: revokeDealerSession_def split: sum.splits)
  assume "revokeDealerSession t owner l = (Inr x, l')"
  then obtain row where row: "tour t l = Some row" and l': "l' = put_tour t (row\<lparr>tDealer := map_option (\<lambda>v. v + 1) (tDealer row)\<rparr>) l"
    by (auto simp: revokeDealerSession_def owned_Inr split: sum.splits)
  show "announced l l' [DealerSession t]"
  proof (rule announcedI)
    fix t' v k assume "assertSeatTokenCurrent t' v k l" "\<not> assertSeatTokenCurrent t' v k l'"
    then have False using row unfolding l' by (auto simp: seat_token_iff tour_put_tour split: if_splits)
    then show "\<exists>r\<in>set [DealerSession t]. case r of SeatTokens t'' us \<Rightarrow> t'' = t' \<and> v \<in> set us | DealerSession _ \<Rightarrow> False" ..
  next
    fix t' r assume "tour t' l = Some r"
    then show "(\<exists>row'. tour t' l' = Some row' \<and> tDealer row' = tDealer r) \<or> DealerSession t' \<in> set [DealerSession t]"
      using row unfolding l' by (cases "t' = t") (auto simp: tour_put_tour)
  qed
qed

lemma tour_listed: "tour t l = Some row \<Longrightarrow> t \<in> set (map fst (lTours l))"
  unfolding tour_def using map_of_SomeD by force

lemma same_versions_row:
  assumes "same_versions l l'" "tour t l = Some row"
  shows "\<exists>row'. tour t l' = Some row' \<and> tDealer row' = tDealer row
      \<and> (\<forall>u\<in>pUser ` set (tParts row). map_option pSeatVersion (find_part u (tParts row')) = map_option pSeatVersion (find_part u (tParts row)))"
proof -
  have "case (tour t l, tour t l') of
        (Some row, Some row') \<Rightarrow> tDealer row' = tDealer row \<and>
          list_all (\<lambda>u. map_option pSeatVersion (find_part u (tParts row')) = map_option pSeatVersion (find_part u (tParts row)))
            (map pUser (tParts row))
      | _ \<Rightarrow> False"
    using assms(1) tour_listed[OF assms(2)] unfolding same_versions_def list_all_iff by blast
  then show ?thesis using assms(2) by (cases "tour t l'") (simp_all add: list_all_iff)
qed

lemma same_versions_announced:
  assumes "same_versions l l'"
  shows "announced l l' []"
proof (rule announcedI)
  fix t v k assume c: "assertSeatTokenCurrent t v k l" "\<not> assertSeatTokenCurrent t v k l'"
  then obtain r p where r: "tour t l = Some r" "find_part v (tParts r) = Some p" "pSeatVersion p = k"
    by (auto simp: seat_token_iff)
  obtain r' where r': "tour t l' = Some r'" "\<And>u. u \<in> pUser ` set (tParts r) \<Longrightarrow>
      map_option pSeatVersion (find_part u (tParts r')) = map_option pSeatVersion (find_part u (tParts r))"
    using same_versions_row[OF assms r(1)] by blast
  have "v \<in> pUser ` set (tParts r)" using find_part_SomeD[OF r(2)] by auto
  then have "map_option pSeatVersion (find_part v (tParts r')) = Some k" using r'(2) r(2,3) by simp
  then have False using r'(1) c(2) by (auto simp: seat_token_iff)
  then show "\<exists>r\<in>set []. case r of SeatTokens t'' us \<Rightarrow> t'' = t \<and> v \<in> set us | DealerSession _ \<Rightarrow> False" ..
next
  fix t row assume "tour t l = Some row"
  then show "(\<exists>row'. tour t l' = Some row' \<and> tDealer row' = tDealer row) \<or> DealerSession t \<in> set []"
    using same_versions_row[OF assms] by blast
qed

section \<open>Rooms\<close>

lemma socket_change [simp]:
  "gwSocket (change_socket n f g) m = (if m = n then map_option f (gwSocket g n) else gwSocket g m)"
  "gwTables (change_socket n f g) = gwTables g" "gwTournaments (change_socket n f g) = gwTournaments g"
  "gwDue (change_socket n f g) = gwDue g" "gwLedger (change_socket n f g) = gwLedger g"
  by (simp_all add: change_socket_def)

lemma addToMap_in [simp]: "m \<in> set (addToMap k n rooms x) \<longleftrightarrow> m \<in> set (rooms x) \<or> (x = k \<and> m = n)"
  by (auto simp: addToMap_def)

lemma drop_from_in: "m \<in> set (drop_from k n rooms x) \<longleftrightarrow> m \<in> set (rooms x) \<and> (k \<noteq> Some x \<or> m \<noteq> n)"
  by (auto simp: drop_from_def split: option.split)

text \<open>Who is in a room knows it, and has got past the first check.\<close>

definition settled :: "socket \<Rightarrow> bool" where
  "settled sk \<longleftrightarrow> skStage sk \<noteq> Entering \<and> skStage sk \<noteq> Admitted"

definition rooms_ok :: "gateway \<Rightarrow> bool" where
  "rooms_ok g \<longleftrightarrow>
     (\<forall>tb n. n \<in> set (gwTables g tb) \<longrightarrow> (\<exists>sk. gwSocket g n = Some sk \<and> skTable sk = Some tb \<and> settled sk))
     \<and> (\<forall>t n. n \<in> set (gwTournaments g t) \<longrightarrow> (\<exists>sk. gwSocket g n = Some sk \<and> skTournament sk = Some t \<and> settled sk))"

text \<open>The tournament of a restricted token is the tournament of its socket.\<close>

definition homes_ok :: "gateway \<Rightarrow> bool" where
  "homes_ok g \<longleftrightarrow> (\<forall>n sk. gwSocket g n = Some sk \<longrightarrow> restricted (skIdentity sk) \<longrightarrow> skStage sk \<in> {Admitted, InRoom, Live}
     \<longrightarrow> skTournament sk = idTournament (skIdentity sk) \<and> idTournament (skIdentity sk) \<noteq> None)"

text \<open>A live socket in a room whose token is superseded is about to be closed.\<close>

definition due_ok :: "gateway \<Rightarrow> bool" where
  "due_ok g \<longleftrightarrow> (\<forall>n sk. gwSocket g n = Some sk \<longrightarrow> in_rooms n sk g \<longrightarrow> skOpen sk \<longrightarrow> skStage sk = Live
     \<longrightarrow> superseded (skIdentity sk) (gwLedger g) \<longrightarrow> (\<exists>r\<in>set (gwDue g). matches r sk))"

definition gateway_ok :: "gateway \<Rightarrow> bool" where
  "gateway_ok g \<longleftrightarrow> rooms_ok g \<and> homes_ok g \<and> due_ok g"

lemma rooms_okI:
  assumes "\<And>tb n. n \<in> set (gwTables g tb) \<Longrightarrow> \<exists>sk. gwSocket g n = Some sk \<and> skTable sk = Some tb \<and> settled sk"
    and "\<And>t n. n \<in> set (gwTournaments g t) \<Longrightarrow> \<exists>sk. gwSocket g n = Some sk \<and> skTournament sk = Some t \<and> settled sk"
  shows "rooms_ok g"
  using assms unfolding rooms_ok_def by blast

lemma rooms_okD:
  "rooms_ok g \<Longrightarrow> n \<in> set (gwTables g tb) \<Longrightarrow> \<exists>sk. gwSocket g n = Some sk \<and> skTable sk = Some tb \<and> settled sk"
  "rooms_ok g \<Longrightarrow> n \<in> set (gwTournaments g t) \<Longrightarrow> \<exists>sk. gwSocket g n = Some sk \<and> skTournament sk = Some t \<and> settled sk"
  unfolding rooms_ok_def by blast+

text \<open>Changes of sockets that keep what the rooms rely on, with rooms that only lose members.\<close>

lemma rooms_shrink:
  assumes "rooms_ok g"
    and "\<And>tb n. n \<in> set (gwTables g' tb) \<Longrightarrow> n \<in> set (gwTables g tb)"
    and "\<And>t n. n \<in> set (gwTournaments g' t) \<Longrightarrow> n \<in> set (gwTournaments g t)"
    and "\<And>n sk. gwSocket g n = Some sk \<Longrightarrow> settled sk \<Longrightarrow>
      \<exists>sk'. gwSocket g' n = Some sk' \<and> skTable sk' = skTable sk \<and> skTournament sk' = skTournament sk \<and> settled sk'"
  shows "rooms_ok g'"
  by (rule rooms_okI) (metis assms rooms_okD)+

lemma handleDisconnect_rooms: "rooms_ok g \<Longrightarrow> rooms_ok (handleDisconnect n g)"
  by (erule rooms_shrink) (auto simp: handleDisconnect_def drop_from_in settled_def split: option.splits if_splits)

lemma change_rooms:
  assumes "rooms_ok g" "\<And>s. settled s \<Longrightarrow> skTable (f s) = skTable s \<and> skTournament (f s) = skTournament s \<and> settled (f s)"
  shows "rooms_ok (change_socket n f g)"
  by (rule rooms_shrink[OF assms(1)]) (use assms(2) in auto)

lemma reject_rooms: "rooms_ok g \<Longrightarrow> rooms_ok (reject n g)"
  unfolding reject_def by (erule change_rooms) (simp add: settled_def)

lemma close_rooms: "rooms_ok g \<Longrightarrow> rooms_ok (close_socket n g)"
  unfolding close_socket_def by (erule change_rooms) (simp add: settled_def)

lemma connect_rooms: "rooms_ok g \<Longrightarrow> rooms_ok (connect b now n tk g)"
  by (erule rooms_shrink) (auto simp: connect_def settled_def split: option.splits prod.splits if_splits)

lemma check_rooms: "rooms_ok g \<Longrightarrow> rooms_ok (check_identity n g)"
  by (erule rooms_shrink) (auto simp: check_identity_def reject_def settled_def split: option.splits if_splits)

lemma enter_rooms:
  assumes ok: "rooms_ok g"
  shows "rooms_ok (enter_room n tb t related snapshot g)"
proof (cases "\<exists>sk. gwSocket g n = Some sk \<and> skStage sk = Admitted")
  case True
  then obtain sk where sk: "gwSocket g n = Some sk" "skStage sk = Admitted" by blast
  have out: "n \<notin> set (gwTables g x)" "n \<notin> set (gwTournaments g x)" for x
    using rooms_okD[OF ok] sk by (force simp: settled_def)+
  show ?thesis
  proof (rule rooms_okI)
    fix x m assume "m \<in> set (gwTables (enter_room n tb t related snapshot g) x)"
    then show "\<exists>sk. gwSocket (enter_room n tb t related snapshot g) m = Some sk \<and> skTable sk = Some x \<and> settled sk"
      using sk out rooms_okD(1)[OF ok, of m x]
      by (auto simp: enter_room_def reject_def settled_def split: option.splits if_splits)
  next
    fix x m assume "m \<in> set (gwTournaments (enter_room n tb t related snapshot g) x)"
    then show "\<exists>sk. gwSocket (enter_room n tb t related snapshot g) m = Some sk \<and> skTournament sk = Some x \<and> settled sk"
      using sk out rooms_okD(2)[OF ok, of m x]
      by (auto simp: enter_room_def reject_def settled_def split: option.splits if_splits)
  qed
qed (use ok in \<open>auto simp: enter_room_def split: option.splits\<close>)

lemma finish_rooms:
  assumes ok: "rooms_ok g"
  shows "rooms_ok (finish_entry n failed snapshot g)"
proof -
  have "rooms_ok (snd (closeIfStale failed n g))"
    using ok by (auto simp: closeIfStale_def intro!: handleDisconnect_rooms reject_rooms split: option.splits)
  moreover have "rooms_ok (change_socket n (\<lambda>s. if skTable s = None then s\<lparr>skStage := Live\<rparr>
               else s\<lparr>skStage := Live, skWasTableDealer := w s, skSeat := x s, skSyncTournament := y s\<rparr>) h)"
    if "rooms_ok h" for h w x y
    using that by (rule change_rooms) (simp add: settled_def)
  ultimately show ?thesis using ok
    by (auto simp: finish_entry_def split: option.splits prod.splits bool.splits)
qed

lemma closeWhere_rooms: "rooms_ok g \<Longrightarrow> rooms_ok (closeWhere m g)"
  by (erule rooms_shrink) (auto simp: closeWhere_def settled_def)

lemma closeTable_rooms: "rooms_ok g \<Longrightarrow> rooms_ok (closeTable tb g)"
  by (erule rooms_shrink) (auto simp: closeTable_def settled_def split: if_splits)

lemma broadcast_rooms:
  "rooms_ok g \<Longrightarrow> rooms_ok (snd (broadcastToTable tb g))" "rooms_ok g \<Longrightarrow> rooms_ok (snd (broadcastToTournament t g))"
  by (erule rooms_shrink, auto simp: broadcastToTable_def broadcastToTournament_def Let_def split: if_splits)+

lemma other_rooms: "rooms_ok (g\<lparr>gwLedger := l, gwDue := ds\<rparr>) = rooms_ok g" "rooms_ok (g\<lparr>gwLedger := l\<rparr>) = rooms_ok g"
  "rooms_ok (g\<lparr>gwTickets := ts\<rparr>) = rooms_ok g" "rooms_ok (g\<lparr>gwDue := ds\<rparr>) = rooms_ok g"
  by (simp_all add: rooms_ok_def)

lemma step_rooms: "rooms_ok g \<Longrightarrow> rooms_ok (gateway_step g e)"
  by (cases e) (auto simp: notify_def other_rooms intro: connect_rooms check_rooms enter_rooms finish_rooms handleDisconnect_rooms
      close_rooms closeTable_rooms broadcast_rooms intro!: closeWhere_rooms split: sum.splits prod.splits list.splits)

section \<open>The tournament of a token\<close>

lemma homes_okI:
  "(\<And>n sk. gwSocket g n = Some sk \<Longrightarrow> restricted (skIdentity sk) \<Longrightarrow> skStage sk \<in> {Admitted, InRoom, Live} \<Longrightarrow>
      skTournament sk = idTournament (skIdentity sk) \<and> idTournament (skIdentity sk) \<noteq> None) \<Longrightarrow> homes_ok g"
  unfolding homes_ok_def by blast

lemma homes_okD:
  "homes_ok g \<Longrightarrow> gwSocket g n = Some sk \<Longrightarrow> restricted (skIdentity sk) \<Longrightarrow> skStage sk \<in> {Admitted, InRoom, Live} \<Longrightarrow>
     skTournament sk = idTournament (skIdentity sk) \<and> idTournament (skIdentity sk) \<noteq> None"
  unfolding homes_ok_def by blast

lemma change_homes:
  assumes "homes_ok g"
    and "\<And>s. gwSocket g n = Some s \<Longrightarrow> restricted (skIdentity (f s)) \<Longrightarrow> skStage (f s) \<in> {Admitted, InRoom, Live} \<Longrightarrow>
      (skTournament (f s) = idTournament (skIdentity (f s)) \<and> idTournament (skIdentity (f s)) \<noteq> None)
      \<or> (skIdentity (f s) = skIdentity s \<and> skTournament (f s) = skTournament s \<and> skStage s \<in> {Admitted, InRoom, Live})"
  shows "homes_ok (change_socket n f g)"
proof (rule homes_okI)
  fix m sk
  assume a: "gwSocket (change_socket n f g) m = Some sk" "restricted (skIdentity sk)" "skStage sk \<in> {Admitted, InRoom, Live}"
  show "skTournament sk = idTournament (skIdentity sk) \<and> idTournament (skIdentity sk) \<noteq> None"
  proof (cases "m = n")
    case True
    then obtain s where s: "gwSocket g n = Some s" "sk = f s" using a(1) by auto
    then show ?thesis using assms(2)[OF s(1)] homes_okD[OF assms(1) s(1)] a(2,3) by metis
  next
    case False
    then show ?thesis using a homes_okD[OF assms(1)] by simp
  qed
qed

lemma same_sockets_homes: "homes_ok g \<Longrightarrow> gwSocket g' = gwSocket g \<Longrightarrow> homes_ok g'"
  by (simp add: homes_ok_def)

lemma reject_homes: "homes_ok g \<Longrightarrow> homes_ok (reject n g)"
  unfolding reject_def by (erule change_homes) simp

lemma handleDisconnect_homes: "homes_ok g \<Longrightarrow> homes_ok (handleDisconnect n g)"
proof -
  assume ok: "homes_ok g"
  have "homes_ok (change_socket n (\<lambda>s. s\<lparr>skHandled := True\<rparr>) (g\<lparr>gwTables := x, gwTournaments := y\<rparr>))" for x y
    using same_sockets_homes[OF ok] by (intro change_homes) auto
  then show ?thesis using ok by (simp add: handleDisconnect_def split: option.split)
qed

lemma connect_homes: "homes_ok g \<Longrightarrow> homes_ok (connect b now n tk g)"
  by (auto simp: connect_def homes_ok_def split: option.splits prod.splits if_splits)

lemma check_homes: "homes_ok g \<Longrightarrow> homes_ok (check_identity n g)"
  unfolding check_identity_def
  by (auto intro!: reject_homes change_homes dest: current_tournament split: option.splits)

lemma enter_homes:
  assumes ok: "homes_ok g"
  shows "homes_ok (enter_room n tb t related snapshot g)"
proof -
  have "homes_ok (change_socket n (\<lambda>s. s\<lparr>skStage := InRoom, skTournament := Some x\<rparr>) (g\<lparr>gwTournaments := y\<rparr>))"
    if "gwSocket g n = Some sk" "skStage sk = Admitted" "assertTournamentAccess (skIdentity sk) related x" for x y sk
  proof (rule change_homes)
    show "homes_ok (g\<lparr>gwTournaments := y\<rparr>)" using ok by (rule same_sockets_homes) simp
    fix s assume s: "gwSocket (g\<lparr>gwTournaments := y\<rparr>) n = Some s"
      "restricted (skIdentity (s\<lparr>skStage := InRoom, skTournament := Some x\<rparr>))"
    then have "idTournament (skIdentity sk) \<noteq> None" using homes_okD[OF ok that(1)] that by simp
    then show "(skTournament (s\<lparr>skStage := InRoom, skTournament := Some x\<rparr>) = idTournament (skIdentity (s\<lparr>skStage := InRoom, skTournament := Some x\<rparr>))
        \<and> idTournament (skIdentity (s\<lparr>skStage := InRoom, skTournament := Some x\<rparr>)) \<noteq> None)
        \<or> (skIdentity (s\<lparr>skStage := InRoom, skTournament := Some x\<rparr>) = skIdentity s
        \<and> skTournament (s\<lparr>skStage := InRoom, skTournament := Some x\<rparr>) = skTournament s \<and> skStage s \<in> {Admitted, InRoom, Live})"
      using s that by (auto simp: assertTournamentAccess_def split: option.splits)
  qed
  moreover have "homes_ok (change_socket n (\<lambda>s. s\<lparr>skStage := InRoom, skTable := Some x\<rparr>) (g\<lparr>gwTables := y\<rparr>))"
    if "gwSocket g n = Some sk" "skStage sk = Admitted" for x y sk
    by (rule change_homes) (use that same_sockets_homes[OF ok] in auto)
  moreover have "homes_ok (change_socket n (\<lambda>s. s\<lparr>skStage := Live\<rparr>) g)" if "gwSocket g n = Some sk" "skStage sk = Admitted" for sk
    by (rule change_homes[OF ok]) (use that in auto)
  ultimately show ?thesis using ok
    by (auto simp: enter_room_def intro: reject_homes split: option.splits)
qed

lemma finish_homes:
  assumes ok: "homes_ok g"
  shows "homes_ok (finish_entry n failed snapshot g)"
proof (cases "\<exists>sk. gwSocket g n = Some sk \<and> skStage sk = InRoom")
  case True
  then obtain sk where sk: "gwSocket g n = Some sk" "skStage sk = InRoom" by blast
  have "homes_ok (handleDisconnect n (reject n g))" using ok by (intro handleDisconnect_homes reject_homes)
  moreover have "homes_ok (change_socket n (\<lambda>s. if skTable s = None then s\<lparr>skStage := Live\<rparr>
               else s\<lparr>skStage := Live, skWasTableDealer := w s, skSeat := x s, skSyncTournament := y s\<rparr>) g)" for w x y
    by (rule change_homes[OF ok]) (use sk in auto)
  ultimately show ?thesis using sk unfolding finish_entry_def closeIfStale_def by simp
qed (use ok in \<open>auto simp: finish_entry_def split: option.splits\<close>)

lemma closeWhere_homes: "homes_ok g \<Longrightarrow> homes_ok (closeWhere m g)"
  by (auto simp: closeWhere_def homes_ok_def split: option.splits)

lemma closeTable_homes: "homes_ok g \<Longrightarrow> homes_ok (closeTable tb g)"
  by (auto simp: closeTable_def homes_ok_def split: if_splits)

lemma gone_homes: "homes_ok g \<Longrightarrow> homes_ok (handleDisconnect n (close_socket n g))"
  unfolding close_socket_def by (intro handleDisconnect_homes change_homes) auto

lemma other_homes: "homes_ok (g\<lparr>gwLedger := l, gwDue := ds\<rparr>) = homes_ok g" "homes_ok (g\<lparr>gwLedger := l\<rparr>) = homes_ok g"
  "homes_ok (g\<lparr>gwTickets := ts\<rparr>) = homes_ok g" "homes_ok (g\<lparr>gwDue := ds\<rparr>) = homes_ok g"
  "homes_ok (g\<lparr>gwTables := r\<rparr>) = homes_ok g" "homes_ok (g\<lparr>gwTournaments := r\<rparr>) = homes_ok g"
  by (simp_all add: homes_ok_def)

lemma step_homes: "homes_ok g \<Longrightarrow> homes_ok (gateway_step g e)"
  by (cases e) (auto simp: notify_def broadcastToTable_def broadcastToTournament_def Let_def other_homes
      intro: connect_homes check_homes enter_homes finish_homes gone_homes closeTable_homes
      intro!: closeWhere_homes split: sum.splits prod.splits list.splits)

section \<open>Superseded tokens are about to be announced\<close>

lemma superseded_restricted: "superseded p l \<Longrightarrow> restricted p"
  by (auto simp: superseded_def restricted_def split: ws_role.splits)

lemma due_okD:
  "due_ok g \<Longrightarrow> gwSocket g n = Some sk \<Longrightarrow> in_rooms n sk g \<Longrightarrow> skOpen sk \<Longrightarrow> skStage sk = Live \<Longrightarrow>
     superseded (skIdentity sk) (gwLedger g) \<Longrightarrow> \<exists>r\<in>set (gwDue g). matches r sk"
  unfolding due_ok_def by blast

lemma in_roomsI: "n \<in> set (gwTables g tb) \<Longrightarrow> skTable sk = Some tb \<Longrightarrow> in_rooms n sk g"
  "n \<in> set (gwTournaments g t) \<Longrightarrow> skTournament sk = Some t \<Longrightarrow> in_rooms n sk g"
  by (simp_all add: in_rooms_def)

lemma in_rooms_same:
  "gwTables g' = gwTables g \<Longrightarrow> gwTournaments g' = gwTournaments g \<Longrightarrow> in_rooms n sk g' = in_rooms n sk g"
  by (simp add: in_rooms_def split: option.split)

lemma in_rooms_update [simp]:
  "in_rooms n sk (change_socket m f g) = in_rooms n sk g"
  "in_rooms n sk (g\<lparr>gwLedger := l, gwDue := ds\<rparr>) = in_rooms n sk g"
  "in_rooms n sk (g\<lparr>gwTickets := ts\<rparr>) = in_rooms n sk g" "in_rooms n sk (g\<lparr>gwLedger := l\<rparr>) = in_rooms n sk g"
  "in_rooms n sk (g\<lparr>gwDue := ds\<rparr>) = in_rooms n sk g"
  by (rule in_rooms_same; simp)+

lemma in_rooms_mono:
  assumes "in_rooms n sk' g'" "skTable sk' = skTable sk" "skTournament sk' = skTournament sk"
    and "\<And>tb. n \<in> set (gwTables g' tb) \<Longrightarrow> n \<in> set (gwTables g tb)"
    and "\<And>t. n \<in> set (gwTournaments g' t) \<Longrightarrow> n \<in> set (gwTournaments g t)"
  shows "in_rooms n sk g"
  using assms unfolding in_rooms_def by (auto split: option.splits)

lemma matches_same:
  "skIdentity sk' = skIdentity sk \<Longrightarrow> skTournament sk' = skTournament sk \<Longrightarrow> matches r sk' = matches r sk"
  by (simp add: matches_def split: revocation.split)

text \<open>Sockets that are live, open and in a room after the step were so before it, or have just been found current.\<close>

lemma due_shrink:
  assumes ok: "due_ok g" and same: "gwLedger g' = gwLedger g" "gwDue g' = gwDue g"
    and old: "\<And>n sk'. gwSocket g' n = Some sk' \<Longrightarrow> in_rooms n sk' g' \<Longrightarrow> skOpen sk' \<Longrightarrow> skStage sk' = Live \<Longrightarrow>
      \<not> superseded (skIdentity sk') (gwLedger g)
      \<or> (\<exists>sk. gwSocket g n = Some sk \<and> in_rooms n sk g \<and> skOpen sk \<and> skStage sk = Live
            \<and> skIdentity sk' = skIdentity sk \<and> skTournament sk' = skTournament sk)"
  shows "due_ok g'"
  unfolding due_ok_def
proof (intro allI impI)
  fix n sk' assume a: "gwSocket g' n = Some sk'" "in_rooms n sk' g'" "skOpen sk'" "skStage sk' = Live"
    "superseded (skIdentity sk') (gwLedger g')"
  then obtain sk where sk: "gwSocket g n = Some sk" "in_rooms n sk g" "skOpen sk" "skStage sk = Live"
      "skIdentity sk' = skIdentity sk" "skTournament sk' = skTournament sk"
    using old[OF a(1-4)] same by auto
  then have "\<exists>r\<in>set (gwDue g). matches r sk" using due_okD[OF ok sk(1-4)] a(5) same by simp
  then show "\<exists>r\<in>set (gwDue g'). matches r sk'" using same(2) matches_same[OF sk(5,6)] by simp
qed

lemma due_same:
  assumes "due_ok g" "gwLedger g' = gwLedger g" "gwDue g' = gwDue g"
    and "\<And>n sk'. gwSocket g' n = Some sk' \<Longrightarrow> skOpen sk' \<Longrightarrow> skStage sk' = Live \<Longrightarrow>
      \<exists>sk. gwSocket g n = Some sk \<and> skOpen sk \<and> skStage sk = Live
            \<and> skIdentity sk' = skIdentity sk \<and> skTournament sk' = skTournament sk \<and> skTable sk' = skTable sk"
    and "\<And>n tb. n \<in> set (gwTables g' tb) \<Longrightarrow> n \<in> set (gwTables g tb)"
    and "\<And>n t. n \<in> set (gwTournaments g' t) \<Longrightarrow> n \<in> set (gwTournaments g t)"
  shows "due_ok g'"
proof (rule due_shrink[OF assms(1-3)])
  fix n sk' assume a: "gwSocket g' n = Some sk'" "in_rooms n sk' g'" "skOpen sk'" "skStage sk' = Live"
  then obtain sk where sk: "gwSocket g n = Some sk" "skOpen sk" "skStage sk = Live"
      "skIdentity sk' = skIdentity sk" "skTournament sk' = skTournament sk" "skTable sk' = skTable sk"
    using assms(4) by blast
  have "in_rooms n sk g" using in_rooms_mono[OF a(2) sk(6,5)] assms(5,6) by blast
  then show "\<not> superseded (skIdentity sk') (gwLedger g) \<or> (\<exists>sk. gwSocket g n = Some sk \<and> in_rooms n sk g \<and> skOpen sk
      \<and> skStage sk = Live \<and> skIdentity sk' = skIdentity sk \<and> skTournament sk' = skTournament sk)"
    using sk by blast
qed

lemma reject_due: "due_ok g \<Longrightarrow> due_ok (reject n g)"
  by (erule due_same) (auto simp: reject_def split: if_splits)

lemma close_due: "due_ok g \<Longrightarrow> due_ok (close_socket n g)"
  by (erule due_same) (auto simp: close_socket_def split: if_splits)

lemma handleDisconnect_due: "due_ok g \<Longrightarrow> due_ok (handleDisconnect n g)"
  by (erule due_same) (auto simp: handleDisconnect_def drop_from_in split: option.splits if_splits)

lemma connect_due: "due_ok g \<Longrightarrow> due_ok (connect b now n tk g)"
  by (erule due_same) (auto simp: connect_def split: option.splits prod.splits if_splits)

lemma check_due: "due_ok g \<Longrightarrow> due_ok (check_identity n g)"
  by (erule due_same) (auto simp: check_identity_def reject_def split: option.splits if_splits)

lemma closeTable_due: "due_ok g \<Longrightarrow> due_ok (closeTable tb g)"
  by (erule due_same) (auto simp: closeTable_def split: if_splits)

lemma broadcast_due:
  "due_ok g \<Longrightarrow> due_ok (snd (broadcastToTable tb g))" "due_ok g \<Longrightarrow> due_ok (snd (broadcastToTournament t g))"
  by (erule due_same, auto simp: broadcastToTable_def broadcastToTournament_def Let_def split: if_splits)+

lemma notify_due:
  assumes ok: "due_ok g"
  shows "due_ok (notify g)"
proof (cases "gwDue g")
  case (Cons r rs)
  show ?thesis unfolding due_ok_def
  proof (intro allI impI)
    fix n sk' assume a: "gwSocket (notify g) n = Some sk'" "in_rooms n sk' (notify g)" "skOpen sk'" "skStage sk' = Live"
      "superseded (skIdentity sk') (gwLedger (notify g))"
    then obtain sk where sk: "gwSocket g n = Some sk" "sk' = (if in_rooms n sk (g\<lparr>gwDue := rs\<rparr>) \<and> matches r sk then sk\<lparr>skRevoked := True, skOpen := False\<rparr> else sk)"
      using Cons by (auto simp: notify_def closeWhere_def split: option.splits)
    then have k: "\<not> (in_rooms n sk (g\<lparr>gwDue := rs\<rparr>) \<and> matches r sk)" "sk' = sk" using a(3) by (auto split: if_splits)
    have "in_rooms n sk g" using a(2) k Cons by (auto simp: notify_def closeWhere_def in_rooms_def split: option.splits)
    moreover have "\<not> matches r sk" using k calculation by simp
    moreover have "superseded (skIdentity sk) (gwLedger g)" using a(5) k Cons by (simp add: notify_def closeWhere_def)
    ultimately have "\<exists>r\<in>set rs. matches r sk" using due_okD[OF ok sk(1)] a k Cons by auto
    then show "\<exists>r\<in>set (gwDue (notify g)). matches r sk'" using k Cons by (simp add: notify_def closeWhere_def)
  qed
qed (use ok in \<open>simp add: notify_def\<close>)

lemma enter_due:
  assumes ok: "due_ok g" and rooms: "rooms_ok g"
  shows "due_ok (enter_room n tb t related snapshot g)"
proof (cases "\<exists>sk. gwSocket g n = Some sk \<and> skStage sk = Admitted")
  case True
  then obtain sk where sk: "gwSocket g n = Some sk" "skStage sk = Admitted" by blast
  have out: "n \<notin> set (gwTables g x)" "n \<notin> set (gwTournaments g x)" for x
    using rooms_okD[OF rooms] sk by (force simp: settled_def)+
  show ?thesis
  proof (rule due_shrink[OF ok])
    fix m sk' assume a: "gwSocket (enter_room n tb t related snapshot g) m = Some sk'" "in_rooms m sk' (enter_room n tb t related snapshot g)"
      "skOpen sk'" "skStage sk' = Live"
    have mn: "m \<noteq> n"
    proof
      assume "m = n"
      then show False using a sk out by (auto simp: enter_room_def reject_def in_rooms_def split: option.splits if_splits)
    qed
    have "gwSocket g m = Some sk'" using a(1) sk mn by (auto simp: enter_room_def reject_def split: option.splits if_splits)
    moreover have "in_rooms m sk' g" using a(2) sk mn
      by (auto simp: enter_room_def reject_def in_rooms_def split: option.splits if_splits)
    ultimately show "\<not> superseded (skIdentity sk') (gwLedger g) \<or> (\<exists>sk. gwSocket g m = Some sk \<and> in_rooms m sk g \<and> skOpen sk
      \<and> skStage sk = Live \<and> skIdentity sk' = skIdentity sk \<and> skTournament sk' = skTournament sk)"
      using a by blast
  qed (use sk in \<open>auto simp: enter_room_def reject_def split: option.splits\<close>)
qed (use ok in \<open>auto simp: enter_room_def split: option.splits\<close>)

lemma finish_due:
  assumes ok: "due_ok g"
  shows "due_ok (finish_entry n failed snapshot g)"
proof (cases "\<exists>sk. gwSocket g n = Some sk \<and> skStage sk = InRoom")
  case True
  then obtain sk where sk: "gwSocket g n = Some sk" "skStage sk = InRoom" by blast
  have "due_ok (handleDisconnect n (reject n g))" using ok by (intro handleDisconnect_due reject_due)
  moreover have "due_ok (change_socket n (\<lambda>s. if skTable s = None then s\<lparr>skStage := Live\<rparr>
               else s\<lparr>skStage := Live, skWasTableDealer := w s, skSeat := x s, skSyncTournament := y s\<rparr>) g)"
    if c: "\<not> superseded (skIdentity sk) (gwLedger g)" for w x y
  proof (rule due_shrink[OF ok])
    fix m sk'
    assume "gwSocket (change_socket n (\<lambda>s. if skTable s = None then s\<lparr>skStage := Live\<rparr>
               else s\<lparr>skStage := Live, skWasTableDealer := w s, skSeat := x s, skSyncTournament := y s\<rparr>) g) m = Some sk'"
      "in_rooms m sk' (change_socket n (\<lambda>s. if skTable s = None then s\<lparr>skStage := Live\<rparr>
               else s\<lparr>skStage := Live, skWasTableDealer := w s, skSeat := x s, skSyncTournament := y s\<rparr>) g)"
      "skOpen sk'" "skStage sk' = Live"
    then show "\<not> superseded (skIdentity sk') (gwLedger g) \<or> (\<exists>sk. gwSocket g m = Some sk \<and> in_rooms m sk g \<and> skOpen sk
      \<and> skStage sk = Live \<and> skIdentity sk' = skIdentity sk \<and> skTournament sk' = skTournament sk)"
      using sk c by (cases "m = n"; cases "skTable sk") auto
  qed simp_all
  moreover have "\<not> superseded (skIdentity sk) (gwLedger g)"
    if "idRole (skIdentity sk) \<notin> {SeatRole, DealerRole} \<or> \<not> failed \<and> assertIdentityCurrent (skIdentity sk) (gwLedger g)"
    using that current_not_superseded superseded_restricted by (auto simp: restricted_def)
  ultimately show ?thesis using sk unfolding finish_entry_def closeIfStale_def by simp
qed (use ok in \<open>auto simp: finish_entry_def split: option.splits\<close>)

text \<open>A change of the database that announces what it supersedes.\<close>

lemma ledger_due:
  assumes ok: "due_ok g" and homes: "homes_ok g" and ann: "announced (gwLedger g) l' rs"
  shows "due_ok (g\<lparr>gwLedger := l', gwDue := gwDue g @ rs\<rparr>)"
  unfolding due_ok_def
proof (intro allI impI)
  fix n sk assume a: "gwSocket (g\<lparr>gwLedger := l', gwDue := gwDue g @ rs\<rparr>) n = Some sk" "in_rooms n sk (g\<lparr>gwLedger := l', gwDue := gwDue g @ rs\<rparr>)"
    "skOpen sk" "skStage sk = Live" "superseded (skIdentity sk) (gwLedger (g\<lparr>gwLedger := l', gwDue := gwDue g @ rs\<rparr>))"
  have sk: "gwSocket g n = Some sk" "in_rooms n sk g" using a(1,2) by simp_all
  have home: "skTournament sk = idTournament (skIdentity sk)"
    using homes_okD[OF homes sk(1) superseded_restricted[OF a(5)]] a(4) by simp
  from a(5) ann have "superseded (skIdentity sk) (gwLedger g) \<or> (\<exists>r\<in>set rs. names r (skIdentity sk))"
    by (simp add: announced_def)
  then have "\<exists>r\<in>set (gwDue g @ rs). matches r sk"
    using due_okD[OF ok sk a(3,4)] names_matches[OF home] by auto
  then show "\<exists>r\<in>set (gwDue (g\<lparr>gwLedger := l', gwDue := gwDue g @ rs\<rparr>)). matches r sk" by simp
qed

lemma other_due: "due_ok (g\<lparr>gwTickets := ts\<rparr>) = due_ok g"
  by (simp add: due_ok_def)

text \<open>Every event but a release whose announcement is lost.\<close>

definition heard :: "gateway_event \<Rightarrow> bool" where
  "heard e = (case e of SeatsFreed mirrored _ _ _ _ _ \<Rightarrow> mirrored | _ \<Rightarrow> True)"

lemma step_due:
  assumes ok: "due_ok g" "homes_ok g" "rooms_ok g" "heard e"
  shows "due_ok (gateway_step g e)"
proof (cases e)
  case (SeatEntry missing t tb i otp)
  obtain r l' where c: "enterSeat missing t tb i otp (gwLedger g) = (r, l')" by fastforce
  show ?thesis
  proof (cases r)
    case (Inl x)
    then show ?thesis using c ok(1) enterSeat_announced(1) SeatEntry by fastforce
  next
    case (Inr x)
    then obtain u v where x: "r = Inr (u, v)" by (cases x) simp
    then show ?thesis using ledger_due[OF ok(1,2) enterSeat_announced(2)] c SeatEntry by simp
  qed
next
  case (SeatsFreed mirrored t tb seats owner otps)
  obtain r l' where c: "releaseSeats t tb seats owner otps (gwLedger g) = (r, l')" by fastforce
  show ?thesis
  proof (cases r)
    case (Inl x)
    then show ?thesis using c ok(1) release_announced(1) SeatsFreed by fastforce
  next
    case (Inr x)
    then show ?thesis using ledger_due[OF ok(1,2) release_announced(2)] c ok(4) SeatsFreed by (simp add: heard_def)
  qed
next
  case (DealerExpelled t owner)
  obtain r l' where c: "revokeDealerSession t owner (gwLedger g) = (r, l')" by fastforce
  show ?thesis
  proof (cases r)
    case (Inl x)
    then show ?thesis using c ok(1) expel_announced(1) DealerExpelled by fastforce
  next
    case (Inr x)
    then show ?thesis using ledger_due[OF ok(1,2) expel_announced(2)] c DealerExpelled by simp
  qed
next
  case (OtherChange l')
  then show ?thesis using ok ledger_due[OF ok(1,2) same_versions_announced, of l'] by simp
qed (use ok in \<open>auto simp: other_due intro: connect_due check_due enter_due finish_due notify_due handleDisconnect_due close_due
      closeTable_due broadcast_due\<close>)

lemma run_ok:
  assumes "list_all heard es"
  shows "gateway_ok (gateway_run l es)"
  using assms
proof (induction es rule: rev_induct)
  case Nil
  then show ?case by (simp add: gateway_run_def gateway_start_def gateway_ok_def rooms_ok_def homes_ok_def due_ok_def)
next
  case (snoc e es)
  then show ?case using step_rooms step_homes step_due
    by (simp add: gateway_run_def gateway_ok_def)
qed

end
