(* ===== verification/GatewayClaims.thy ===== *)
theory GatewayClaims
  imports GatewayProps LedgerTokens
begin

text \<open>
  The properties of the gateway, with a demo: player A opens a socket with a ticket and, while it is between the check of its
  token and its room, enters again from another device.
\<close>

section \<open>A refused socket stays closed\<close>

definition refused_closed :: "gateway \<Rightarrow> bool" where
  "refused_closed g \<longleftrightarrow> (\<forall>n sk. gwSocket g n = Some sk \<longrightarrow> skStage sk = Rejected \<longrightarrow> \<not> skOpen sk)"


lemma refused_same: "gwSocket g' = gwSocket g \<Longrightarrow> refused_closed g' = refused_closed g"
  by (simp add: refused_closed_def)

lemma refused_update [simp]:
  "refused_closed (g\<lparr>gwTables := r, gwTournaments := r'\<rparr>) = refused_closed g"
  "refused_closed (g\<lparr>gwTables := r\<rparr>) = refused_closed g" "refused_closed (g\<lparr>gwTournaments := r'\<rparr>) = refused_closed g"
  "refused_closed (g\<lparr>gwLedger := l, gwDue := ds\<rparr>) = refused_closed g" "refused_closed (g\<lparr>gwLedger := l\<rparr>) = refused_closed g"
  "refused_closed (g\<lparr>gwTickets := ts\<rparr>) = refused_closed g" "refused_closed (g\<lparr>gwDue := ds\<rparr>) = refused_closed g"
  by (rule refused_same, simp)+






section \<open>The demo\<close>

definition seat_identity :: "string \<Rightarrow> int \<Rightarrow> ws_identity" where
  "seat_identity u v = \<lparr>idSub = u, idRole = SeatRole, idTournament = Some ''T'', idTable = None, idSeatVersion = Some v, idTokenVersion = None\<rparr>"

definition gateway_table :: table_state where
  "gateway_table = (createEmptyTableState ''T'')\<lparr>players := [Some (new_seat ''A'' ''X'' ''A'' 0 1000 WAITING),
     Some (new_seat ''B'' ''X'' ''B'' 1 1000 WAITING), None, None, None, None, None, None, None]\<rparr>"

definition demo_arrival :: "nat \<Rightarrow> string \<Rightarrow> gateway_event list" where
  "demo_arrival n u = [TicketIssued 0 u (seat_identity u 1), Connected True 1000 n (Some u), IdentityChecked n]"

definition demo_admission :: "nat \<Rightarrow> gateway_event list" where
  "demo_admission n = [RoomEntered n (Some ''X'') None False (Some gateway_table), EntryFinished n False (Some gateway_table)]"

definition demo_race :: "gateway_event list" where
  "demo_race = demo_arrival 0 ''A'' @ demo_arrival 1 ''B'' @ SeatEntry False ''T'' ''X'' 0 ''A'' # Notified
     # demo_admission 0 @ demo_admission 1"

section \<open>Stale sockets\<close>



lemma demo_race_end:
  "fst (broadcastToTable ''X'' (gateway_run (demo_ledger demo_start) demo_race)) = [1]"
  by code_simp

text \<open>C40. A release whose writes to Redis fail after its transaction has committed is never announced: the released player's
  socket stays open with a token that the database does not accept any more, and every further broadcast of the table
  still reaches it.\<close>

theorem lost_revocation:
  assumes sk: "gwSocket g n = Some sk" "skOpen sk" "idRole (skIdentity sk) = SeatRole" "idTournament (skIdentity sk) = Some t"
      "idSeatVersion (skIdentity sk) = Some v" "n \<in> set (gwTables g x)"
    and current: "assertSeatTokenCurrent t (idSub (skIdentity sk)) v (gwLedger g)"
    and release: "releaseSeats t tb seats owner otps (gwLedger g) = (Inr (), l')" "(s, idSub (skIdentity sk)) \<in> set seats"
    and none: "gwDue g = []"
  shows "let g' = foldl gateway_step g (SeatsFreed False t tb seats owner otps # replicate k Notified)
         in n \<in> set (fst (broadcastToTable x g')) \<and> superseded (skIdentity sk) (gwLedger g')"
proof -
  have "foldl gateway_step h (replicate k Notified) = h" if "gwDue h = []" for h
    using that by (induction k) (simp_all add: notify_def)
  then have g': "foldl gateway_step g (SeatsFreed False t tb seats owner otps # replicate k Notified) = g\<lparr>gwLedger := l'\<rparr>"
    using release(1) none by simp
  have "assertSeatTokenCurrent t (idSub (skIdentity sk)) (v + 1) l'" using released_version[OF release current] .
  then have "\<not> assertSeatTokenCurrent t (idSub (skIdentity sk)) v l'" by (auto simp: seat_token_iff)
  then show ?thesis using sk unfolding Let_def g' by (simp add: superseded_def broadcastToTable_def open_in_def Let_def)
qed

theorem lost_revocation_witness:
  "let g = gateway_run (demo_ledger demo_start) (demo_arrival 1 ''B'' @ demo_admission 1);
       g' = foldl gateway_step g (SeatsFreed False ''T'' ''X'' [(1, ''B'')] ''O'' [(''B'', ''Z'')] # replicate 3 Notified)
   in 1 \<in> set (fst (broadcastToTable ''X'' g'))"
proof -
  define g where "g = gateway_run (demo_ledger demo_start) (demo_arrival 1 ''B'' @ demo_admission 1)"
  have "gwDue g = [] \<and> (case gwSocket g 1 of None \<Rightarrow> False | Some sk \<Rightarrow> skOpen sk \<and> skIdentity sk = seat_identity ''B'' 1)
     \<and> gwTables g ''X'' = [1] \<and> assertSeatTokenCurrent ''T'' ''B'' 1 (gwLedger g)
     \<and> fst (releaseSeats ''T'' ''X'' [(1, ''B'')] ''O'' [(''B'', ''Z'')] (gwLedger g)) = Inr ()"
    unfolding g_def by code_simp
  then obtain sk l' where sk: "gwDue g = []" "gwSocket g 1 = Some sk" "skOpen sk" "skIdentity sk = seat_identity ''B'' 1"
      "gwTables g ''X'' = [1]" "assertSeatTokenCurrent ''T'' ''B'' 1 (gwLedger g)"
      "releaseSeats ''T'' ''X'' [(1, ''B'')] ''O'' [(''B'', ''Z'')] (gwLedger g) = (Inr (), l')"
    by (auto split: option.splits) (metis prod.collapse)
  have "let g' = foldl gateway_step g (SeatsFreed False ''T'' ''X'' [(1, ''B'')] ''O'' [(''B'', ''Z'')] # replicate 3 Notified)
         in 1 \<in> set (fst (broadcastToTable ''X'' g')) \<and> superseded (skIdentity sk) (gwLedger g')"
    by (rule lost_revocation[where v = 1 and s = 1]) (use sk in \<open>simp_all add: seat_identity_def\<close>)
  then show ?thesis unfolding g_def Let_def by blast
qed

section \<open>Tickets\<close>

definition tickets_issued :: "string \<Rightarrow> gateway_event list \<Rightarrow> nat" where
  "tickets_issued tk es = length (filter (\<lambda>e. case e of TicketIssued _ tk' _ \<Rightarrow> tk' = tk | _ \<Rightarrow> False) es)"

text \<open>How many sockets a run opens with a ticket.\<close>

fun admissions :: "string \<Rightarrow> gateway \<Rightarrow> gateway_event list \<Rightarrow> nat" where
  "admissions tk g [] = 0"
| "admissions tk g (e # es) =
     (case e of Connected _ _ n (Some tk') \<Rightarrow>
          if tk' = tk \<and> gwSocket g n = None \<and> gwSocket (gateway_step g e) n \<noteq> None then 1 else 0
      | _ \<Rightarrow> 0) + admissions tk (gateway_step g e) es"

definition ticket_left :: "string \<Rightarrow> gateway \<Rightarrow> nat" where
  "ticket_left tk g = (if gwTickets g tk = None then 0 else 1)"

lemma tickets_kept:
  "gwTickets (change_socket n f g) = gwTickets g" "gwTickets (handleDisconnect n g) = gwTickets g" "gwTickets (reject n g) = gwTickets g"
  "gwTickets (check_identity n g) = gwTickets g" "gwTickets (enter_room n tb t related snapshot g) = gwTickets g"
  "gwTickets (finish_entry n failed snapshot g) = gwTickets g" "gwTickets (close_socket n g) = gwTickets g"
  "gwTickets (closeWhere m g) = gwTickets g" "gwTickets (closeTable x g) = gwTickets g"
  by (auto simp: change_socket_def handleDisconnect_def reject_def check_identity_def enter_room_def finish_entry_def closeIfStale_def
      close_socket_def closeWhere_def closeTable_def split: option.splits prod.splits bool.splits)

lemma other_tickets:
  "(\<And>now tk p. e \<noteq> TicketIssued now tk p) \<Longrightarrow> (\<And>b now n tk. e \<noteq> Connected b now n tk) \<Longrightarrow>
   gwTickets (gateway_step g e) = gwTickets g"
  by (cases e) (auto simp: tickets_kept notify_def broadcastToTable_def broadcastToTournament_def Let_def
      split: sum.splits prod.splits list.splits)

lemma connect_tickets:
  "(if tk' = tk \<and> gwSocket g n = None \<and> gwSocket (connect b now n (Some tk') g) n \<noteq> None then 1 else 0)
     + ticket_left tk (connect b now n (Some tk') g) \<le> ticket_left tk g"
  by (auto simp: connect_def ticket_consume_def ticket_left_def split: option.splits prod.splits if_splits)

lemma admissions_bound: "admissions tk g es \<le> ticket_left tk g + tickets_issued tk es"
proof (induction es arbitrary: g)
  case (Cons e es)
  note IH = Cons.IH[of "gateway_step g e"]
  consider (issued) now tk' p where "e = TicketIssued now tk' p" | (connected) b now n tk' where "e = Connected b now n (Some tk')"
    | (bare) b now n where "e = Connected b now n None"
    | (other) "\<forall>now tk p. e \<noteq> TicketIssued now tk p" "\<forall>b now n tk. e \<noteq> Connected b now n tk"
    by (metis gateway_event.exhaust option.exhaust)
  then show ?case
  proof cases
    case issued
    have "ticket_left tk (gateway_step g e) \<le> ticket_left tk g + (if tk' = tk then 1 else 0)"
      using issued by (simp add: ticket_left_def issue_ticket_def ticket_issue_def)
    then show ?thesis using IH issued by (auto simp: tickets_issued_def split: if_splits)
  next
    case connected
    have "admissions tk g (e # es) = (if tk' = tk \<and> gwSocket g n = None \<and> gwSocket (gateway_step g e) n \<noteq> None then 1 else 0)
        + admissions tk (gateway_step g e) es" using connected by simp
    moreover have "tickets_issued tk (e # es) = tickets_issued tk es" using connected by (simp add: tickets_issued_def)
    ultimately show ?thesis using IH connected connect_tickets[of tk' tk g n b now] by simp
  next
    case bare
    then have "gateway_step g e = g" by (simp add: connect_def)
    then show ?thesis using IH bare by (simp add: tickets_issued_def)
  next
    case other
    then have "ticket_left tk (gateway_step g e) = ticket_left tk g" by (simp add: ticket_left_def other_tickets)
    moreover have "admissions tk g (e # es) = admissions tk (gateway_step g e) es" "tickets_issued tk (e # es) = tickets_issued tk es"
      using other by (auto simp: tickets_issued_def split: gateway_event.split)
    ultimately show ?thesis using IH by simp
  qed
qed (simp add: tickets_issued_def)

text \<open>A ticket is good for one connection: however connections, expiries and other events interleave, a run opens no more
  sockets with a ticket than it was issued times.\<close>

theorem ticket_once: "admissions tk (gateway_start l) es \<le> tickets_issued tk es"
  using admissions_bound[of tk "gateway_start l" es] by (simp add: ticket_left_def gateway_start_def)

end
