(* ===== verification/SyncQueue.thy ===== *)
theory SyncQueue
  imports SeatMap Gateway Syncing
begin

text \<open>
  The queue of recounts of a tournament (\<open>ws/sync-queue.ts\<close>) and what the gateway measures and says while a tournament waits
  for its devices (\<open>measureSync\<close>, \<open>syncStatus\<close>, \<open>sendSyncing\<close> of \<open>ws/ws.gateway.ts\<close>, \<open>ws/sync-progress.ts\<close>). A line is the chain of
  promises of one key: one job at a time, in the order of their coming; requests for a recount join the one that has not
  started yet.
\<close>

section \<open>A line\<close>

datatype line_job = RecountJob | TaskJob nat

text \<open>What the first job of the line is doing: its turn has not come, it collects joiners, it runs.\<close>

datatype head_state = Queued | Holding | Started

datatype 'w started = Recounted "'w list" | Ran nat

record 'w line =
  lnJobs :: "line_job list"
  lnHead :: head_state
  lnWaiting :: "('w list \<times> bool) option"
  lnLog :: "'w started list"

definition empty_line :: "'w line" where
  "empty_line = \<lparr>lnJobs = [], lnHead = Queued, lnWaiting = None, lnLog = []\<rparr>"

definition recountLater :: "'w option \<Rightarrow> 'w line \<Rightarrow> 'w line" where
  "recountLater joiner q =
     (case lnWaiting q of
        Some (joiners, skipped) \<Rightarrow>
          q\<lparr>lnWaiting := Some (case joiner of None \<Rightarrow> joiners | Some w \<Rightarrow> joiners @ [w], skipped)\<rparr>
      | None \<Rightarrow> q\<lparr>lnWaiting := Some (case joiner of None \<Rightarrow> [] | Some w \<Rightarrow> [w], False), lnJobs := lnJobs q @ [RecountJob]\<rparr>)"

text \<open>A task cuts the hold of the recount that waits, and queues behind it.\<close>

definition enqueue :: "nat \<Rightarrow> 'w line \<Rightarrow> 'w line" where
  "enqueue task q =
     q\<lparr>lnWaiting := map_option (\<lambda>(joiners, skipped). (joiners, True)) (lnWaiting q), lnJobs := lnJobs q @ [TaskJob task]\<rparr>"

text \<open>A recount starts: from here on nobody joins it any more.\<close>

definition start_recount :: "'w line \<Rightarrow> 'w line" where
  "start_recount q =
     (case lnWaiting q of
        None \<Rightarrow> q
      | Some (joiners, _) \<Rightarrow> q\<lparr>lnWaiting := None, lnHead := Started, lnLog := lnLog q @ [Recounted joiners]\<rparr>)"

text \<open>The turn of the first job comes; a recount is held back for \<open>holdMs\<close> unless the hold was cut before.\<close>

definition take_turn :: "int \<Rightarrow> 'w line \<Rightarrow> 'w line" where
  "take_turn holdMs q =
     (if lnHead q \<noteq> Queued then q
      else case lnJobs q of
        [] \<Rightarrow> q
      | TaskJob n # _ \<Rightarrow> q\<lparr>lnHead := Started, lnLog := lnLog q @ [Ran n]\<rparr>
      | RecountJob # _ \<Rightarrow>
          if holdMs > 0 \<and> (case lnWaiting q of Some (_, skipped) \<Rightarrow> \<not> skipped | None \<Rightarrow> True) then q\<lparr>lnHead := Holding\<rparr>
          else start_recount q)"

text \<open>The timer of the hold, or the cut of the hold.\<close>

definition hold_over :: "'w line \<Rightarrow> 'w line" where
  "hold_over q = (if lnHead q = Holding then start_recount q else q)"

text \<open>The running job ends, well or not: the next one's turn comes either way.\<close>

definition job_over :: "'w line \<Rightarrow> 'w line" where
  "job_over q = (if lnHead q = Started then q\<lparr>lnJobs := tl (lnJobs q), lnHead := Queued\<rparr> else q)"

datatype 'w line_event = RecountAsked "'w option" | TaskAsked nat | TurnCame | HoldOver | JobOver

fun line_event_step :: "int \<Rightarrow> 'w line \<Rightarrow> 'w line_event \<Rightarrow> 'w line" where
  "line_event_step holdMs q (RecountAsked joiner) = recountLater joiner q"
| "line_event_step holdMs q (TaskAsked n) = enqueue n q"
| "line_event_step holdMs q TurnCame = take_turn holdMs q"
| "line_event_step holdMs q HoldOver = hold_over q"
| "line_event_step holdMs q JobOver = job_over q"

text \<open>The lines of the tournaments do not touch each other.\<close>

type_synonym 'w sync_queue = "string \<Rightarrow> 'w line"

definition queue_step :: "int \<Rightarrow> 'w sync_queue \<Rightarrow> string \<times> 'w line_event \<Rightarrow> 'w sync_queue" where
  "queue_step holdMs q = (\<lambda>(k, e). q(k := line_event_step holdMs (q k) e))"

definition queue_run :: "int \<Rightarrow> (string \<times> 'w line_event) list \<Rightarrow> 'w sync_queue" where
  "queue_run holdMs es = foldl (queue_step holdMs) (\<lambda>_. empty_line) es"

section \<open>What the gateway measures\<close>

text \<open>The tables of a tournament with somebody seated, in the order in which the seat maps are listed.\<close>

definition required_tables :: "(string \<times> bool list) list \<Rightarrow> required_table list" where
  "required_tables maps =
     map (\<lambda>(tb, seats). \<lparr>rtTable = tb, rtSeats = concat (map (\<lambda>(on, i). if on then [int i] else []) (zip seats [0..<length seats]))\<rparr>)
       (filter (\<lambda>(tb, seats). \<exists>s\<in>set seats. s) maps)"

definition measureSync :: "(string \<times> bool list) list \<Rightarrow> gateway \<Rightarrow> sync_progress" where
  "measureSync maps g =
     (let required = required_tables maps;
          presence = map_of (map (\<lambda>r. (rtTable r, case tablePresence (rtTable r) g of (d, ss) \<Rightarrow> \<lparr>tpDealer = d, tpSeats = set ss\<rparr>)) required)
      in syncProgress required presence)"

record sync_status =
  ssSyncing :: bool
  ssPresent :: int
  ssRequired :: int
  ssMissing :: "(string \<times> int option) list"
  ssLineDown :: bool

definition syncStatus :: "bool \<Rightarrow> bool \<Rightarrow> (string \<times> bool list) list \<Rightarrow> gateway \<Rightarrow> sync_status" where
  "syncStatus syncing lineDown maps g =
     (if \<not> syncing then \<lparr>ssSyncing = False, ssPresent = 0, ssRequired = 0, ssMissing = [], ssLineDown = False\<rparr>
      else let p = measureSync maps g
           in \<lparr>ssSyncing = True, ssPresent = spPresent p, ssRequired = spRequired p, ssMissing = spMissing p, ssLineDown = lineDown\<rparr>)"

text \<open>The dealers' sockets that \<open>sendSyncing\<close> writes to.\<close>

definition sendSyncing :: "(string \<times> bool list) list \<Rightarrow> gateway \<Rightarrow> nat list" where
  "sendSyncing maps g = concat (map (\<lambda>(tb, _). filter (dealer_socket g) (gwTables g tb)) maps)"

end
