(* ===== verification/SyncQueueProps.thy ===== *)
theory SyncQueueProps
  imports SyncQueue
begin

text \<open>
  The queue refines two lists: joiners and tasks come out in the order in which they went in, each once, with at most one
  recount waiting at any time; and every request is answered by a recount that starts after it. What is measured is exact.
\<close>

section \<open>What went in and what came out\<close>

definition asked_joiners :: "string \<Rightarrow> (string \<times> 'w line_event) list \<Rightarrow> 'w list" where
  "asked_joiners k es = concat (map (\<lambda>(k', e). case e of RecountAsked (Some w) \<Rightarrow> if k' = k then [w] else [] | _ \<Rightarrow> []) es)"

definition asked_tasks :: "string \<Rightarrow> (string \<times> 'w line_event) list \<Rightarrow> nat list" where
  "asked_tasks k es = concat (map (\<lambda>(k', e). case e of TaskAsked n \<Rightarrow> if k' = k then [n] else [] | _ \<Rightarrow> []) es)"

definition served_joiners :: "'w line \<Rightarrow> 'w list" where
  "served_joiners q = concat (map (\<lambda>s. case s of Recounted ws \<Rightarrow> ws | Ran _ \<Rightarrow> []) (lnLog q))"

definition run_tasks :: "'w line \<Rightarrow> nat list" where
  "run_tasks q = concat (map (\<lambda>s. case s of Recounted _ \<Rightarrow> [] | Ran n \<Rightarrow> [n]) (lnLog q))"

definition waiting_joiners :: "'w line \<Rightarrow> 'w list" where
  "waiting_joiners q = (case lnWaiting q of None \<Rightarrow> [] | Some (ws, _) \<Rightarrow> ws)"

definition unstarted :: "'w line \<Rightarrow> line_job list" where
  "unstarted q = (if lnHead q = Started then tl (lnJobs q) else lnJobs q)"

definition tasks_of :: "line_job list \<Rightarrow> nat list" where
  "tasks_of js = concat (map (\<lambda>j. case j of RecountJob \<Rightarrow> [] | TaskJob n \<Rightarrow> [n]) js)"

definition line_ok :: "'w line \<Rightarrow> bool" where
  "line_ok q \<longleftrightarrow> length (filter (\<lambda>j. j = RecountJob) (unstarted q)) = (if lnWaiting q = None then 0 else 1)
     \<and> (lnHead q = Started \<longrightarrow> lnJobs q \<noteq> []) \<and> (lnHead q = Holding \<longrightarrow> (\<exists>js. lnJobs q = RecountJob # js))"

text \<open>The two lists of the specification, as the line shows them.\<close>

definition joiners_view :: "'w line \<Rightarrow> 'w list" where
  "joiners_view q = served_joiners q @ waiting_joiners q"

definition tasks_view :: "'w line \<Rightarrow> nat list" where
  "tasks_view q = run_tasks q @ tasks_of (unstarted q)"

lemmas line_views = joiners_view_def tasks_view_def served_joiners_def run_tasks_def waiting_joiners_def tasks_of_def unstarted_def

lemma empty_line_ok: "line_ok empty_line" "joiners_view empty_line = []" "tasks_view empty_line = []"
  by (simp_all add: line_ok_def line_views empty_line_def)

lemma unstarted_push:
  assumes "line_ok q" "lnJobs q' = lnJobs q @ [j]" "lnHead q' = lnHead q"
  shows "unstarted q' = unstarted q @ [j]" "lnHead q' = Started \<longrightarrow> lnJobs q' \<noteq> []"
    "lnHead q' = Holding \<longrightarrow> (\<exists>js. lnJobs q' = RecountJob # js)"
  using assms by (auto simp: unstarted_def line_ok_def)

lemma recountLater_line:
  assumes "line_ok q"
  shows "line_ok (recountLater j q)" "joiners_view (recountLater j q) = joiners_view q @ (case j of None \<Rightarrow> [] | Some w \<Rightarrow> [w])"
    "tasks_view (recountLater j q) = tasks_view q"
proof -
  have "line_ok (recountLater j q) \<and> joiners_view (recountLater j q) = joiners_view q @ (case j of None \<Rightarrow> [] | Some w \<Rightarrow> [w])
    \<and> tasks_view (recountLater j q) = tasks_view q"
  proof (cases "lnWaiting q")
    case None
    define q' where "q' = recountLater j q"
    have q': "lnJobs q' = lnJobs q @ [RecountJob]" "lnHead q' = lnHead q" "lnLog q' = lnLog q"
      "lnWaiting q' = Some (case j of None \<Rightarrow> [] | Some w \<Rightarrow> [w], False)"
      using None by (simp_all add: q'_def recountLater_def)
    note push = unstarted_push[OF assms q'(1,2)]
    have "line_ok q'" using push assms None q'(4) by (simp add: line_ok_def)
    then show ?thesis using push(1) q' None unfolding q'_def[symmetric]
      by (simp add: joiners_view_def served_joiners_def waiting_joiners_def tasks_view_def run_tasks_def tasks_of_def)
  next
    case (Some w)
    then show ?thesis using assms by (cases w; cases j; cases "lnHead q = Started") (simp_all add: recountLater_def line_ok_def line_views)
  qed
  then show "line_ok (recountLater j q)" "joiners_view (recountLater j q) = joiners_view q @ (case j of None \<Rightarrow> [] | Some w \<Rightarrow> [w])"
    "tasks_view (recountLater j q) = tasks_view q" by blast+
qed

lemma enqueue_line:
  assumes "line_ok q"
  shows "line_ok (enqueue n q)" "joiners_view (enqueue n q) = joiners_view q" "tasks_view (enqueue n q) = tasks_view q @ [n]"
proof -
  define q' where "q' = enqueue n q"
  have q': "lnJobs q' = lnJobs q @ [TaskJob n]" "lnHead q' = lnHead q" "lnLog q' = lnLog q"
    "waiting_joiners q' = waiting_joiners q" "lnWaiting q' = None \<longleftrightarrow> lnWaiting q = None"
    by (cases "lnWaiting q"; simp add: q'_def enqueue_def waiting_joiners_def split: prod.split)+
  note push = unstarted_push[OF assms q'(1,2)]
  show "line_ok (enqueue n q)" unfolding q'_def[symmetric] using push assms q'(5) by (simp add: line_ok_def)
  show "joiners_view (enqueue n q) = joiners_view q" "tasks_view (enqueue n q) = tasks_view q @ [n]"
    unfolding q'_def[symmetric] using push(1) q'
    by (simp_all add: joiners_view_def served_joiners_def tasks_view_def run_tasks_def tasks_of_def)
qed

lemma start_line:
  assumes "line_ok q" "lnJobs q = RecountJob # js" "lnHead q \<noteq> Started"
  shows "line_ok (start_recount q)" "joiners_view (start_recount q) = joiners_view q" "tasks_view (start_recount q) = tasks_view q"
    "lnHead (start_recount q) = Started" "lnJobs (start_recount q) = lnJobs q"
    "\<exists>ws. lnLog (start_recount q) = lnLog q @ [Recounted ws] \<and> ws = waiting_joiners q"
  using assms by (cases "lnWaiting q"; auto simp: start_recount_def line_ok_def line_views)+

lemma take_turn_line:
  assumes "line_ok q"
  shows "line_ok (take_turn h q)" "joiners_view (take_turn h q) = joiners_view q" "tasks_view (take_turn h q) = tasks_view q"
    "lnJobs (take_turn h q) = lnJobs q"
proof -
  have "line_ok (take_turn h q) \<and> joiners_view (take_turn h q) = joiners_view q \<and> tasks_view (take_turn h q) = tasks_view q
      \<and> lnJobs (take_turn h q) = lnJobs q"
  proof (cases "lnHead q = Queued")
    case head: True
    show ?thesis
    proof (cases "lnJobs q")
      case (Cons j js)
      show ?thesis
      proof (cases j)
        case RecountJob
        then show ?thesis using start_line[OF assms, of js] head Cons assms
          by (auto simp: take_turn_def line_ok_def line_views)
      next
        case (TaskJob n)
        then show ?thesis using head Cons assms by (cases "lnWaiting q") (auto simp: take_turn_def line_ok_def line_views)
      qed
    qed (use head assms in \<open>simp add: take_turn_def\<close>)
  qed (use assms in \<open>simp add: take_turn_def\<close>)
  then show "line_ok (take_turn h q)" "joiners_view (take_turn h q) = joiners_view q" "tasks_view (take_turn h q) = tasks_view q"
    "lnJobs (take_turn h q) = lnJobs q" by blast+
qed

lemma hold_over_line:
  assumes "line_ok q"
  shows "line_ok (hold_over q)" "joiners_view (hold_over q) = joiners_view q" "tasks_view (hold_over q) = tasks_view q"
    "lnJobs (hold_over q) = lnJobs q" "lnHead (hold_over q) \<noteq> Holding"
  using assms start_line[OF assms] by (auto simp: hold_over_def line_ok_def)

lemma job_over_line:
  assumes "line_ok q"
  shows "line_ok (job_over q)" "joiners_view (job_over q) = joiners_view q" "tasks_view (job_over q) = tasks_view q"
  using assms by (auto simp: job_over_def line_ok_def line_views)

lemma line_step:
  assumes "line_ok q"
  shows "line_ok (line_event_step h q e)"
    "joiners_view (line_event_step h q e) = joiners_view q @ asked_joiners k [(k, e)]"
    "tasks_view (line_event_step h q e) = tasks_view q @ asked_tasks k [(k, e)]"
  using assms
  by (cases e; auto simp: recountLater_line enqueue_line take_turn_line hold_over_line job_over_line asked_joiners_def asked_tasks_def
      split: option.splits)+

lemma asked_append:
  "asked_joiners k (es @ es') = asked_joiners k es @ asked_joiners k es'" "asked_tasks k (es @ es') = asked_tasks k es @ asked_tasks k es'"
  by (simp_all add: asked_joiners_def asked_tasks_def)

lemma asked_other: "k' \<noteq> k \<Longrightarrow> asked_joiners k [(k', e)] = []" "k' \<noteq> k \<Longrightarrow> asked_tasks k [(k', e)] = []"
  by (simp_all add: asked_joiners_def asked_tasks_def split: line_event.split option.split)

lemma queue_run_snoc: "queue_run h (es @ [e]) = queue_step h (queue_run h es) e"
  by (simp add: queue_run_def)

lemma run_line:
  "line_ok (queue_run h es k) \<and> joiners_view (queue_run h es k) = asked_joiners k es \<and> tasks_view (queue_run h es k) = asked_tasks k es"
proof (induction es rule: rev_induct)
  case Nil
  then show ?case using empty_line_ok by (simp add: queue_run_def asked_joiners_def asked_tasks_def)
next
  case (snoc e es)
  obtain k' x where e: "e = (k', x)" by fastforce
  show ?case
  proof (cases "k' = k")
    case True
    then show ?thesis using snoc line_step(1)[of "queue_run h es k" h x] line_step(2,3)[of "queue_run h es k" h x k]
      by (simp add: queue_run_snoc queue_step_def asked_append e)
  next
    case False
    then show ?thesis using snoc by (simp add: queue_run_snoc queue_step_def asked_append asked_other e)
  qed
qed

section \<open>Draining\<close>

text \<open>Every job gets its turn, waits out its hold if it has one, and ends.\<close>

definition one_job :: "int \<Rightarrow> 'w line \<Rightarrow> 'w line" where
  "one_job h q = foldl (line_event_step h) q [TurnCame, HoldOver, JobOver]"

definition drained :: "int \<Rightarrow> 'w line \<Rightarrow> 'w line" where
  "drained h q = (one_job h ^^ length (lnJobs q)) q"

lemma ready_to_end:
  assumes "line_ok q" "lnJobs q \<noteq> []"
  shows "lnHead (hold_over (take_turn h q)) = Started"
proof -
  obtain j js where js: "lnJobs q = j # js" using assms(2) by (cases "lnJobs q") auto
  show ?thesis
  proof (cases "lnHead q")
    case Queued
    show ?thesis
    proof (cases j)
      case RecountJob
      have "lnWaiting q \<noteq> None" using assms(1) RecountJob js Queued
        by (auto simp: line_ok_def unstarted_def simp del: not_None_eq split: if_splits)
      then show ?thesis using Queued RecountJob js by (auto simp: take_turn_def hold_over_def start_recount_def split: option.splits)
    next
      case (TaskJob n)
      then show ?thesis using Queued js by (simp add: take_turn_def hold_over_def)
    qed
  next
    case Holding
    then have "lnWaiting q \<noteq> None" using assms(1)
      by (auto simp: line_ok_def unstarted_def simp del: not_None_eq split: if_splits)
    then show ?thesis using Holding by (auto simp: take_turn_def hold_over_def start_recount_def)
  next
    case Started
    then show ?thesis by (simp add: take_turn_def hold_over_def)
  qed
qed

lemma log_grows:
  "\<exists>more. lnLog (take_turn h q) = lnLog q @ more" "\<exists>more. lnLog (hold_over q) = lnLog q @ more" "lnLog (job_over q) = lnLog q"
  by (auto simp: take_turn_def hold_over_def job_over_def start_recount_def split: list.splits line_job.splits option.splits)

lemma one_job_effect:
  assumes "line_ok q" "lnJobs q \<noteq> []"
  shows "line_ok (one_job h q)" "joiners_view (one_job h q) = joiners_view q" "tasks_view (one_job h q) = tasks_view q"
    "lnJobs (one_job h q) = tl (lnJobs q)" "lnHead (one_job h q) = Queued" "\<exists>more. lnLog (one_job h q) = lnLog q @ more"
proof -
  define q1 where "q1 = hold_over (take_turn h q)"
  have q1: "line_ok q1" "joiners_view q1 = joiners_view q" "tasks_view q1 = tasks_view q" "lnJobs q1 = lnJobs q" "lnHead q1 = Started"
    unfolding q1_def using assms ready_to_end by (simp_all add: take_turn_line hold_over_line)
  have eq: "one_job h q = job_over q1" by (simp add: one_job_def q1_def)
  show "line_ok (one_job h q)" "joiners_view (one_job h q) = joiners_view q" "tasks_view (one_job h q) = tasks_view q"
    using job_over_line[OF q1(1)] q1 unfolding eq by simp_all
  show "lnJobs (one_job h q) = tl (lnJobs q)" "lnHead (one_job h q) = Queued" using q1 by (simp_all add: eq job_over_def)
  obtain m1 where m1: "lnLog (take_turn h q) = lnLog q @ m1" using log_grows(1) by blast
  obtain m2 where "lnLog q1 = lnLog (take_turn h q) @ m2" unfolding q1_def using log_grows(2) by blast
  then show "\<exists>more. lnLog (one_job h q) = lnLog q @ more" using m1 log_grows(3)[of q1] by (simp add: eq)
qed

lemma drain_all:
  assumes "line_ok q"
  shows "line_ok (drained h q) \<and> joiners_view (drained h q) = joiners_view q \<and> tasks_view (drained h q) = tasks_view q
    \<and> lnJobs (drained h q) = [] \<and> (\<exists>more. lnLog (drained h q) = lnLog q @ more)"
  using assms
proof (induction "length (lnJobs q)" arbitrary: q)
  case 0
  then show ?case by (simp add: drained_def)
next
  case (Suc n)
  then have ne: "lnJobs q \<noteq> []" by auto
  note one = one_job_effect[OF Suc.prems ne, of h]
  have len: "length (lnJobs (one_job h q)) = n" using one(4) Suc.hyps(2) by simp
  have eq: "drained h q = drained h (one_job h q)"
    unfolding drained_def len Suc.hyps(2)[symmetric] by (simp only: funpow_Suc_right o_apply)
  obtain m where "lnLog (one_job h q) = lnLog q @ m" using one(6) by blast
  then show ?case unfolding eq using Suc.hyps(1)[OF len[symmetric] one(1)] one by auto
qed

lemma drained_idle: "line_ok q \<Longrightarrow> lnJobs q = [] \<Longrightarrow> lnWaiting q = None \<and> unstarted q = []"
  by (auto simp: line_ok_def unstarted_def split: if_splits)

section \<open>The properties\<close>

text \<open>C18. A line serves everybody who asked for a recount and runs every task, in the order of their coming and once each, with at
  most one recount waiting at any time; once its jobs have had their turns nobody is left over.\<close>

theorem line_serves_in_order:
  fixes es :: "(string \<times> 'w line_event) list" and k :: string and h :: int
  defines "q \<equiv> queue_run h es k"
  shows "served_joiners q @ waiting_joiners q = asked_joiners k es
    \<and> run_tasks q @ tasks_of (unstarted q) = asked_tasks k es
    \<and> length (filter (\<lambda>j. j = RecountJob) (unstarted q)) \<le> 1
    \<and> served_joiners (drained h q) = asked_joiners k es \<and> run_tasks (drained h q) = asked_tasks k es
    \<and> lnJobs (drained h q) = []"
proof -
  have q: "line_ok q" "joiners_view q = asked_joiners k es" "tasks_view q = asked_tasks k es"
    unfolding q_def using run_line[of h es k] by blast+
  have d: "line_ok (drained h q)" "joiners_view (drained h q) = joiners_view q" "tasks_view (drained h q) = tasks_view q"
    "lnJobs (drained h q) = []" using drain_all[OF q(1)] by simp_all
  have "waiting_joiners (drained h q) = []" "unstarted (drained h q) = []"
    using drained_idle[OF d(1,4)] by (simp_all add: waiting_joiners_def)
  then have "served_joiners (drained h q) = asked_joiners k es" "run_tasks (drained h q) = asked_tasks k es"
    using d(2,3) q(2,3) by (simp_all add: joiners_view_def tasks_view_def tasks_of_def)
  moreover have "length (filter (\<lambda>j. j = RecountJob) (unstarted q)) \<le> 1" using q(1) by (simp add: line_ok_def)
  ultimately show ?thesis using q(2,3) d(4) by (simp add: joiners_view_def tasks_view_def)
qed

lemma waiting_served_later:
  assumes "line_ok q" "lnWaiting q = Some (ws, b)"
  shows "\<exists>more js. lnLog (drained h q) = lnLog q @ more \<and> Recounted js \<in> set more \<and> set ws \<subseteq> set js"
proof -
  have "\<exists>more js. lnLog q' = lnLog q @ more \<and> ((Recounted js \<in> set more \<and> set ws \<subseteq> set js) \<or>
      (\<exists>ws' b'. lnWaiting q' = Some (ws', b') \<and> set ws \<subseteq> set ws'))" if "q' = (one_job h ^^ n) q" "n \<le> length (lnJobs q)" for q' n
    using that
  proof (induction n arbitrary: q')
    case 0
    then show ?case using assms(2) by auto
  next
    case (Suc n)
    define p where "p = (one_job h ^^ n) q"
    have p: "line_ok p" "lnJobs p = drop n (lnJobs q)"
    proof -
      have "line_ok p \<and> lnJobs p = drop n (lnJobs q)" unfolding p_def using Suc.prems(2)
      proof (induction n)
        case (Suc m)
        then have ih: "line_ok ((one_job h ^^ m) q)" "lnJobs ((one_job h ^^ m) q) = drop m (lnJobs q)" by simp_all
        then have "lnJobs ((one_job h ^^ m) q) \<noteq> []" using Suc.prems by simp
        from one_job_effect(1,4)[OF ih(1) this] ih(2) show ?case by (simp add: drop_Suc tl_drop)
      qed (use assms(1) in simp)
      then show "line_ok p" "lnJobs p = drop n (lnJobs q)" by simp_all
    qed
    have ne: "lnJobs p \<noteq> []" using p(2) Suc.prems(2) by simp
    obtain more js where m: "lnLog p = lnLog q @ more" "(Recounted js \<in> set more \<and> set ws \<subseteq> set js) \<or>
      (\<exists>ws' b'. lnWaiting p = Some (ws', b') \<and> set ws \<subseteq> set ws')"
      using Suc.IH[of p] Suc.prems(2) p_def by auto
    have q': "q' = one_job h p" using Suc.prems(1) by (simp add: p_def)
    obtain m' where m': "lnLog q' = lnLog p @ m'" using one_job_effect(6)[OF p(1) ne] q' by blast
    have step: "(\<exists>js. Recounted js \<in> set m' \<and> ws' \<subseteq> set js) \<or> lnWaiting q' = lnWaiting p"
      if "lnWaiting p = Some (xs, b')" "set xs = ws'" for xs ws' b'
    proof -
      have one: "lnLog q' = lnLog (hold_over (take_turn h p))" "lnWaiting q' = lnWaiting (hold_over (take_turn h p))"
        unfolding q' one_job_def by (simp_all add: job_over_def)
      have "lnLog (hold_over (take_turn h p)) = lnLog p @ [Recounted xs] \<or> lnWaiting (hold_over (take_turn h p)) = lnWaiting p"
        using that by (auto simp: take_turn_def hold_over_def start_recount_def split: list.splits line_job.splits)
      then show ?thesis using one m' that by auto
    qed
    show ?case
    proof (cases "Recounted js \<in> set more \<and> set ws \<subseteq> set js")
      case True
      then show ?thesis using m(1) m' by (intro exI[of _ "more @ m'"] exI[of _ js]) simp
    next
      case False
      then obtain ws' b' where w: "lnWaiting p = Some (ws', b')" "set ws \<subseteq> set ws'" using m(2) by blast
      from step[OF w(1) refl] show ?thesis
      proof
        assume "\<exists>js. Recounted js \<in> set m' \<and> set ws' \<subseteq> set js"
        then obtain js' where "Recounted js' \<in> set m'" "set ws' \<subseteq> set js'" by blast
        then show ?thesis using m(1) m' w(2) by (intro exI[of _ "more @ m'"] exI[of _ js']) auto
      next
        assume "lnWaiting q' = lnWaiting p"
        then show ?thesis using m(1) m' w by (intro exI[of _ "more @ m'"] exI[of _ js]) auto
      qed
    qed
  qed
  from this[of "drained h q" "length (lnJobs q)"] obtain more js where
    "lnLog (drained h q) = lnLog q @ more" "(Recounted js \<in> set more \<and> set ws \<subseteq> set js) \<or>
      (\<exists>ws' b'. lnWaiting (drained h q) = Some (ws', b') \<and> set ws \<subseteq> set ws')" unfolding drained_def by auto
  moreover have "line_ok (drained h q)" "lnJobs (drained h q) = []"
    using drain_all[OF assms(1), of h] by simp_all
  then have "lnWaiting (drained h q) = None" using drained_idle by blast
  ultimately show ?thesis by auto
qed

text \<open>Whoever asks for a recount gets one that starts after the asking, so that it sees what the asking was about: it is not in the
  log of started jobs yet, and it is once the jobs of the line have had their turns.\<close>

theorem recount_after_request:
  fixes es :: "(string \<times> 'w line_event) list" and k :: string and h :: int and j :: "'w option"
  defines "q \<equiv> queue_run h (es @ [(k, RecountAsked j)]) k"
  shows "\<exists>more js. lnLog (drained h q) = lnLog q @ more \<and> Recounted js \<in> set more \<and> (case j of None \<Rightarrow> True | Some w \<Rightarrow> w \<in> set js)"
proof -
  have ok: "line_ok q" unfolding q_def using run_line by blast
  have q: "q = recountLater j (queue_run h es k)" by (simp add: q_def queue_run_snoc queue_step_def)
  obtain ws b where w: "lnWaiting q = Some (ws, b)" "case j of None \<Rightarrow> True | Some w \<Rightarrow> w \<in> set ws"
    unfolding q recountLater_def by (cases "lnWaiting (queue_run h es k)"; cases j) auto
  show ?thesis using waiting_served_later[OF ok w(1)] w(2) by (fastforce split: option.splits)
qed


lemma occupied_seats_list: "(tb, seats) \<in> set maps \<and> (\<exists>s\<in>set seats. s) \<longleftrightarrow> (tb, seats) \<in> set maps \<and> True \<in> set seats"
  by auto








end
