(* ===== verification/SeatClient.thy ===== *)
theory SeatClient
  imports TableEngine Contract
begin

text \<open>
  The screen of a seat (\<open>frontend/src/app/(terminal)/table/[tableId]/SeatActionPanel.tsx\<close>, \<open>SeatGameClient.tsx\<close>): which buttons it
  offers on a snapshot, the value of the raise slider from render to render, and the state it keeps over the server's
  messages. Texts and layout are left out; a button is the message it sends.
\<close>

section \<open>The action panel\<close>

definition my_player :: "table_state option \<Rightarrow> int option \<Rightarrow> table_player option" where
  "my_player state me = (case (state, me) of (Some st, Some i) \<Rightarrow> seat st i | _ \<Rightarrow> None)"

text \<open>The most a player can have in: \<open>amount\<close> of a raise is the whole bet.\<close>

definition maxTotal :: "table_player option \<Rightarrow> int" where
  "maxTotal p = (case p of None \<Rightarrow> 0 | Some q \<Rightarrow> stack q + bet q)"

definition minRaiseTotal :: "table_state option \<Rightarrow> int" where
  "minRaiseTotal state =
     (let bigBlind = (case state of None \<Rightarrow> 0 | Some st \<Rightarrow> smallBlind st) * 2;
          minRaise = (case state of None \<Rightarrow> bigBlind | Some st \<Rightarrow> (case lastRaiseSize st of Some r \<Rightarrow> r | None \<Rightarrow> bigBlind))
      in (case state of None \<Rightarrow> 0 | Some st \<Rightarrow> currentBet st) + minRaise)"

definition bettingClosed :: "table_player option \<Rightarrow> bool" where
  "bettingClosed p = (case p of None \<Rightarrow> False | Some q \<Rightarrow> hasChecked q)"

definition canRaiseAtAll :: "table_state option \<Rightarrow> table_player option \<Rightarrow> bool" where
  "canRaiseAtAll state p \<longleftrightarrow> state \<noteq> None \<and> p \<noteq> None \<and> maxTotal p \<ge> minRaiseTotal state \<and> \<not> bettingClosed p"

datatype waiting_label = WaitStart | WaitResult | WaitOpponent

definition waitingLabel :: "table_state option \<Rightarrow> int option \<Rightarrow> waiting_label option" where
  "waitingLabel state me =
     (case state of
        None \<Rightarrow> Some WaitStart
      | Some st \<Rightarrow>
          if phase st = SHOWDOWN \<or> phase st = HAND_END then Some WaitResult
          else if currentTurnSeatIndex st = -1 \<or> phase st = WAITING \<or> my_player state me = None then Some WaitStart
          else if me \<noteq> Some (currentTurnSeatIndex st) then Some WaitOpponent
          else None)"

definition myTurn :: "table_state option \<Rightarrow> int option \<Rightarrow> bool" where
  "myTurn state me \<longleftrightarrow> waitingLabel state me = None \<and> state \<noteq> None \<and> my_player state me \<noteq> None"

definition needsToCall :: "table_state option \<Rightarrow> table_player option \<Rightarrow> int" where
  "needsToCall state p = (case (state, p) of (Some st, Some q) \<Rightarrow> currentBet st - bet q | _ \<Rightarrow> 0)"

definition goingToAllIn :: "table_state option \<Rightarrow> table_player option \<Rightarrow> bool" where
  "goingToAllIn state p = (case p of None \<Rightarrow> False | Some q \<Rightarrow> needsToCall state p \<ge> stack q)"

definition canRaise :: "table_state option \<Rightarrow> table_player option \<Rightarrow> int \<Rightarrow> bool" where
  "canRaise state p raiseVal \<longleftrightarrow> canRaiseAtAll state p \<and> raiseVal \<ge> minRaiseTotal state \<and> raiseVal \<le> maxTotal p"

text \<open>The buttons that are there and enabled, from left to right.\<close>

definition panel_buttons :: "table_state option \<Rightarrow> int option \<Rightarrow> int \<Rightarrow> bool \<Rightarrow> player_message list" where
  "panel_buttons state me raiseVal outage =
     (let p = my_player state me in
      if \<not> myTurn state me \<or> outage then []
      else MFold #
        (if goingToAllIn state p then [MCall]
         else (if needsToCall state p \<le> 0 then [MCheck] else [MCall])
            @ (if canRaiseAtAll state p \<and> canRaise state p raiseVal then [MRaise raiseVal] else [])
            @ (if \<not> bettingClosed p then [MRaise (maxTotal p)] else [])))"

text \<open>The slider's value and the turn it was last set for; every render compares the turn.\<close>

record raise_slider =
  rsValue :: int
  rsKey :: "(int \<times> game_phase) option"

definition myTurnKey :: "table_state option \<Rightarrow> int option \<Rightarrow> (int \<times> game_phase) option" where
  "myTurnKey state me =
     (case (state, me) of (Some st, Some i) \<Rightarrow> if currentTurnSeatIndex st = i then Some (i, phase st) else None | _ \<Rightarrow> None)"

definition render_slider :: "table_state option \<Rightarrow> int option \<Rightarrow> raise_slider \<Rightarrow> raise_slider" where
  "render_slider state me s =
     (if myTurnKey state me \<noteq> rsKey s then
        \<lparr>rsValue = (if myTurnKey state me \<noteq> None then min (minRaiseTotal state) (maxTotal (my_player state me)) else rsValue s),
         rsKey = myTurnKey state me\<rparr>
      else s)"

section \<open>The seat's client\<close>

datatype exit_reason = Eliminated | SeatReleased

record seat_client =
  scState :: "table_state option"
  scPrompt :: "int option"
  scSawPrompt :: bool
  scExit :: "exit_reason option"
  scClosed :: bool
  scActionError :: bool
  scRebuyError :: bool

definition new_seat_client :: "table_state option \<Rightarrow> seat_client" where
  "new_seat_client initial = \<lparr>scState = initial, scPrompt = None, scSawPrompt = False, scExit = None, scClosed = False,
     scActionError = False, scRebuyError = False\<rparr>"

definition updateRebuyData :: "int option \<Rightarrow> seat_client \<Rightarrow> seat_client" where
  "updateRebuyData nxt c = c\<lparr>scPrompt := nxt, scSawPrompt := (scSawPrompt c \<or> nxt \<noteq> None)\<rparr>"

text \<open>
  Messages, as far as they pass their schema: \<open>RebuyAsked\<close> carries the deadline. \<open>Answer sent accept\<close> is the player's answer,
  \<open>sent\<close> whether the socket was open; \<open>Acted sent\<close> an action, \<open>Dismissed\<close> the closing of the error box.
\<close>

datatype seat_event =
    RenderGame table_state
  | RebuyAsked int
  | Closed
  | Refused
  | Answer bool bool
  | Acted bool
  | Dismissed

text \<open>The seat of the frame: \<open>undefined\<close> past the end of the list is not \<open>null\<close>.\<close>

definition seat_cell :: "table_state \<Rightarrow> int \<Rightarrow> table_player option option" where
  "seat_cell st i = (if 0 \<le> i \<and> nat i < length (players st) then Some (players st ! nat i) else None)"

fun seat_client_step :: "int \<Rightarrow> seat_client \<Rightarrow> seat_event \<Rightarrow> seat_client" where
  "seat_client_step me c (RenderGame st) =
     (let c1 = c\<lparr>scState := Some st\<rparr> in
      case seat_cell st me of
        None \<Rightarrow> c1
      | Some None \<Rightarrow>
          let c2 = c1\<lparr>scExit := Some (if scSawPrompt c1 then Eliminated else SeatReleased)\<rparr>
          in if scPrompt c2 \<noteq> None then updateRebuyData None c2 else c2
      | Some (Some p) \<Rightarrow>
          if stack p > 0 \<and> \<not> (case rebuyPending st of None \<Rightarrow> False | Some r \<Rightarrow> seatIndex p \<in> set (seatIndexes r))
          then c1\<lparr>scSawPrompt := False\<rparr> else c1)"
| "seat_client_step me c (RebuyAsked deadline) =
     updateRebuyData (Some deadline)
       (c\<lparr>scRebuyError := False, scExit := (if scExit c = Some Eliminated then None else scExit c)\<rparr>)"
| "seat_client_step me c Closed = c\<lparr>scClosed := True\<rparr>"
| "seat_client_step me c Refused = c\<lparr>scActionError := True\<rparr>"
| "seat_client_step me c (Answer sent accept) =
     (if \<not> sent then c\<lparr>scRebuyError := True\<rparr>
      else let c1 = updateRebuyData None (c\<lparr>scRebuyError := False\<rparr>)
           in if accept then c1 else c1\<lparr>scExit := Some Eliminated\<rparr>)"
| "seat_client_step me c (Acted sent) = (if sent then c else c\<lparr>scActionError := True\<rparr>)"
| "seat_client_step me c Dismissed = c\<lparr>scActionError := False\<rparr>"

definition seat_client_run :: "int \<Rightarrow> table_state option \<Rightarrow> seat_event list \<Rightarrow> seat_client" where
  "seat_client_run me initial es = foldl (seat_client_step me) (new_seat_client initial) es"

text \<open>Why the rebuy popup may not be answered; the first reason counts.\<close>

datatype rebuy_blocked = ServerRecovering | WaitDealer | NoWaiter

definition rebuyBlockedReason :: "int \<Rightarrow> bool \<Rightarrow> seat_client \<Rightarrow> rebuy_blocked option" where
  "rebuyBlockedReason me outage c =
     (if outage then Some ServerRecovering
      else case scState c of
        None \<Rightarrow> None
      | Some st \<Rightarrow>
          if resumePending st \<noteq> None then Some WaitDealer
          else if \<not> (case rebuyPending st of None \<Rightarrow> False | Some r \<Rightarrow> me \<in> set (seatIndexes r)) then Some NoWaiter
          else None)"

text \<open>What lies on top of the table, the uppermost first; \<open>revoked\<close> comes from the socket.\<close>

datatype overlay = ClosedOverlay | RevokedOverlay | ExitOverlay exit_reason | RebuyOverlay | ErrorBox

definition overlays :: "bool \<Rightarrow> seat_client \<Rightarrow> overlay list" where
  "overlays revoked c =
     (if scClosed c then [ClosedOverlay] else [])
     @ (if revoked \<and> scExit c = None then [RevokedOverlay] else [])
     @ (case scExit c of None \<Rightarrow> [] | Some r \<Rightarrow> [ExitOverlay r])
     @ (if scPrompt c \<noteq> None then [RebuyOverlay] else [])
     @ (if scActionError c \<and> scPrompt c = None then [ErrorBox] else [])"

end
