(* ===== verification/SeatClientProps.thy ===== *)
theory SeatClientProps
  imports SeatClient EngineClaims
begin

text \<open>
  What the screen of a seat offers is what the table accepts, and what it tells the player who lost the seat is what the
  frames and prompts before it mean.
\<close>

section \<open>Panel and engine\<close>






section \<open>The slider\<close>

lemma render_same: "myTurnKey state me = rsKey s \<Longrightarrow> render_slider state me s = s"
  by (simp add: render_slider_def)

text \<open>A slider that is set for a new turn stands on a raise that is possible, whenever one is.\<close>

lemma fresh_slider:
  assumes "myTurnKey state me \<noteq> rsKey s" "myTurnKey state me \<noteq> None" "canRaiseAtAll state (my_player state me)"
  shows "canRaise state (my_player state me) (rsValue (render_slider state me s))"
  using assms by (auto simp: render_slider_def canRaise_def canRaiseAtAll_def)

text \<open>C14. The slider is set again only when the pair of seat and phase changes from one frame to the next. When the frames in
  between are lost and the turn has come back in the same betting round after a raise, it keeps its old value: the raise
  button is disabled although a raise is possible.\<close>

theorem raise_slider_stale:
  assumes "myTurnKey (Some st1) me \<noteq> None" "rsKey s \<noteq> myTurnKey (Some st1) me" "myTurnKey (Some st2) me = myTurnKey (Some st1) me"
    and "minRaiseTotal (Some st1) < minRaiseTotal (Some st2)" "canRaiseAtAll (Some st2) (my_player (Some st2) me)"
  shows "let s2 = render_slider (Some st2) me (render_slider (Some st1) me s)
    in \<not> canRaise (Some st2) (my_player (Some st2) me) (rsValue s2)
       \<and> canRaise (Some st2) (my_player (Some st2) me) (minRaiseTotal (Some st2))"
  using assms by (auto simp: render_slider_def canRaise_def canRaiseAtAll_def Let_def)

text \<open>Seat 1 is set for its first action; the frames of its call, of another call and of a raise to 600 are lost.\<close>

definition after_lost_frames :: table_state where
  "after_lost_frames = snd (act 0 RAISE (Some (IntNum 600)) (snd (act 2 CALL None (snd (act 1 CALL None dealt)))))"

theorem raise_slider_stale_witness:
  "let s2 = render_slider (Some after_lost_frames) (Some 1) (render_slider (Some dealt) (Some 1) \<lparr>rsValue = 0, rsKey = None\<rparr>)
   in \<not> canRaise (Some after_lost_frames) (my_player (Some after_lost_frames) (Some 1)) (rsValue s2)"
proof -
  have a: "myTurnKey (Some dealt) (Some 1) = Some (1, PRE_FLOP)" by code_simp
  have b: "myTurnKey (Some after_lost_frames) (Some 1) = Some (1, PRE_FLOP)" by code_simp
  have c: "minRaiseTotal (Some dealt) < minRaiseTotal (Some after_lost_frames)" by code_simp
  have d: "canRaiseAtAll (Some after_lost_frames) (my_player (Some after_lost_frames) (Some 1))" by code_simp
  show ?thesis
    using raise_slider_stale[of dealt "Some 1" "\<lparr>rsValue = 0, rsKey = None\<rparr>" after_lost_frames] a b c d unfolding Let_def by simp
qed

section \<open>Losing the seat\<close>

text \<open>A frame that shows the player with chips and no question open ends what a prompt announced.\<close>

definition holds_chips :: "int \<Rightarrow> table_state \<Rightarrow> bool" where
  "holds_chips me st \<longleftrightarrow> (case seat_cell st me of
     Some (Some p) \<Rightarrow> 0 < stack p \<and> \<not> (case rebuyPending st of None \<Rightarrow> False | Some r \<Rightarrow> seatIndex p \<in> set (seatIndexes r))
   | _ \<Rightarrow> False)"

definition open_prompt :: "int \<Rightarrow> seat_event list \<Rightarrow> bool" where
  "open_prompt me es \<longleftrightarrow> (\<exists>es1 d es2. es = es1 @ RebuyAsked d # es2 \<and> (\<forall>st. RenderGame st \<in> set es2 \<longrightarrow> \<not> holds_chips me st))"

lemma open_prompt_snoc:
  "open_prompt me (es @ [e]) \<longleftrightarrow> (\<exists>d. e = RebuyAsked d) \<or> (open_prompt me es \<and> (\<forall>st. e = RenderGame st \<longrightarrow> \<not> holds_chips me st))"
proof
  assume "open_prompt me (es @ [e])"
  then obtain es1 d es2 where h: "es @ [e] = es1 @ RebuyAsked d # es2" "\<forall>st. RenderGame st \<in> set es2 \<longrightarrow> \<not> holds_chips me st"
    unfolding open_prompt_def by blast
  show "(\<exists>d. e = RebuyAsked d) \<or> (open_prompt me es \<and> (\<forall>st. e = RenderGame st \<longrightarrow> \<not> holds_chips me st))"
  proof (cases es2 rule: rev_cases)
    case Nil
    then show ?thesis using h(1) by auto
  next
    case (snoc es3 e')
    then have "es = es1 @ RebuyAsked d # es3" "e' = e" using h(1) by auto
    then have "open_prompt me es" using h(2) snoc unfolding open_prompt_def by (intro exI[of _ es1] exI[of _ d] exI[of _ es3]) simp
    then show ?thesis using h(2) snoc \<open>e' = e\<close> by simp
  qed
next
  assume "(\<exists>d. e = RebuyAsked d) \<or> (open_prompt me es \<and> (\<forall>st. e = RenderGame st \<longrightarrow> \<not> holds_chips me st))"
  then show "open_prompt me (es @ [e])"
  proof
    assume "\<exists>d. e = RebuyAsked d"
    then show ?thesis unfolding open_prompt_def by (metis append.left_neutral empty_iff list.set(1) append_Cons)
  next
    assume a: "open_prompt me es \<and> (\<forall>st. e = RenderGame st \<longrightarrow> \<not> holds_chips me st)"
    then obtain es1 d es2 where "es = es1 @ RebuyAsked d # es2" "\<forall>st. RenderGame st \<in> set es2 \<longrightarrow> \<not> holds_chips me st"
      unfolding open_prompt_def by blast
    then have "es @ [e] = es1 @ RebuyAsked d # (es2 @ [e])" "\<forall>st. RenderGame st \<in> set (es2 @ [e]) \<longrightarrow> \<not> holds_chips me st"
      using a by auto
    then show ?thesis unfolding open_prompt_def by blast
  qed
qed

lemma run_snoc: "seat_client_run me initial (es @ [e]) = seat_client_step me (seat_client_run me initial es) e"
  by (simp add: seat_client_run_def)

lemma saw_prompt: "scSawPrompt (seat_client_run me initial es) \<longleftrightarrow> open_prompt me es"
proof (induction es rule: rev_induct)
  case Nil
  then show ?case by (simp add: seat_client_run_def new_seat_client_def open_prompt_def)
next
  case (snoc e es)
  show ?case unfolding run_snoc open_prompt_snoc snoc.IH[symmetric]
    by (cases e) (auto simp: updateRebuyData_def holds_chips_def Let_def split: option.splits)
qed

lemma closed_run: "scClosed (seat_client_run me initial es) \<longleftrightarrow> Closed \<in> set es"
proof (induction es rule: rev_induct)
  case (snoc e es)
  then show ?case unfolding run_snoc by (cases e) (auto simp: updateRebuyData_def Let_def split: option.splits)
qed (simp add: seat_client_run_def new_seat_client_def)

text \<open>When a frame shows the seat empty, the screen says why: eliminated just when a rebuy prompt had come and no later frame had
  shown the player with chips again, moved by the store otherwise; the popup is gone, and once the tournament has closed
  that message lies on top of everything for good.\<close>

theorem exit_reason_exact:
  assumes "seat_cell st me = Some None" "c = seat_client_run me initial (es @ [RenderGame st])"
  shows "scExit c = Some (if open_prompt me es then Eliminated else SeatReleased) \<and> scPrompt c = None
    \<and> RebuyOverlay \<notin> set (overlays revoked c) \<and> RevokedOverlay \<notin> set (overlays revoked c)
    \<and> (Closed \<in> set es \<longleftrightarrow> hd (overlays revoked c) = ClosedOverlay)"
proof -
  let ?b = "seat_client_run me initial es"
  have c: "scExit c = Some (if scSawPrompt ?b then Eliminated else SeatReleased)" "scPrompt c = None"
    using assms(1) by (simp_all add: assms(2) run_snoc Let_def updateRebuyData_def)
  have "scClosed c \<longleftrightarrow> Closed \<in> set es" using closed_run[of me initial "es @ [RenderGame st]"] by (simp add: assms(2))
  then show ?thesis using c saw_prompt[of me initial es] by (auto simp: overlays_def)
qed

theorem exit_reason_exact_witness:
  "scExit (seat_client_run 3 (Some dealt) [RenderGame dealt]) = Some SeatReleased
   \<and> scExit (seat_client_run 3 (Some dealt) [RebuyAsked 15000, RenderGame dealt]) = Some Eliminated"
proof -
  have d: "seat_cell dealt 3 = Some None" by code_simp
  have "\<not> open_prompt 3 []" "open_prompt 3 [RebuyAsked 15000]"
    by (simp add: open_prompt_def) (use open_prompt_snoc[of 3 "[]"] in simp)
  then show ?thesis using exit_reason_exact[OF d refl, of "Some dealt" "[]"] exit_reason_exact[OF d refl, of "Some dealt" "[RebuyAsked 15000]"] by simp
qed

end
