(* ===== verification/DealerClient.thy ===== *)
theory DealerClient
  imports TableEngine Contract
begin

text \<open>
  The dealer's console (\<open>frontend/src/app/(terminal)/dealer/table/[tableId]/DealerGameClient.tsx\<close>, \<open>WinnerOverlay.tsx\<close>): which
  buttons are enabled, the ranking the dealer builds, and the commands that leave the screen. The state of the overlay lives
  as long as the overlay is shown. Texts and layout are left out.
\<close>

section \<open>The overlay of winners\<close>

record winner_candidate =
  wcId :: string
  wcNickname :: string
  wcHasFolded :: bool
  wcSeat :: int

definition winnerCandidates :: "table_state option \<Rightarrow> winner_candidate list" where
  "winnerCandidates state =
     (case state of None \<Rightarrow> []
      | Some st \<Rightarrow> concat (map (\<lambda>(s, i). case s of None \<Rightarrow> []
          | Some p \<Rightarrow> [\<lparr>wcId = player_id p, wcNickname = nickname p, wcHasFolded = hasFolded p, wcSeat = int i\<rparr>])
          (zip (players st) [0..<length (players st)])))"

text \<open>Groups in order of rank; the last one is being filled.\<close>

type_synonym groups = "string list list"

definition new_groups :: groups where
  "new_groups = [[]]"

definition pick_enabled :: "winner_candidate list \<Rightarrow> groups \<Rightarrow> string \<Rightarrow> bool" where
  "pick_enabled ps gs u \<longleftrightarrow> list_ex (\<lambda>p. wcId p = u \<and> \<not> wcHasFolded p) ps \<and> u \<notin> set (concat gs)"

definition pick :: "string \<Rightarrow> groups \<Rightarrow> groups" where
  "pick u gs = butlast gs @ [last gs @ [u]]"

definition nextRank :: "groups \<Rightarrow> groups" where
  "nextRank gs = (if last gs = [] then gs else gs @ [[]])"

definition undo :: "groups \<Rightarrow> groups" where
  "undo gs =
     (if last gs \<noteq> [] then butlast gs @ [butlast (last gs)]
      else if length gs > 1 then butlast gs
      else gs)"

definition boardHigh :: "winner_candidate list \<Rightarrow> string list list" where
  "boardHigh ps = [map wcId (filter (\<lambda>p. \<not> wcHasFolded p) ps)]"

definition submit_groups :: "groups \<Rightarrow> string list list" where
  "submit_groups gs = filter (\<lambda>g. g \<noteq> []) gs"

section \<open>The console\<close>

record dealer_client =
  dcState :: "table_state option"
  dcActionError :: bool
  dcKickTarget :: "(int \<times> string) option"
  dcGroups :: "groups option"
  dcClosed :: bool
  dcSync :: "(int \<times> int) option"

definition new_dealer_client :: "table_state option \<Rightarrow> dealer_client" where
  "new_dealer_client initial = \<lparr>dcState = initial, dcActionError = False, dcKickTarget = None, dcGroups = None, dcClosed = False, dcSync = None\<rparr>"

definition canStartHand :: "bool \<Rightarrow> dealer_client \<Rightarrow> bool" where
  "canStartHand outage c \<longleftrightarrow> map_option phase (dcState c) = Some WAITING \<and> \<not> dcClosed c \<and> dcSync c = None \<and> \<not> outage"

definition canResolveWinners :: "bool \<Rightarrow> dealer_client \<Rightarrow> bool" where
  "canResolveWinners outage c \<longleftrightarrow> map_option phase (dcState c) = Some SHOWDOWN \<and> \<not> dcClosed c
     \<and> (case dcState c of None \<Rightarrow> True | Some st \<Rightarrow> rebuyPending st = None) \<and> dcSync c = None \<and> \<not> outage"

definition isBettingRound :: "dealer_client \<Rightarrow> bool" where
  "isBettingRound c \<longleftrightarrow> (case dcState c of None \<Rightarrow> False | Some st \<Rightarrow> PRE_FLOP \<le> phase st \<and> phase st \<le> RIVER)"

definition isCheckpointStuck :: "dealer_client \<Rightarrow> bool" where
  "isCheckpointStuck c \<longleftrightarrow> (case dcState c of None \<Rightarrow> False | Some st \<Rightarrow> dbSyncStatus st \<noteq> None)"

text \<open>What the server sends and what the dealer presses; a press counts only on an enabled button that is there.\<close>

datatype dealer_event =
    DRender table_state
  | DClosed
  | DSyncing bool int int
  | DRefused
  | DDismissed
  | SeatClicked int
  | KickCancelled
  | FoldPressed
  | KickPressed
  | StartPressed
  | ResumePressed
  | RetryPressed
  | WinnersOpened
  | WinnersCancelled
  | WPick string
  | WNextRank
  | WUndo
  | WBoardHigh
  | WSubmit

text \<open>\<open>sendDealerAction\<close>: \<open>sent\<close> says whether the socket is open; only then the continuation \<open>f\<close> runs.\<close>

definition send_action ::
  "bool \<Rightarrow> dealer_message \<Rightarrow> (dealer_client \<Rightarrow> dealer_client) \<Rightarrow> dealer_client \<Rightarrow> dealer_message option \<times> dealer_client" where
  "send_action sent m f c = (if sent then (Some m, f c) else (None, c\<lparr>dcActionError := True\<rparr>))"

definition submitWinners :: "bool \<Rightarrow> string list list \<Rightarrow> dealer_client \<Rightarrow> dealer_message option \<times> dealer_client" where
  "submitWinners sent gs c = send_action sent (DWinners gs) (\<lambda>c. c\<lparr>dcGroups := None\<rparr>) c"

definition with_groups :: "(groups \<Rightarrow> groups) \<Rightarrow> dealer_client \<Rightarrow> dealer_client" where
  "with_groups f c = c\<lparr>dcGroups := map_option f (dcGroups c)\<rparr>"

fun dealer_client_step :: "bool \<Rightarrow> bool \<Rightarrow> dealer_client \<Rightarrow> dealer_event \<Rightarrow> dealer_message option \<times> dealer_client" where
  "dealer_client_step sent outage c (DRender st) = (None, c\<lparr>dcState := Some st\<rparr>)"
| "dealer_client_step sent outage c DClosed = (None, c\<lparr>dcClosed := True, dcActionError := False\<rparr>)"
| "dealer_client_step sent outage c (DSyncing syncing present required) =
     (None, c\<lparr>dcSync := (if syncing then Some (present, required) else None)\<rparr>)"
| "dealer_client_step sent outage c DRefused = (None, c\<lparr>dcActionError := True\<rparr>)"
| "dealer_client_step sent outage c DDismissed = (None, c\<lparr>dcActionError := False\<rparr>)"
| "dealer_client_step sent outage c (SeatClicked i) =
     (None, c\<lparr>dcKickTarget := (case dcState c of None \<Rightarrow> None
        | Some st \<Rightarrow> (case seat st i of None \<Rightarrow> None | Some p \<Rightarrow> Some (i, player_id p)))\<rparr>)"
| "dealer_client_step sent outage c KickCancelled = (None, c\<lparr>dcKickTarget := None\<rparr>)"
| "dealer_client_step sent outage c FoldPressed =
     (case dcKickTarget c of
        Some (_, u) \<Rightarrow> if isBettingRound c \<and> dcSync c = None \<and> \<not> outage
                       then send_action sent (DFold u) (\<lambda>c. c\<lparr>dcKickTarget := None\<rparr>) c else (None, c)
      | None \<Rightarrow> (None, c))"
| "dealer_client_step sent outage c KickPressed =
     (case dcKickTarget c of
        Some (_, u) \<Rightarrow> if dcSync c = None \<and> \<not> outage
                       then send_action sent (DKick u) (\<lambda>c. c\<lparr>dcKickTarget := None\<rparr>) c else (None, c)
      | None \<Rightarrow> (None, c))"
| "dealer_client_step sent outage c StartPressed =
     (if \<not> isCheckpointStuck c \<and> canStartHand outage c then send_action sent DStart id c else (None, c))"
| "dealer_client_step sent outage c ResumePressed =
     (if (case dcState c of None \<Rightarrow> False | Some st \<Rightarrow> resumePending st \<noteq> None) \<and> dcSync c = None \<and> \<not> outage
      then send_action sent DResume id c else (None, c))"
| "dealer_client_step sent outage c RetryPressed =
     (if isCheckpointStuck c \<and> (case dcState c of None \<Rightarrow> False | Some st \<Rightarrow> dbSyncStatus st \<noteq> Some RETRYING) \<and> dcSync c = None \<and> \<not> outage
      then send_action sent DRetry id c else (None, c))"
| "dealer_client_step sent outage c WinnersOpened =
     (None, if canResolveWinners outage c
            then c\<lparr>dcActionError := False, dcGroups := (case dcGroups c of None \<Rightarrow> Some new_groups | Some gs \<Rightarrow> Some gs)\<rparr> else c)"
| "dealer_client_step sent outage c WinnersCancelled = (None, c\<lparr>dcGroups := None\<rparr>)"
| "dealer_client_step sent outage c (WPick u) =
     (None, case dcGroups c of None \<Rightarrow> c
            | Some gs \<Rightarrow> if pick_enabled (winnerCandidates (dcState c)) gs u then with_groups (pick u) c else c)"
| "dealer_client_step sent outage c WNextRank = (None, with_groups nextRank c)"
| "dealer_client_step sent outage c WUndo = (None, with_groups undo c)"
| "dealer_client_step sent outage c WBoardHigh =
     (if dcGroups c \<noteq> None \<and> dcSync c = None \<and> \<not> outage then submitWinners sent (boardHigh (winnerCandidates (dcState c))) c
      else (None, c))"
| "dealer_client_step sent outage c WSubmit =
     (case dcGroups c of
        None \<Rightarrow> (None, c)
      | Some gs \<Rightarrow> if submit_groups gs \<noteq> [] \<and> dcSync c = None \<and> \<not> outage then submitWinners sent (submit_groups gs) c
                   else (None, c))"

text \<open>A run: each event comes with the state of the socket and of the outage at that moment.\<close>

definition dealer_client_run :: "table_state option \<Rightarrow> (bool \<times> bool \<times> dealer_event) list \<Rightarrow> dealer_client" where
  "dealer_client_run initial es =
     foldl (\<lambda>c (sent, outage, e). snd (dealer_client_step sent outage c e)) (new_dealer_client initial) es"

end
