(* ===== verification/DealerClientProps.thy ===== *)
theory DealerClientProps
  imports DealerClient EngineClaims
begin

text \<open>
  Commands of the console are understood by the server and never leave it while a tournament waits for its devices; a
  ranking that names everybody still in the hand settles it.
\<close>

section \<open>Rankings\<close>

definition frame_ok :: "table_state \<Rightarrow> bool" where
  "frame_ok st \<longleftrightarrow> list_all (\<lambda>p. player_id p \<noteq> []) (occupants (players st)) \<and> distinct (map player_id (occupants (players st)))"

definition groups_ok :: "groups \<Rightarrow> bool" where
  "groups_ok gs \<longleftrightarrow> gs \<noteq> [] \<and> list_all (\<lambda>g. g \<noteq> []) (butlast gs) \<and> distinct (concat gs) \<and> list_all (\<lambda>u. u \<noteq> []) (concat gs)"

lemma candidates_ids: "map wcId (winnerCandidates (Some st)) = map player_id (occupants (players st))"
  "map (\<lambda>p. (wcId p, wcHasFolded p)) (winnerCandidates (Some st)) = map (\<lambda>p. (player_id p, hasFolded p)) (occupants (players st))"
proof -
  have "map (\<lambda>p. (wcId p, wcHasFolded p)) (concat (map (\<lambda>(s, i). case s of None \<Rightarrow> []
      | Some p \<Rightarrow> [\<lparr>wcId = player_id p, wcNickname = nickname p, wcHasFolded = hasFolded p, wcSeat = int i\<rparr>]) (zip ss is)))
    = map (\<lambda>p. (player_id p, hasFolded p)) (occupants ss)" if "length ss = length is" for ss :: "table_player option list" and "is" :: "nat list"
    using that by (induction ss "is" rule: list_induct2) (auto split: option.splits)
  from this[of "players st" "[0..<length (players st)]"]
  show p: "map (\<lambda>p. (wcId p, wcHasFolded p)) (winnerCandidates (Some st)) = map (\<lambda>p. (player_id p, hasFolded p)) (occupants (players st))"
    by (simp add: winnerCandidates_def)
  from arg_cong[OF p, of "map fst"] show "map wcId (winnerCandidates (Some st)) = map player_id (occupants (players st))"
    by (simp add: comp_def)
qed

lemma unfolded_candidates:
  "map wcId (filter (\<lambda>p. \<not> wcHasFolded p) (winnerCandidates (Some st)))
     = map player_id (filter (\<lambda>p. \<not> hasFolded p) (occupants (players st)))"
proof -
  have "map fst (filter (\<lambda>x. \<not> snd x) (map (\<lambda>p. (wcId p, wcHasFolded p)) (winnerCandidates (Some st))))
      = map fst (filter (\<lambda>x. \<not> snd x) (map (\<lambda>p. (player_id p, hasFolded p)) (occupants (players st))))"
    by (simp only: candidates_ids)
  then show ?thesis by (simp add: filter_map comp_def)
qed

lemma groups_snoc: "gs \<noteq> [] \<Longrightarrow> gs = butlast gs @ [last gs]"
  by simp

lemma pick_ok:
  assumes "groups_ok gs" "u \<notin> set (concat gs)" "u \<noteq> []"
  shows "groups_ok (pick u gs)"
proof -
  obtain gs' g where gs: "gs = gs' @ [g]" using assms(1) by (metis groups_ok_def rev_exhaust)
  then show ?thesis using assms by (auto simp: groups_ok_def pick_def)
qed

lemma nextRank_ok: "groups_ok gs \<Longrightarrow> groups_ok (nextRank gs)"
proof -
  assume ok: "groups_ok gs"
  obtain gs' g where gs: "gs = gs' @ [g]" using ok by (metis groups_ok_def rev_exhaust)
  then show ?thesis using ok by (auto simp: groups_ok_def nextRank_def butlast_append)
qed

lemma undo_ok: "groups_ok gs \<Longrightarrow> groups_ok (undo gs)"
proof -
  assume ok: "groups_ok gs"
  obtain gs' g where gs: "gs = gs' @ [g]" using ok by (metis groups_ok_def rev_exhaust)
  have d: "distinct (butlast g)" "set (butlast g) \<subseteq> set g" if "distinct g"
    using that by (auto simp: distinct_butlast dest: in_set_butlastD)
  have "groups_ok gs'" if "g = []" "gs' \<noteq> []"
    using ok gs that by (auto simp: groups_ok_def list_all_iff dest: in_set_butlastD)
  moreover have "groups_ok (gs' @ [butlast g])" if "g \<noteq> []"
    using ok gs d by (auto simp: groups_ok_def list_all_iff dest: in_set_butlastD)
  ultimately show ?thesis using ok gs by (auto simp: undo_def)
qed

lemma submit_ok:
  assumes "groups_ok gs" "submit_groups gs \<noteq> []"
  shows "dealer_message_ok (DWinners (submit_groups gs))" "distinct (concat (submit_groups gs))"
proof -
  have "concat (submit_groups gs) = concat gs" unfolding submit_groups_def by (induction gs) auto
  then show "distinct (concat (submit_groups gs))" using assms(1) by (simp add: groups_ok_def)
  show "dealer_message_ok (DWinners (submit_groups gs))"
    using assms by (auto simp: groups_ok_def dealer_message_ok_def submit_groups_def list_all_iff)
qed

section \<open>The console\<close>

definition console_ok :: "dealer_client \<Rightarrow> bool" where
  "console_ok c \<longleftrightarrow> (case dcState c of None \<Rightarrow> True | Some st \<Rightarrow> frame_ok st)
     \<and> (case dcKickTarget c of None \<Rightarrow> True | Some (_, u) \<Rightarrow> u \<noteq> []) \<and> (case dcGroups c of None \<Rightarrow> True | Some gs \<Rightarrow> groups_ok gs)"

definition frames_ok :: "(bool \<times> bool \<times> dealer_event) list \<Rightarrow> bool" where
  "frames_ok es \<longleftrightarrow> list_all (\<lambda>(_, _, e). case e of DRender st \<Rightarrow> frame_ok st | _ \<Rightarrow> True) es"

lemma frame_seat: "frame_ok st \<Longrightarrow> seat st i = Some p \<Longrightarrow> player_id p \<noteq> []"
  using seat_occupant[of st i p] by (simp add: frame_ok_def list_all_iff)

lemma send_ok: "console_ok c \<Longrightarrow> (\<And>c. console_ok c \<Longrightarrow> console_ok (f c)) \<Longrightarrow> console_ok (snd (send_action sent m f c))"
  by (auto simp: send_action_def console_ok_def)

lemma with_groups_ok: "console_ok c \<Longrightarrow> (\<And>gs. groups_ok gs \<Longrightarrow> groups_ok (f gs)) \<Longrightarrow> console_ok (with_groups f c)"
  by (auto simp: console_ok_def with_groups_def split: option.splits)

lemma console_fields [simp]:
  "console_ok c \<Longrightarrow> console_ok (c\<lparr>dcKickTarget := None\<rparr>)" "console_ok c \<Longrightarrow> console_ok (c\<lparr>dcGroups := None\<rparr>)"
  "console_ok (c\<lparr>dcActionError := b\<rparr>) = console_ok c" "console_ok (c\<lparr>dcClosed := b\<rparr>) = console_ok c"
  "console_ok (c\<lparr>dcSync := y\<rparr>) = console_ok c" "console_ok (c\<lparr>dcClosed := b, dcActionError := b'\<rparr>) = console_ok c"
  by (simp_all add: console_ok_def)

lemma new_groups_ok: "groups_ok new_groups"
  by (simp add: groups_ok_def new_groups_def)

lemma candidate_id: "frame_ok st \<Longrightarrow> pick_enabled (winnerCandidates (Some st)) gs u \<Longrightarrow> u \<noteq> [] \<and> u \<notin> set (concat gs)"
proof -
  assume f: "frame_ok st" and p: "pick_enabled (winnerCandidates (Some st)) gs u"
  then have "u \<in> set (map wcId (winnerCandidates (Some st)))" by (auto simp: pick_enabled_def list_ex_iff)
  then show ?thesis using f p unfolding candidates_ids by (auto simp: frame_ok_def list_all_iff pick_enabled_def)
qed

lemma step_console:
  assumes ok: "console_ok c" and frame: "\<And>st. e = DRender st \<Longrightarrow> frame_ok st"
  shows "console_ok (snd (dealer_client_step sent outage c e))"
proof (cases e)
  case (WPick u)
  show ?thesis
  proof (cases "dcGroups c")
    case (Some gs)
    have g: "groups_ok gs" using ok Some by (simp add: console_ok_def)
    show ?thesis
    proof (cases "dcState c")
      case None
      then show ?thesis using ok WPick Some by (simp add: pick_enabled_def winnerCandidates_def)
    next
      case (Some st)
      then have "frame_ok st" using ok by (simp add: console_ok_def)
      then have "console_ok (with_groups (pick u) c)" if "pick_enabled (winnerCandidates (dcState c)) gs u"
        using that candidate_id[of st gs u] Some g ok pick_ok[of gs u] \<open>dcGroups c = Some gs\<close>
        by (simp add: console_ok_def with_groups_def)
      then show ?thesis using ok WPick \<open>dcGroups c = Some gs\<close> by simp
    qed
  qed (use ok WPick in simp)
next
  case (SeatClicked i)
  then show ?thesis using ok frame_seat by (auto simp: console_ok_def split: option.splits)
next
  case WinnersOpened
  then show ?thesis using ok new_groups_ok by (auto simp: console_ok_def split: option.splits)
next
  case (DRender st)
  then show ?thesis using ok frame by (simp add: console_ok_def)
qed (use ok nextRank_ok undo_ok in \<open>auto simp: submitWinners_def intro!: send_ok with_groups_ok split: option.splits prod.splits\<close>)

lemma run_console:
  assumes "case initial of None \<Rightarrow> True | Some st \<Rightarrow> frame_ok st" "frames_ok es"
  shows "console_ok (dealer_client_run initial es)"
  using assms(2)
proof (induction es rule: rev_induct)
  case Nil
  then show ?case using assms(1) by (simp add: dealer_client_run_def new_dealer_client_def console_ok_def)
next
  case (snoc x es)
  obtain sent outage e where x: "x = (sent, outage, e)" by (cases x) auto
  have "console_ok (dealer_client_run initial es)" "\<And>st. e = DRender st \<Longrightarrow> frame_ok st"
    using snoc x by (auto simp: frames_ok_def)
  then show ?case using step_console x by (simp add: dealer_client_run_def)
qed

lemma board_high_ok:
  assumes ok: "console_ok c"
  shows "distinct (concat (boardHigh (winnerCandidates (dcState c))))
    \<and> (dealer_message_ok (DWinners (boardHigh (winnerCandidates (dcState c))))
       \<or> list_all wcHasFolded (winnerCandidates (dcState c)))"
proof (cases "dcState c")
  case None
  then show ?thesis by (simp add: boardHigh_def winnerCandidates_def)
next
  case (Some st)
  have f: "frame_ok st" using ok Some by (simp add: console_ok_def)
  let ?us = "map player_id (filter (\<lambda>p. \<not> hasFolded p) (occupants (players st)))"
  have b: "boardHigh (winnerCandidates (dcState c)) = [?us]" using Some by (simp add: boardHigh_def unfolded_candidates)
  have "distinct ?us" "list_all (\<lambda>u. u \<noteq> []) ?us" using f by (auto simp: frame_ok_def distinct_map_filter list_all_iff)
  moreover have "list_all wcHasFolded (winnerCandidates (dcState c))" if "?us = []"
    using that Some unfolding unfolded_candidates[symmetric] by (simp add: filter_empty_conv list_all_iff)
  ultimately show ?thesis unfolding b by (auto simp: dealer_message_ok_def)
qed

lemma command_sent:
  assumes ok: "console_ok c" and step: "dealer_client_step sent outage c e = (Some m, c')"
  shows "sent \<and> \<not> outage \<and> dcSync c = None \<and> (case m of DWinners gs \<Rightarrow> distinct (concat gs) | _ \<Rightarrow> True)
     \<and> (dealer_message_ok m \<or> e = WBoardHigh \<and> list_all wcHasFolded (winnerCandidates (dcState c)))"
proof -
  have sends: "sent \<and> m' = m" if "send_action sent m' f c = (Some m, c')" for m' f
    using that by (simp add: send_action_def split: if_splits)
  have simple: "dealer_message_ok DStart" "dealer_message_ok DResume" "dealer_message_ok DRetry"
    "\<And>u. u \<noteq> [] \<Longrightarrow> dealer_message_ok (DFold u) \<and> dealer_message_ok (DKick u)" by (simp_all add: dealer_message_ok_def)
  show ?thesis
  proof (cases e)
    case FoldPressed
    then obtain i u where "dcKickTarget c = Some (i, u)" "dcSync c = None" "\<not> outage"
        "send_action sent (DFold u) (\<lambda>c. c\<lparr>dcKickTarget := None\<rparr>) c = (Some m, c')"
      using step by (auto split: option.splits if_splits)
    then show ?thesis using sends ok simple(4)[of u] by (fastforce simp: console_ok_def)
  next
    case KickPressed
    then obtain i u where "dcKickTarget c = Some (i, u)" "dcSync c = None" "\<not> outage"
        "send_action sent (DKick u) (\<lambda>c. c\<lparr>dcKickTarget := None\<rparr>) c = (Some m, c')"
      using step by (auto split: option.splits if_splits)
    then show ?thesis using sends ok simple(4)[of u] by (fastforce simp: console_ok_def)
  next
    case WSubmit
    then obtain gs where "dcGroups c = Some gs" "submit_groups gs \<noteq> []" "dcSync c = None" "\<not> outage"
        "send_action sent (DWinners (submit_groups gs)) (\<lambda>c. c\<lparr>dcGroups := None\<rparr>) c = (Some m, c')"
      using step by (auto simp: submitWinners_def split: option.splits if_splits)
    then show ?thesis using sends ok submit_ok[of gs] by (fastforce simp: console_ok_def)
  next
    case WBoardHigh
    then have g: "dcSync c = None" "\<not> outage"
        "send_action sent (DWinners (boardHigh (winnerCandidates (dcState c)))) (\<lambda>c. c\<lparr>dcGroups := None\<rparr>) c = (Some m, c')"
      using step by (auto simp: submitWinners_def split: if_splits)
    have m: "sent" "m = DWinners (boardHigh (winnerCandidates (dcState c)))" using sends[OF g(3)] by simp_all
    show ?thesis using g m WBoardHigh board_high_ok[OF ok] by simp
  qed (use step sends simple in \<open>fastforce simp: canStartHand_def split: if_splits option.splits\<close>)+
qed

text \<open>C15. Whatever the server sends and the dealer presses, a command that leaves the console goes out on an open socket, never while
  Redis is out or the tournament waits for its devices, and the server's schema reads it back as it was meant; a ranking
  names nobody twice. The exception is a board high on a table where everybody has folded, which names nobody.\<close>

theorem console_commands_understood:
  assumes "case initial of None \<Rightarrow> True | Some st \<Rightarrow> frame_ok st" "frames_ok es"
    and "dealer_client_step sent outage (dealer_client_run initial es) e = (Some m, c')"
  shows "sent \<and> \<not> outage \<and> dcSync (dealer_client_run initial es) = None
    \<and> (case m of DWinners gs \<Rightarrow> distinct (concat gs) | _ \<Rightarrow> True)
    \<and> (DealerActionSchema (print_dealer m) = Some m
       \<or> e = WBoardHigh \<and> list_all wcHasFolded (winnerCandidates (dcState (dealer_client_run initial es))))"
  using command_sent[OF run_console[OF assms(1,2)] assms(3)] dealer_printed[of m] by blast

section \<open>Rankings that settle\<close>

lemma pot_has_claimant:
  assumes "sp \<in> set (side_pots cs l levels)" "set levels \<subseteq> set (pot_levels cs)"
  shows "\<exists>p\<in>set cs. \<not> hasFolded p \<and> player_id p \<in> set (relevantPlayerIds sp)"
  using assms
proof (induction cs l levels rule: side_pots.induct)
  case (2 cs l level rest)
  obtain p where "p \<in> set cs" "\<not> hasFolded p" "totalContributed p = level"
    using 2(3) by (auto simp: pot_levels_def)
  then show ?case using 2 by (auto simp: Let_def)
qed simp

lemma claim_found: "u \<in> set (relevantPlayerIds sp) \<Longrightarrow> u \<in> set (concat gs) \<Longrightarrow> claim_of gs sp \<noteq> None"
proof
  assume u: "u \<in> set (relevantPlayerIds sp)" "u \<in> set (concat gs)" and none: "claim_of gs sp = None"
  then obtain g where g: "g \<in> set gs" "u \<in> set g" by auto
  from none have "\<forall>g\<in>set gs. filter (\<lambda>u. u \<in> set (relevantPlayerIds sp)) g = []"
    by (simp add: claim_of_def find_None_iff)
  then show False using g u(1) by (auto simp: filter_empty_conv)
qed

lemma refund_unfolded:
  "map player_id (filter (\<lambda>p. \<not> hasFolded p) (occupants (players (refundUncalledBets st))))
     = map player_id (filter (\<lambda>p. \<not> hasFolded p) (occupants (players st)))"
proof (cases rule: refund_cases[of st])
  case (refund i p s rest)
  let ?q = "p\<lparr>stack := stack p + (totalContributed p - s), totalContributed := s\<rparr>"
  obtain before after where o: "occupants (players st) = before @ p # after"
    "\<And>q. occupants (set_slot (players st) i q) = before @ q # after"
    using occupants_set_slot[of "players st" i p] refund(1) by (auto simp: seat_def)
  have "occupants (players (refundUncalledBets st)) = before @ ?q # after"
    using o(2)[of ?q] refund(4) by (simp add: put_seat_def)
  then show ?thesis using o(1) by simp
qed simp

text \<open>At a showdown a ranking that names every player still in the hand is never refused, in whatever groups, and neither is the
  board high of the console; nothing else is needed for the hand to end.\<close>

theorem full_ranking_settles:
  assumes "phase st = SHOWDOWN"
    and "set (map wcId (filter (\<lambda>p. \<not> wcHasFolded p) (winnerCandidates (Some st)))) \<subseteq> set (concat gs)"
  shows "fst (resolveWinner gs st) = Inr () \<and> fst (resolveWinner (boardHigh (winnerCandidates (Some st))) st) = Inr ()"
proof -
  define us where "us = map player_id (filter (\<lambda>p. \<not> hasFolded p) (occupants (players st)))"
  have settles: "fst (resolveWinner gs' st) = Inr ()" if named: "set us \<subseteq> set (concat gs')" for gs'
  proof -
    let ?st = "refundUncalledBets st"
    have "claim_of gs' sp \<noteq> None" if "sp \<in> set (sidePots (calculateSidePots ?st))" for sp
    proof -
      have "sp \<in> set (side_pots (contributors ?st) 0 (pot_levels (contributors ?st)))"
        using that by (simp add: calculateSidePots_def Let_def)
      then obtain p where p: "p \<in> set (contributors ?st)" "\<not> hasFolded p" "player_id p \<in> set (relevantPlayerIds sp)"
        using pot_has_claimant by blast
      then have "player_id p \<in> set (map player_id (filter (\<lambda>p. \<not> hasFolded p) (occupants (players ?st))))"
        by (auto simp: contributors_def)
      then have "player_id p \<in> set us" unfolding us_def refund_unfolded .
      then show ?thesis using named p(3) claim_found by blast
    qed
    then have none: "filter (\<lambda>sp. claim_of gs' sp = None) (sidePots (calculateSidePots ?st)) = []"
      by (simp add: filter_empty_conv del: not_None_eq)
    show ?thesis unfolding resolveWinner_def Let_def none using assms(1) by simp
  qed
  have "set us \<subseteq> set (concat gs)" using assms(2) unfolding unfolded_candidates us_def .
  moreover have "boardHigh (winnerCandidates (Some st)) = [us]" by (simp add: boardHigh_def unfolded_candidates us_def)
  ultimately show ?thesis using settles by simp
qed

theorem full_ranking_settles_witness:
  "fst (resolveWinner [[''a''], [''b'', ''c'']] timed_out) = Inr ()"
proof -
  have "phase timed_out = SHOWDOWN" by code_simp
  moreover have "set (map wcId (filter (\<lambda>p. \<not> wcHasFolded p) (winnerCandidates (Some timed_out)))) \<subseteq> {''a'', ''b'', ''c''}"
    unfolding unfolded_candidates by code_simp
  ultimately show ?thesis using full_ranking_settles[of timed_out "[[''a''], [''b'', ''c'']]"] by simp
qed

theorem console_commands_understood_witness:
  "let run = dealer_client_run (Some timed_out) [(True, False, WinnersOpened), (True, False, WPick ''a''), (True, False, WNextRank)]
   in \<exists>m c'. dealer_client_step True False run WSubmit = (Some m, c') \<and> DealerActionSchema (print_dealer m) = Some m"
proof -
  let ?es = "[(True, False, WinnersOpened), (True, False, WPick ''a''), (True, False, WNextRank)]"
  have ok: "case Some timed_out of None \<Rightarrow> True | Some st \<Rightarrow> frame_ok st" "frames_ok ?es" by (code_simp, code_simp)
  have "fst (dealer_client_step True False (dealer_client_run (Some timed_out) ?es) WSubmit) = Some (DWinners [[''a'']])" by code_simp
  then obtain c' where s: "dealer_client_step True False (dealer_client_run (Some timed_out) ?es) WSubmit = (Some (DWinners [[''a'']]), c')"
    by (metis prod.collapse)
  show ?thesis using console_commands_understood[OF ok s] s by auto
qed

end
