(* ===== verification/TableSocket.thy ===== *)
theory TableSocket
  imports JsNumber Attempts
begin

text \<open>
  The socket of a tablet (\<open>frontend/src/lib/use-table-socket.ts\<close>, \<open>reconnect-policy.ts\<close>): when it knocks again, and when it stops.
  Timers, requests for a ticket and open sockets are counted, so that there is at most one of them is a theorem. A draw of
  \<open>Math.random\<close> is \<open>k / 2 ^ 53\<close>.
\<close>

section \<open>How long to wait\<close>

definition SEAT_SPREAD_MS :: int where "SEAT_SPREAD_MS = 40000"

definition DEALER_OFFSET_MS :: int where "DEALER_OFFSET_MS = SEAT_SPREAD_MS"

definition DEALER_SPREAD_MS :: int where "DEALER_SPREAD_MS = 10000"

definition RETRY_BASE_MS :: int where "RETRY_BASE_MS = 5000"

definition RETRY_MAX_MS :: int where "RETRY_MAX_MS = 40000"

definition RECONNECT_ATTEMPTS :: nat where "RECONNECT_ATTEMPTS = 10"

datatype socket_role = SeatTablet | DealerTablet

text \<open>\<open>Math.floor(step * (0.5 + rand()))\<close> and \<open>Math.floor(rand() * spread)\<close> in doubles.\<close>

definition jitter_step :: "int \<Rightarrow> int \<Rightarrow> int" where
  "jitter_step step k =
     (let m = js_mantissa (2 ^ 52 + k) (2 ^ 53); s = js_scale (2 ^ 52 + k) (2 ^ 53)
      in js_floor_div (step * m) (2 ^ s))"

definition jitter_spread :: "int \<Rightarrow> int \<Rightarrow> int" where
  "jitter_spread spread k = js_floor_div (k * spread) (2 ^ 53)"

definition reconnectDelayMs :: "nat \<Rightarrow> socket_role \<Rightarrow> int \<Rightarrow> int option" where
  "reconnectDelayMs attempt r k =
     (if attempt \<ge> RECONNECT_ATTEMPTS then None
      else if attempt > 0 then Some (jitter_step (min (RETRY_BASE_MS * 2 ^ (attempt - 1)) RETRY_MAX_MS) k)
      else Some ((if r = DealerTablet then DEALER_OFFSET_MS else 0)
                 + jitter_spread (if r = DealerTablet then DEALER_SPREAD_MS else SEAT_SPREAD_MS) k))"

text \<open>The header \<open>Retry-After\<close> as the server sends it, whole seconds; other texts are no number.\<close>

definition retryAfterMs :: "setting \<Rightarrow> int option" where
  "retryAfterMs header = (case header of IntText n \<Rightarrow> if n < 0 then None else Some (n * 1000) | _ \<Rightarrow> None)"

definition waitFor :: "nat \<Rightarrow> socket_role \<Rightarrow> int option \<Rightarrow> int \<Rightarrow> int option" where
  "waitFor attempt r floorMs k =
     (case reconnectDelayMs attempt r k of None \<Rightarrow> None
      | Some jittered \<Rightarrow> Some ((case floorMs of None \<Rightarrow> 0 | Some f \<Rightarrow> f) + jittered))"

section \<open>The hook\<close>

record table_socket =
  tsCancelled :: bool
  tsTimers :: nat
  tsRequests :: nat
  tsSockets :: nat
  tsWatchdog :: bool
  tsAttempt :: nat
  tsGaveUp :: bool
  tsFirstFrame :: bool
  tsError :: bool
  tsReconnecting :: bool
  tsStalled :: bool
  tsOutage :: bool
  tsRevoked :: bool
  tsWait :: "int option"

definition mounted :: table_socket where
  "mounted = \<lparr>tsCancelled = False, tsTimers = 0, tsRequests = 1, tsSockets = 0, tsWatchdog = False, tsAttempt = 0, tsGaveUp = False,
     tsFirstFrame = False, tsError = False, tsReconnecting = False, tsStalled = False, tsOutage = False, tsRevoked = False, tsWait = None\<rparr>"

definition scheduleRetry :: "socket_role \<Rightarrow> int option \<Rightarrow> int \<Rightarrow> table_socket \<Rightarrow> table_socket" where
  "scheduleRetry r floorMs k s =
     (if tsCancelled s then s
      else case waitFor (tsAttempt s) r floorMs k of
        None \<Rightarrow> s\<lparr>tsAttempt := tsAttempt s + 1, tsGaveUp := True, tsStalled := True, tsReconnecting := False, tsError := True\<rparr>
      | Some w \<Rightarrow> s\<lparr>tsAttempt := tsAttempt s + 1, tsReconnecting := True, tsTimers := tsTimers s + 1, tsWait := Some w\<rparr>)"

definition knock :: "table_socket \<Rightarrow> table_socket" where
  "knock s = (if tsCancelled s then s else s\<lparr>tsRequests := tsRequests s + 1\<rparr>)"

datatype ticket_answer = NetworkError | Forbidden | TooMany setting | OtherStatus | TicketGiven

datatype close_code = NormalClose | RevokedClose | OtherClose

datatype frame = Unreadable | OutageFrame "bool option" | Keepalive | OtherFrame

datatype socket_event =
    TicketAnswered ticket_answer int
  | FrameArrived frame
  | SocketClosed close_code int
  | SocketError
  | WatchdogFired int
  | TimerFired
  | RetryPressed
  | Unmounted

text \<open>
  A request, timer or watchdog answers only while it is there; the handlers of a socket are gone once it is closed or given up.
  Each failure draws the random number of its wait.
\<close>

fun socket_step :: "socket_role \<Rightarrow> table_socket \<Rightarrow> socket_event \<Rightarrow> table_socket" where
  "socket_step r s (TicketAnswered a k) =
     (if tsRequests s = 0 then s
      else let s1 = s\<lparr>tsRequests := tsRequests s - 1\<rparr> in
        if tsCancelled s1 then s1
        else case a of
          NetworkError \<Rightarrow> scheduleRetry r None k (s1\<lparr>tsError := True\<rparr>)
        | Forbidden \<Rightarrow> s1\<lparr>tsRevoked := True, tsReconnecting := False\<rparr>
        | TooMany header \<Rightarrow> scheduleRetry r (retryAfterMs header) k (s1\<lparr>tsError := True\<rparr>)
        | OtherStatus \<Rightarrow> scheduleRetry r None k (s1\<lparr>tsError := True\<rparr>)
        | TicketGiven \<Rightarrow> s1\<lparr>tsSockets := tsSockets s1 + 1, tsWatchdog := True, tsFirstFrame := True\<rparr>)"
| "socket_step r s (FrameArrived f) =
     (if tsSockets s = 0 \<or> tsCancelled s \<or> f = Unreadable then s
      else let s1 = s\<lparr>tsWatchdog := True, tsAttempt := 0, tsReconnecting := False, tsError := False, tsRevoked := False,
                 tsOutage := (if tsFirstFrame s then False else tsOutage s), tsFirstFrame := False\<rparr>
           in (case f of OutageFrame (Some down) \<Rightarrow> s1\<lparr>tsOutage := down\<rparr> | _ \<Rightarrow> s1))"
| "socket_step r s (SocketClosed c k) =
     (if tsSockets s = 0 then s
      else let s1 = s\<lparr>tsSockets := tsSockets s - 1\<rparr> in
        if tsCancelled s1 then s1
        else let s2 = s1\<lparr>tsWatchdog := False\<rparr> in
          case c of
            NormalClose \<Rightarrow> s2
          | RevokedClose \<Rightarrow> s2\<lparr>tsRevoked := True, tsReconnecting := False\<rparr>
          | OtherClose \<Rightarrow> scheduleRetry r None k (s2\<lparr>tsError := True\<rparr>))"
| "socket_step r s SocketError = (if tsSockets s = 0 \<or> tsCancelled s then s else s\<lparr>tsError := True\<rparr>)"
| "socket_step r s (WatchdogFired k) =
     (if \<not> tsWatchdog s then s
      else let s1 = s\<lparr>tsWatchdog := False\<rparr> in
        if tsCancelled s1 \<or> tsSockets s1 = 0 then s1
        else scheduleRetry r None k (s1\<lparr>tsSockets := tsSockets s1 - 1, tsError := True\<rparr>))"
| "socket_step r s TimerFired = (if tsTimers s = 0 then s else knock (s\<lparr>tsTimers := tsTimers s - 1\<rparr>))"
| "socket_step r s RetryPressed =
     (if tsCancelled s \<or> (tsTimers s = 0 \<and> \<not> tsGaveUp s) then s
      else let s1 = s\<lparr>tsTimers := tsTimers s - 1\<rparr>;
               s2 = (if tsGaveUp s1 then s1\<lparr>tsGaveUp := False, tsAttempt := 1, tsStalled := False\<rparr> else s1)
           in knock (s2\<lparr>tsReconnecting := True\<rparr>))"
| "socket_step r s Unmounted = s\<lparr>tsCancelled := True, tsTimers := tsTimers s - 1, tsWatchdog := False\<rparr>"

definition socket_run :: "socket_role \<Rightarrow> socket_event list \<Rightarrow> table_socket" where
  "socket_run r es = foldl (socket_step r) mounted es"

end
