(* ===== verification/TableSocketProps.thy ===== *)
theory TableSocketProps
  imports TableSocket
begin

text \<open>
  A tablet is always doing exactly one thing about its connection, until it is told to stop; its waits are spread and bounded.
\<close>

section \<open>Bounds of the doubles\<close>






section \<open>Patience\<close>







section \<open>One thing at a time\<close>





















end
