(* ===== verification/WireTable.thy ===== *)
theory WireTable
  imports TablePlay Contract
begin

text \<open>
  The snapshot as the clients get it: the outbound schema (\<open>packages/contract/src/table-state.ts\<close>) and the only gate of a broadcast
  (\<open>toWireState\<close> of \<open>ws/ws.gateway.ts\<close>). A snapshot that fails the schema is logged and never sent; fields the schema does not
  name (the table's id of a player, the epoch of the timer) are dropped.
\<close>

definition chips_field :: "int \<Rightarrow> bool" where
  "chips_field n \<longleftrightarrow> safe_int n \<and> 0 \<le> n"

definition TablePlayerSchema :: "table_player \<Rightarrow> bool" where
  "TablePlayerSchema p \<longleftrightarrow> player_id p \<noteq> [] \<and> chips_field (seatIndex p) \<and> chips_field (stack p) \<and> chips_field (bet p)
     \<and> chips_field (totalContributed p)"

definition SidePotSchema :: "side_pot \<Rightarrow> bool" where
  "SidePotSchema sp \<longleftrightarrow> chips_field (potAmount sp) \<and> list_all (\<lambda>u. u \<noteq> []) (relevantPlayerIds sp)"

definition TableStateSchema :: "table_state \<Rightarrow> bool" where
  "TableStateSchema st \<longleftrightarrow>
     list_all TablePlayerSchema (occupants (players st)) \<and> safe_int (buttonUser st) \<and> safe_int (currentTurnSeatIndex st)
     \<and> chips_field (pot st) \<and> list_all SidePotSchema (sidePots st) \<and> chips_field (currentBet st) \<and> chips_field (smallBlind st)
     \<and> chips_field (ante st)
     \<and> (case actionDeadline st of None \<Rightarrow> True | Some d \<Rightarrow> safe_int d)
     \<and> (case resumePending st of None \<Rightarrow> True | Some r \<Rightarrow> chips_field (downMs r))
     \<and> (case rebuyPending st of None \<Rightarrow> True
        | Some r \<Rightarrow> list_all chips_field (seatIndexes r) \<and> seatIndexes r \<noteq> [] \<and> safe_int (rebuyDeadline r))
     \<and> (case lastRaiseSize st of None \<Rightarrow> True | Some r \<Rightarrow> chips_field r)
     \<and> tournamentId st \<noteq> []"

record wire_player =
  wpId :: string
  wpNickname :: string
  wpSeatIndex :: int
  wpStack :: int
  wpBet :: int
  wpHasFolded :: bool
  wpHasChecked :: bool
  wpIsAllIn :: bool
  wpTotalContributed :: int

record wire_table =
  wtPhase :: game_phase
  wtPlayers :: "wire_player option list"
  wtButtonUser :: int
  wtCurrentTurnSeatIndex :: int
  wtPot :: int
  wtSidePots :: "side_pot list"
  wtCurrentBet :: int
  wtSmallBlind :: int
  wtAnte :: int
  wtActionDeadline :: "int option"
  wtResumePending :: "resume_pending option"
  wtDbSyncStatus :: "db_sync_status option"
  wtRebuyPending :: "rebuy_pending option"
  wtLastRaiseSize :: "int option"
  wtServerTime :: int
  wtTournamentId :: string

definition wire_seat :: "table_player \<Rightarrow> wire_player" where
  "wire_seat p = \<lparr>wpId = player_id p, wpNickname = nickname p, wpSeatIndex = seatIndex p, wpStack = stack p, wpBet = bet p,
     wpHasFolded = hasFolded p, wpHasChecked = hasChecked p, wpIsAllIn = isAllIn p, wpTotalContributed = totalContributed p\<rparr>"

definition toWireState :: "int \<Rightarrow> table_state \<Rightarrow> wire_table option" where
  "toWireState now st =
     (if \<not> TableStateSchema st then None
      else Some \<lparr>wtPhase = phase st, wtPlayers = map (map_option wire_seat) (players st), wtButtonUser = buttonUser st,
        wtCurrentTurnSeatIndex = currentTurnSeatIndex st, wtPot = pot st, wtSidePots = sidePots st, wtCurrentBet = currentBet st,
        wtSmallBlind = smallBlind st, wtAnte = ante st, wtActionDeadline = actionDeadline st, wtResumePending = resumePending st,
        wtDbSyncStatus = dbSyncStatus st, wtRebuyPending = rebuyPending st, wtLastRaiseSize = lastRaiseSize st,
        wtServerTime = now, wtTournamentId = tournamentId st\<rparr>)"

end
