(* ===== verification/WireTableProps.thy ===== *)
theory WireTableProps
  imports WireTable TableClaims
begin

text \<open>
  Every snapshot a table can reach passes the schema of the clients: no amount is negative or leaves the safe integers, as
  long as the chips brought to the table, the blinds and the times do not.
\<close>

section \<open>Amounts within a bound\<close>

definition fits :: "int \<Rightarrow> int \<Rightarrow> bool" where
  "fits M n \<longleftrightarrow> 0 \<le> n \<and> n \<le> M"

definition money_fits :: "int \<Rightarrow> table_state \<Rightarrow> bool" where
  "money_fits M st \<longleftrightarrow> (\<forall>i p. seat st i = Some p \<longrightarrow> fits M (stack p) \<and> fits M (bet p) \<and> fits M (totalContributed p)) \<and> fits M (pot st)"

definition pots_fit :: "int \<Rightarrow> table_state \<Rightarrow> bool" where
  "pots_fit M st \<longleftrightarrow> (\<forall>sp\<in>set (sidePots st). fits M (potAmount sp) \<and> [] \<notin> set (relevantPlayerIds sp))"

definition marks_fit :: "int \<Rightarrow> table_state \<Rightarrow> bool" where
  "marks_fit M st \<longleftrightarrow> fits M (currentBet st) \<and> 0 \<le> smallBlind st \<and> fits M (2 * smallBlind st) \<and> fits M (ante st)
     \<and> (case lastRaiseSize st of None \<Rightarrow> True | Some r \<Rightarrow> fits M r) \<and> pots_fit M st"

text \<open>Who sits where: numbered seats, players with an id.\<close>

definition persons_fit :: "table_state \<Rightarrow> bool" where
  "persons_fit st \<longleftrightarrow> Some [] \<notin> set (ids st) \<and> list_all (\<lambda>s. case s of None \<Rightarrow> True | Some n \<Rightarrow> 0 \<le> n \<and> n < 9) (seat_numbers st)
     \<and> length (ids st) = 9"

definition clock_fits :: "int \<Rightarrow> table_state \<Rightarrow> bool" where
  "clock_fits M st \<longleftrightarrow> -1 \<le> currentTurnSeatIndex st \<and> currentTurnSeatIndex st < 9
     \<and> (case actionDeadline st of None \<Rightarrow> True | Some d \<Rightarrow> - M \<le> d \<and> d \<le> M)
     \<and> (case resumePending st of None \<Rightarrow> True | Some r \<Rightarrow> fits M (downMs r))
     \<and> (case rebuyPending st of None \<Rightarrow> True
        | Some r \<Rightarrow> seatIndexes r \<noteq> [] \<and> (\<forall>i\<in>set (seatIndexes r). 0 \<le> i \<and> i < 9) \<and> - M \<le> rebuyDeadline r \<and> rebuyDeadline r \<le> M)
     \<and> tournamentId st \<noteq> []"

definition state_fits :: "int \<Rightarrow> table_state \<Rightarrow> bool" where
  "state_fits M st \<longleftrightarrow> money_fits M st \<and> marks_fit M st \<and> persons_fit st \<and> clock_fits M st"

lemma persons_same: "same_table st st' \<Longrightarrow> persons_fit st' = persons_fit st"
  by (simp add: persons_fit_def same_table_def)

lemma clock_same:
  "same_table st st' \<Longrightarrow> clock_fits M st \<Longrightarrow> -1 \<le> currentTurnSeatIndex st' \<Longrightarrow> currentTurnSeatIndex st' < 9 \<Longrightarrow> clock_fits M st'"
  by (simp add: clock_fits_def same_table_def)

lemma persons_length: "persons_fit st \<Longrightarrow> length (players st) = 9"
  by (simp add: persons_fit_def ids_def)

lemma persons_id: "persons_fit st \<Longrightarrow> p \<in> set (occupants (players st)) \<Longrightarrow> player_id p \<noteq> [] \<and> 0 \<le> seatIndex p \<and> seatIndex p < 9"
  by (force simp: persons_fit_def ids_def seat_numbers_def set_occupants list_all_iff)

section \<open>A running hand\<close>

lemma seat_le_sum:
  assumes "seat st i = Some p" "\<And>q. q \<in> set (occupants (players st)) \<Longrightarrow> 0 \<le> f q"
  shows "f p \<le> sum_slots f (players st)"
  unfolding sum_slots_def using assms seat_occupant by (intro sum_list_member_le)

lemma hand_money:
  assumes "seats_ok st" "pot st = contributions st" "total_chips st \<le> M"
  shows "money_fits M st" and "\<And>i p. seat st i = Some p \<Longrightarrow> bet p + stack p \<le> M" and "contributions st \<le> M"
proof -
  have ok: "0 \<le> stack p \<and> 0 \<le> bet p \<and> bet p \<le> totalContributed p" if "p \<in> set (occupants (players st))" for p
    using assms(1) occupant_seat[OF that] by (auto simp: seats_ok_def player_ok_def)
  have nonneg: "0 \<le> stacks st" "0 \<le> contributions st"
    unfolding stacks_def contributions_def sum_slots_def by (intro sum_list_nonneg; use ok in force)+
  have each: "stack p \<le> stacks st" "totalContributed p \<le> contributions st" if "seat st i = Some p" for i p
    unfolding stacks_def contributions_def by (rule seat_le_sum[OF that]; use ok in force)+
  show m: "bet p + stack p \<le> M" if "seat st i = Some p" for i p
    using each[OF that] ok[OF seat_occupant[OF that]] assms(2,3) by (simp add: total_chips_def)
  show "contributions st \<le> M" using nonneg assms(2,3) by (simp add: total_chips_def)
  show "money_fits M st" unfolding money_fits_def fits_def
    using each ok[OF seat_occupant] nonneg assms(2,3) unfolding total_chips_def by (smt (verit, best))
qed

lemma side_pots_fit:
  assumes "\<And>p. p \<in> set cs \<Longrightarrow> 0 \<le> totalContributed p" "sum_list (map totalContributed cs) \<le> M"
    and "0 \<le> l" "\<And>x. x \<in> set levels \<Longrightarrow> 0 \<le> x" "sp \<in> set (side_pots cs l levels)"
  shows "fits M (potAmount sp)"
  using assms(3-5)
proof (induction levels arbitrary: l)
  case (Cons level rest)
  define f :: "table_player \<Rightarrow> int" where "f p = max 0 ((if rest = [] then totalContributed p else min (totalContributed p) level) - l)" for p
  have "f p \<le> totalContributed p" if "p \<in> set cs" for p
    using assms(1)[OF that] Cons.prems(1) by (auto simp: f_def)
  then have "sum_list (map f cs) \<le> sum_list (map totalContributed cs)" by (intro sum_list_mono) auto
  moreover have "0 \<le> sum_list (map f cs)" by (intro sum_list_nonneg) (auto simp: f_def)
  ultimately have "fits M (sum_list (map f cs))" using assms(2) by (simp add: fits_def)
  moreover have "side_pots cs l (level # rest) = \<lparr>potAmount = sum_list (map f cs),
      relevantPlayerIds = map player_id (filter (\<lambda>p. \<not> hasFolded p \<and> totalContributed p \<ge> level) cs)\<rparr> # side_pots cs level rest"
    by (simp add: f_def Let_def cong: map_cong)
  ultimately show ?case using Cons.IH[of level] Cons.prems by auto
qed simp

lemma computed_pots_fit:
  assumes "\<And>p. p \<in> set (occupants (players st)) \<Longrightarrow> 0 \<le> totalContributed p" "contributions st \<le> M" "persons_fit st"
  shows "pots_fit M (calculateSidePots st)"
proof -
  have "fits M (potAmount sp)" if "sp \<in> set (sidePots (calculateSidePots st))" for sp
  proof (rule side_pots_fit)
    show "sp \<in> set (side_pots (contributors st) 0 (pot_levels (contributors st)))" using that by (simp add: calculateSidePots_def Let_def)
    show "sum_list (map totalContributed (contributors st)) \<le> M" using contributors_sum assms(1,2) by simp
    show "0 \<le> totalContributed p" if "p \<in> set (contributors st)" for p using that assms(1) by (auto simp: contributors_def)
    show "0 \<le> x" if "x \<in> set (pot_levels (contributors st))" for x
      using that assms(1) by (auto simp: pot_levels_def contributors_def)
  qed simp
  moreover have "[] \<notin> set (relevantPlayerIds sp)" if "sp \<in> set (sidePots (calculateSidePots st))" for sp
    using relevant_seated[OF that, of "[]"] persons_id[OF assms(3)] by blast
  ultimately show ?thesis by (simp add: pots_fit_def)
qed

lemma pots_calculated [simp]: "pots_fit M (st\<lparr>phase := ph\<rparr>) = pots_fit M st"
  "pots_fit M (st\<lparr>currentTurnSeatIndex := t\<rparr>) = pots_fit M st" "pots_fit M (st\<lparr>currentBet := b\<rparr>) = pots_fit M st"
  "pots_fit M (st\<lparr>lastRaiseSize := r\<rparr>) = pots_fit M st" "pots_fit M (st\<lparr>players := ps\<rparr>) = pots_fit M st"
  by (simp_all add: pots_fit_def)

lemma bet_marks [simp, frame_simps]:
  "sidePots (executeBet i amt st) = sidePots st" "ante (executeBet i amt st) = ante st"
  "sidePots (mark_checked i st) = sidePots st" "sidePots (mark_folded i st) = sidePots st"
  "sidePots (resetChecked st) = sidePots st"
  by (simp_all add: executeBet_def mark_checked_def mark_folded_def resetChecked_def put_seat_def Let_def split: option.splits)

lemma marks_kept:
  "same_table st st' \<Longrightarrow> marks_fit M st \<Longrightarrow> fits M (currentBet st') \<Longrightarrow> (\<And>r. lastRaiseSize st' = Some r \<Longrightarrow> fits M r)
   \<Longrightarrow> pots_fit M st' \<Longrightarrow> marks_fit M st'"
  by (auto simp: marks_fit_def same_table_def split: option.splits)

lemma marks_untouched:
  "same_table st st' \<Longrightarrow> marks_fit M st \<Longrightarrow> currentBet st' = currentBet st \<Longrightarrow> lastRaiseSize st' = lastRaiseSize st
   \<Longrightarrow> sidePots st' = sidePots st \<Longrightarrow> marks_fit M st'"
  by (simp add: marks_fit_def pots_fit_def same_table_def)

lemma raise_marks:
  assumes "seat st i = Some p" "bet p + stack p \<le> M" "0 \<le> stack p" "0 \<le> bet p" "marks_fit M st" "handleRaise i p n st = Inr st'"
  shows "fits M (currentBet st')" and "lastRaiseSize st' = Some r \<Longrightarrow> fits M r" and "sidePots st' = sidePots st"
proof -
  note raise = handleRaise_Inr[OF assms(6)]
  define st1 where "st1 = executeBet i (min (n - bet p) (stack p)) st"
  define b where "b = bet p + min (stack p) (min (n - bet p) (stack p))"
  have b: "b \<le> M" "0 \<le> b" using assms(2-4) raise(4) unfolding b_def by linarith+
  obtain q where q: "seat st1 i = Some q" "bet q = b"
    using executeBet_player[OF assms(1), of "min (n - bet p) (stack p)" i] by (simp add: st1_def b_def)
  have f: "currentBet st1 = currentBet st" "lastRaiseSize st1 = lastRaiseSize st" "sidePots st1 = sidePots st"
    by (simp_all add: st1_def)
  have st': "st' = mark_checked i (raise_bet i (currentBet st) (minRaiseSize st) st1)" using raise(1) by (simp add: st1_def)
  have m: "fits M (currentBet st)" "lastRaiseSize st = Some r \<Longrightarrow> fits M r" for r
    using assms(5) by (auto simp: marks_fit_def)
  have "currentBet st' = (if currentBet st < b then b else currentBet st)"
    by (simp add: st' raise_bet_def Let_def q f)
  then show "fits M (currentBet st')" using m(1) b by (simp add: fits_def)
  have "lastRaiseSize st' = (if currentBet st < b \<and> minRaiseSize st \<le> b - currentBet st then Some (b - currentBet st) else lastRaiseSize st)"
    by (simp add: st' raise_bet_def Let_def q f)
  then show "lastRaiseSize st' = Some r \<Longrightarrow> fits M r" using m b by (auto simp: fits_def split: if_splits)
  show "sidePots st' = sidePots st" by (simp add: st' raise_bet_def Let_def q f)
qed

lemma apply_marks:
  assumes "seats_ok st" "pot st = contributions st" "total_chips st \<le> M" "marks_fit M st" "seat st i = Some p"
    and "apply_action i p a r st = Inr (Some st')"
  shows "marks_fit M st'"
  using assms(6)
proof (cases rule: apply_action_cases)
  case (raised n)
  have p: "0 \<le> stack p" "0 \<le> bet p" using assms(1,5) by (auto simp: seats_ok_def player_ok_def)
  note m = raise_marks[OF assms(5) hand_money(2)[OF assms(1-3,5)] p assms(4) raised]
  show ?thesis using m assms(4) by (intro marks_kept[OF handleRaise_same[OF raised] assms(4)]) (auto simp: marks_fit_def pots_fit_def)
next
  case called
  then show ?thesis
    by (intro marks_untouched[OF apply_action_same[OF assms(6)] assms(4)]) (simp_all add: handleCall_def Let_def)
next
  case folded
  then show ?thesis by (intro marks_untouched[OF apply_action_same[OF assms(6)] assms(4)]) simp_all
next
  case checked
  then show ?thesis by (intro marks_untouched[OF apply_action_same[OF assms(6)] assms(4)]) simp_all
qed (use assms(4) in simp)

lemma decided_marks:
  assumes "\<And>p. p \<in> set (occupants (players st)) \<Longrightarrow> 0 \<le> totalContributed p" "contributions st \<le> M" "persons_fit st" "marks_fit M st"
  shows "marks_fit M (to_showdown st)" and "marks_fit M (nextPhase st)" and "marks_fit M (after_action b st)"
proof -
  note pots = computed_pots_fit[OF assms(1-3)]
  have sb: "fits M (2 * smallBlind st)" "0 \<le> M" using assms(4) by (auto simp: marks_fit_def fits_def)
  show show_down: "marks_fit M (to_showdown st)"
    using pots assms(4) by (intro marks_kept[OF to_showdown_same assms(4)]) (auto simp: to_showdown_def marks_fit_def)
  have entered: "marks_fit M (enter_phase ph (calculateSidePots st))" for ph
    using pots assms(4) sb
    by (intro marks_kept[OF same_table_trans[OF calculateSidePots_same enter_phase_same] assms(4)])
       (auto simp: enter_phase_def Let_def fits_def mult.commute)
  have computed: "marks_fit M (calculateSidePots st)"
    using pots assms(4) by (intro marks_kept[OF calculateSidePots_same assms(4)]) (auto simp: marks_fit_def)
  show next_phase: "marks_fit M (nextPhase st)" using entered computed assms(4) by (simp add: nextPhase_def Let_def)
  have "marks_fit M (st\<lparr>currentTurnSeatIndex := t\<rparr>)" for t using assms(4) by (simp add: marks_fit_def)
  then show "marks_fit M (after_action b st)" using show_down next_phase by (simp add: after_action_def Let_def)
qed

lemma hand_turn: "hand_inv st \<Longrightarrow> length (players st) = 9 \<Longrightarrow> -1 \<le> currentTurnSeatIndex st \<and> currentTurnSeatIndex st < 9"
  by (auto simp: hand_inv_def active_at_def split: if_splits option.splits dest!: seat_bounds)

lemma hand_fits:
  assumes "hand_inv st'" "same_table st st'" "state_fits M st" "total_chips st' \<le> M" "marks_fit M st'"
  shows "state_fits M st'"
  using assms persons_same[OF assms(2)] hand_turn[OF assms(1)] persons_length clock_same[OF assms(2)] hand_money(1)
  by (auto simp: state_fits_def hand_inv_def)

lemma act_fits:
  assumes "table_inv st" "state_fits M st" "total_chips st \<le> M" "act i a r st = (Inr True, st')"
  shows "state_fits M st' \<and> total_chips st' = total_chips st"
proof -
  have total: "total_chips st' = total_chips st" using chip_neutral_total[OF act_neutral[of st i a r]] assms(4) by simp
  have "betting st" using assms(4) by (auto simp: act_def betting_def split: option.splits if_splits)
  then have e: "engine_inv st" using assms(1) by (rule table_engine[rotated])
  have same: "same_table st st'" using act_same[of st i a r] assms(4) by simp
  have inv: "seats_ok st" "pot st = contributions st" using e by (auto simp: engine_inv_def hand_inv_def)
  have fit: "marks_fit M st" "persons_fit st" using assms(2) by (auto simp: state_fits_def)
  obtain p st1 where p: "seat st i = Some p" and st1: "apply_action i p a r st = Inr (Some st1)"
    and st': "st' = after_action (currentTurnSeatIndex st = i) st1"
    using assms(4) by (auto simp: act_def split: option.splits if_splits sum.splits)
  have ok1: "seats_ok st1" by (rule apply_action_ok[OF inv(1) p st1])
  have total1: "total_chips st1 = total_chips st" "pot st1 = contributions st1"
    using apply_action_neutral[OF st1] chip_neutral_total chip_neutral_pot inv(2) by blast+
  have "marks_fit M st1" by (rule apply_marks[OF inv assms(3) fit(1) p st1])
  moreover have "contributions st1 \<le> M" using hand_money(3)[OF ok1 total1(2)] total1(1) assms(3) by simp
  moreover have "0 \<le> totalContributed q" if "q \<in> set (occupants (players st1))" for q
    using ok1 occupant_seat[OF that] by (force simp: seats_ok_def player_ok_def)
  ultimately have "marks_fit M st'" unfolding st' using fit(2) persons_same[OF apply_action_same[OF st1]] by (intro decided_marks) auto
  moreover have "hand_inv st'" using act_inv[OF e, of i a r] assms(4) by (simp add: engine_inv_def)
  ultimately show ?thesis using hand_fits[OF _ same assms(2)] total assms(3) by auto
qed

section \<open>Between the hands\<close>

lemma ante_fold: "sidePots (fold (pay_ante_seat amt) xs st) = sidePots st"
proof (induction xs arbitrary: st)
  case (Cons i xs)
  have "sidePots (pay_ante_seat amt i st) = sidePots st"
    by (simp add: pay_ante_seat_def put_seat_def Let_def split: option.split)
  then show ?case using Cons by simp
qed simp

lemma start_fits:
  assumes inv: "table_inv st" "phase st = WAITING" and fit: "state_fits M st" "total_chips st \<le> M"
    and blinds: "0 < b" "2 * b \<le> M" "fits M a" and ok: "startPreFlop (st\<lparr>smallBlind := b, ante := a\<rparr>) = Inr st'"
  shows "state_fits M st' \<and> total_chips st' = total_chips st"
proof -
  let ?st = "st\<lparr>smallBlind := b, ante := a\<rparr>"
  have ready: "table_ready ?st" using inv blinds by (auto simp: table_ready_def table_inv_def seat_def button_ok_def fits_def)
  have hand: "hand_inv st'" using startPreFlop_inv[OF ready ok] by (simp add: engine_inv_def)
  have same: "same_table ?st st'" by (rule startPreFlop_same[OF ok])
  have "total_chips st' = total_chips ?st" by (rule chip_neutral_total[OF startPreFlop_neutral[OF ok]])
  then have total: "total_chips st' = total_chips st" by (simp add: total_chips_def stacks_def)
  have fit': "state_fits M ?st" using fit(1) blinds
    by (auto simp: state_fits_def money_fits_def marks_fit_def pots_fit_def persons_fit_def clock_fits_def fits_def seat_def ids_def seat_numbers_def)
  obtain btn sb bb where deal: "st' = deal_hand btn sb bb ?st" using startPreFlop_Inr[OF ok] by metis
  define st2 where "st2 = (if ante ?st > 0 then payAnte (ante ?st) (?st\<lparr>buttonUser := btn\<rparr>) else ?st\<lparr>buttonUser := btn\<rparr>)"
  define st5 where "st5 = (let st3 = payBlind sb bb (smallBlind st2) st2;
       st4 = st3\<lparr>currentBet := smallBlind st3 * 2, lastRaiseSize := Some (smallBlind st3 * 2)\<rparr>
     in st4\<lparr>currentTurnSeatIndex := findNextActiveSeat st4 (next_seat st4 bb), phase := PRE_FLOP\<rparr>)"
  have dealt: "st' = (if shouldGoToShowdown st5 then to_showdown st5 else st5)"
    by (simp add: deal deal_hand_def st2_def st5_def Let_def)
  have antes: "same_table x (fold (pay_ante_seat amt) xs x)" for x amt xs by (rule same_table_fold) (rule pay_ante_seat_same)
  have "same_table (?st\<lparr>buttonUser := btn\<rparr>) st2" unfolding st2_def payAnte_def by (simp add: antes)
  then have s2: "smallBlind st2 = b" by (simp add: same_table_def)
  have f5: "currentBet st5 = 2 * b" "lastRaiseSize st5 = Some (2 * b)" "sidePots st5 = sidePots st"
    by (simp_all add: st5_def Let_def payBlind_def s2) (simp add: st2_def payAnte_def ante_fold)
  have players: "occupants (players st5) = occupants (players st')" "contributions st5 = contributions st'"
    by (simp_all add: dealt to_showdown_def contributions_def)
  have facts: "seats_ok st'" "pot st' = contributions st'" using hand by (auto simp: hand_inv_def)
  have same5: "same_table ?st st5"
    using same unfolding dealt to_showdown_def by (auto simp: same_table_def ids_def seat_numbers_def calculateSidePots_def Let_def split: if_splits)
  have marks5: "marks_fit M st5"
    using fit' f5 blinds same5 by (simp add: state_fits_def marks_fit_def pots_fit_def same_table_def fits_def)
  have "marks_fit M (to_showdown st5)"
  proof (rule decided_marks(1)[OF _ _ _ marks5])
    show "0 \<le> totalContributed p" if "p \<in> set (occupants (players st5))" for p
      using that facts(1) occupant_seat[of p st'] players(1) by (force simp: seats_ok_def player_ok_def)
    show "contributions st5 \<le> M" using hand_money(3)[OF facts] total fit(2) players(2) by simp
    show "persons_fit st5" using fit' persons_same[OF same5] by (simp add: state_fits_def)
  qed
  then have "marks_fit M st'" using marks5 by (simp add: dealt)
  then show ?thesis using hand_fits[OF hand same fit'] total fit(2) by simp
qed

text \<open>A settlement adds to stacks and leaves bets and contributions as the refund left them.\<close>

definition gains :: "table_state \<Rightarrow> table_state \<Rightarrow> bool" where
  "gains a b \<longleftrightarrow> (\<forall>i q. seat b i = Some q \<longrightarrow> (\<exists>p. seat a i = Some p \<and> stack p \<le> stack q \<and> bet q = bet p \<and> totalContributed q = totalContributed p))
     \<and> currentBet b = currentBet a \<and> lastRaiseSize b = lastRaiseSize a \<and> currentTurnSeatIndex b = currentTurnSeatIndex a"

lemma gains_refl: "gains a a"
  by (auto simp: gains_def)

lemma gains_trans: "gains a b \<Longrightarrow> gains b c \<Longrightarrow> gains a c"
  unfolding gains_def by (smt (verit, best))

lemma gains_give:
  assumes "0 \<le> n"
  shows "gains st (give_chips i n st)"
proof (cases "seat st i")
  case (Some p)
  then show ?thesis using assms unfolding gains_def give_chips_def by (auto simp: seat_put_seat)
qed (simp add: give_chips_def gains_refl)

lemma gains_order: "0 \<le> share \<Longrightarrow> gains st (pay_order share remainder order st)"
proof (induction order arbitrary: remainder st)
  case (Cons s order)
  have "gains st (give_chips s (share + (if remainder > 0 then 1 else 0)) st)" using Cons.prems by (intro gains_give) simp
  then show ?case using Cons by (simp add: Let_def gains_trans)
qed (simp add: gains_refl)

lemma gains_split: "0 \<le> amt \<Longrightarrow> gains st (splitPot amt ws st)"
  unfolding splitPot_def Let_def by (auto intro!: gains_refl gains_order div_int_pos_iff[THEN iffD2])

lemma gains_claims: "(\<And>sp. sp \<in> set pots \<Longrightarrow> 0 \<le> potAmount sp) \<Longrightarrow> gains st (pay_claims ranked pots st)"
  unfolding pay_claims_def
proof (induction pots arbitrary: st)
  case (Cons sp pots)
  have "gains st (case claim_of ranked sp of None \<Rightarrow> st | Some ws \<Rightarrow> splitPot (potAmount sp) ws st)"
    using Cons.prems by (auto intro: gains_refl gains_split split: option.split)
  then show ?case using Cons by (auto intro: gains_trans)
qed (simp add: gains_refl)

lemma refund_money:
  assumes "seats_ok st" "seat (refundUncalledBets st) i = Some q"
  shows "\<exists>p. seat st i = Some p \<and> stack p \<le> stack q \<and> bet q = bet p \<and> 0 \<le> totalContributed q \<and> totalContributed q \<le> totalContributed p"
proof (cases rule: refund_cases[of st])
  case same
  then show ?thesis using assms by (auto simp: seats_ok_def player_ok_def) (smt (verit) assms(2))
next
  case (refund j p s rest)
  then have "seat (refundUncalledBets st) k
      = (if k = j then Some (p\<lparr>stack := stack p + (totalContributed p - s), totalContributed := s\<rparr>) else seat st k)" for k
    by (simp add: seat_put_seat)
  then show ?thesis using assms refund(1-3) unfolding seats_ok_def player_ok_def by (cases "i = j") (force)+
qed

lemma refund_marks: "currentBet (refundUncalledBets st) = currentBet st" "lastRaiseSize (refundUncalledBets st) = lastRaiseSize st"
  "currentTurnSeatIndex (refundUncalledBets st) = currentTurnSeatIndex st"
  by (cases rule: refund_cases[of st]; simp)+

lemma settle_fits:
  assumes "table_inv st" "state_fits M st" "total_chips st \<le> M" "resolveWinner ranked st = (Inr x, st')"
  shows "state_fits M st' \<and> total_chips st' \<le> total_chips st"
proof -
  define st1 where "st1 = refundUncalledBets st"
  define st2 where "st2 = calculateSidePots st1"
  have ok: "resolveWinner ranked st = (Inr (), st')" using assms(4) by simp
  note r = resolveWinner_ok[OF ok, folded st1_def]
  have hand: "seats_ok st" "pot st = contributions st" using assms(1) r(1) by (auto simp: table_inv_def hand_inv_def)
  have same: "same_table st st'" by (rule resolveWinner_same[OF ok])
  have m1: "\<exists>p. seat st i = Some p \<and> stack p \<le> stack q \<and> bet q = bet p \<and> 0 \<le> totalContributed q \<and> totalContributed q \<le> totalContributed p"
    if "seat st1 i = Some q" for i q using refund_money[OF hand(1)] that by (simp add: st1_def)
  have pos: "\<forall>p\<in>set (occupants (players st1)). 0 \<le> totalContributed p" using m1 occupant_seat by metis
  have c1: "contributions st1 = pot st1" "total_chips st1 = total_chips st"
    using chip_neutral_pot[OF refund_moves hand(2)] chip_neutral_total[OF refund_moves] by (simp_all add: st1_def)
  have nonneg: "0 \<le> contributions st1" unfolding contributions_def sum_slots_def using pos by (intro sum_list_nonneg) auto
  have "sum_list (map potAmount (sidePots st2)) \<le> contributions st1"
    using calculateSidePots_sum[OF pos] calculateSidePots_none[of st1] nonneg by (cases "live_contributor st1") (simp_all add: st2_def)
  then have stacks: "stacks st' \<le> total_chips st" using r(4) c1 by (simp add: total_chips_def st2_def)
  have total: "total_chips st' \<le> total_chips st" using stacks r(3) by (simp add: total_chips_def)
  have contr_M: "contributions st1 \<le> M"
  proof -
    have "0 \<le> stack p" if "p \<in> set (occupants (players st1))" for p
      using m1 occupant_seat[OF that] hand(1) unfolding seats_ok_def player_ok_def by (metis order_trans)
    then have "0 \<le> stacks st1" unfolding stacks_def sum_slots_def by (intro sum_list_nonneg) auto
    then show ?thesis using c1 assms(3) by (simp add: total_chips_def)
  qed
  have persons1: "persons_fit st1" using assms(2) persons_same[OF refund_same_table[of st]] by (simp add: st1_def state_fits_def)
  have pots: "0 \<le> potAmount sp" if "sp \<in> set (sidePots st2)" for sp
    using computed_pots_fit[OF _ contr_M persons1] pos that by (auto simp: st2_def pots_fit_def fits_def)
  define st3 where "st3 = pay_claims ranked (sidePots st2) st2"
  have st': "st' = resetStatus (st3\<lparr>pot := 0, sidePots := [], phase := HAND_END\<rparr>)"
    using ok by (auto simp: resolveWinner_def Let_def st1_def st2_def st3_def split: if_splits)
  have g: "gains st2 st3" unfolding st3_def by (rule gains_claims[OF pots])
  have seat_st': "seat st' i = map_option (\<lambda>p. p\<lparr>hasFolded := False, hasChecked := False, isAllIn := False\<rparr>) (seat st3 i)" for i
    by (simp add: st' resetStatus_def seat_def slot_map)
  have money: "0 \<le> stack q \<and> fits M (bet q) \<and> fits M (totalContributed q)" if q: "seat st' i = Some q" for i q
  proof -
    obtain q3 where q3: "seat st3 i = Some q3" "stack q = stack q3" "bet q = bet q3" "totalContributed q = totalContributed q3"
      using q seat_st'[of i] by (cases "seat st3 i") auto
    obtain q2 where q2: "seat st1 i = Some q2" "stack q2 \<le> stack q3" "bet q3 = bet q2" "totalContributed q3 = totalContributed q2"
      using g q3(1) unfolding gains_def st2_def by (auto simp: seat_def)
    obtain p where p: "seat st i = Some p" "stack p \<le> stack q2" "bet q2 = bet p" "0 \<le> totalContributed q2" "totalContributed q2 \<le> totalContributed p"
      using m1[OF q2(1)] by blast
    have "0 \<le> stack p" using hand(1) p(1) by (auto simp: seats_ok_def player_ok_def)
    moreover have "fits M (bet p)" "fits M (totalContributed p)" using hand_money(1)[OF hand assms(3)] p(1) by (auto simp: money_fits_def)
    ultimately show ?thesis using q3 q2 p by (simp add: fits_def)
  qed
  have "stack q \<le> M" if "seat st' i = Some q" for i q
    using seat_le_sum[OF that, of stack] money occupant_seat stacks assms(3) unfolding stacks_def by (metis order_trans)
  moreover have "0 \<le> M" using assms(2) by (auto simp: state_fits_def money_fits_def fits_def)
  ultimately have "money_fits M st'" using money r(3) by (auto simp: money_fits_def fits_def)
  moreover have f: "currentBet st' = currentBet st" "lastRaiseSize st' = lastRaiseSize st"
      "currentTurnSeatIndex st' = currentTurnSeatIndex st" "sidePots st' = []"
    using g refund_marks by (simp_all add: st' resetStatus_def gains_def st2_def calculateSidePots_def st1_def Let_def)
  then have "marks_fit M st'" using assms(2) same
    by (simp add: state_fits_def marks_fit_def pots_fit_def same_table_def)
  moreover have "clock_fits M st'"
    by (rule clock_same[OF same]) (use assms(2) f(3) in \<open>simp_all add: state_fits_def clock_fits_def\<close>)
  ultimately show ?thesis using assms(2) persons_same[OF same] total by (simp add: state_fits_def)
qed

section \<open>Seats, rebuys and marks\<close>

lemma fits_clock [simp]:
  "money_fits M (st\<lparr>timerEpoch := e\<rparr>) = money_fits M st" "money_fits M (st\<lparr>actionDeadline := d\<rparr>) = money_fits M st"
  "money_fits M (st\<lparr>resumePending := q\<rparr>) = money_fits M st" "money_fits M (st\<lparr>dbSyncStatus := b\<rparr>) = money_fits M st"
  "money_fits M (st\<lparr>rebuyPending := r\<rparr>) = money_fits M st" "money_fits M (st\<lparr>buttonUser := i\<rparr>) = money_fits M st"
  "marks_fit M (st\<lparr>timerEpoch := e\<rparr>) = marks_fit M st" "marks_fit M (st\<lparr>actionDeadline := d\<rparr>) = marks_fit M st"
  "marks_fit M (st\<lparr>resumePending := q\<rparr>) = marks_fit M st" "marks_fit M (st\<lparr>dbSyncStatus := b\<rparr>) = marks_fit M st"
  "marks_fit M (st\<lparr>rebuyPending := r\<rparr>) = marks_fit M st" "marks_fit M (st\<lparr>buttonUser := i\<rparr>) = marks_fit M st"
  "marks_fit M (st\<lparr>players := ps\<rparr>) = marks_fit M st"
  "persons_fit (st\<lparr>timerEpoch := e\<rparr>) = persons_fit st" "persons_fit (st\<lparr>actionDeadline := d\<rparr>) = persons_fit st"
  "persons_fit (st\<lparr>resumePending := q\<rparr>) = persons_fit st" "persons_fit (st\<lparr>dbSyncStatus := b\<rparr>) = persons_fit st"
  "persons_fit (st\<lparr>rebuyPending := r\<rparr>) = persons_fit st" "persons_fit (st\<lparr>buttonUser := i\<rparr>) = persons_fit st"
  "total_chips (st\<lparr>timerEpoch := e\<rparr>) = total_chips st" "total_chips (st\<lparr>actionDeadline := d\<rparr>) = total_chips st"
  "total_chips (st\<lparr>resumePending := q\<rparr>) = total_chips st" "total_chips (st\<lparr>dbSyncStatus := b\<rparr>) = total_chips st"
  "total_chips (st\<lparr>rebuyPending := r\<rparr>) = total_chips st" "total_chips (st\<lparr>buttonUser := i\<rparr>) = total_chips st"
  by (simp_all add: money_fits_def marks_fit_def pots_fit_def persons_fit_def seat_def ids_def seat_numbers_def total_chips_def stacks_def)

lemma sum_slots_replace:
  "n < length xs \<Longrightarrow> sum_slots f (xs[n := s])
     = sum_slots f xs - (case xs ! n of None \<Rightarrow> 0 | Some p \<Rightarrow> f p) + (case s of None \<Rightarrow> 0 | Some p \<Rightarrow> f p)"
proof (induction xs arbitrary: n)
  case (Cons x xs)
  then show ?case by (cases n) (auto simp: sum_slots_def split: option.splits)
qed simp

lemma total_set_seat:
  assumes "money_fits M st"
  shows "total_chips (set_seat i sp st) \<le> total_chips st + (case sp of None \<Rightarrow> 0 | Some p \<Rightarrow> max 0 (stack p))"
proof (cases "nat i < length (players st)")
  case True
  have "0 \<le> (case players st ! nat i of None \<Rightarrow> 0 | Some p \<Rightarrow> stack p)"
  proof (cases "players st ! nat i")
    case (Some p)
    then have "seat st (int (nat i)) = Some p" using True unfolding seat_def slot_def nat_int by (auto simp: nat_less_iff)
    then show ?thesis using assms Some by (auto simp: money_fits_def fits_def)
  qed simp
  then show ?thesis using True by (auto simp: total_chips_def stacks_def set_seat_def sum_slots_replace split: option.splits)
qed (auto simp: set_seat_def total_chips_def stacks_def list_update_beyond split: option.splits)

lemma seat_set_seat_cases: "seat (set_seat i sp st) j = Some p \<Longrightarrow> sp = Some p \<or> seat st j = Some p"
  by (cases "nat i = nat j") (auto simp: seat_def set_seat_def slot_def split: if_splits)

lemma set_seat_fits:
  assumes "state_fits M st"
    and "case sp of None \<Rightarrow> True | Some p \<Rightarrow> fits M (stack p) \<and> fits M (bet p) \<and> fits M (totalContributed p)
           \<and> player_id p \<noteq> [] \<and> 0 \<le> seatIndex p \<and> seatIndex p < 9"
  shows "state_fits M (set_seat i sp st)"
proof -
  have "money_fits M (set_seat i sp st)"
    using assms seat_set_seat_cases[of i sp st] unfolding state_fits_def money_fits_def by (auto split: option.splits)
  moreover have i: "ids (set_seat i sp st) = (ids st)[nat i := map_option player_id sp]"
    "seat_numbers (set_seat i sp st) = (seat_numbers st)[nat i := map_option seatIndex sp]"
    by (simp_all add: ids_def seat_numbers_def set_seat_def map_update)
  have "persons_fit (set_seat i sp st)"
    using assms set_update_subset_insert[of "ids st" "nat i" "map_option player_id sp"]
      set_update_subset_insert[of "seat_numbers st" "nat i" "map_option seatIndex sp"]
    unfolding state_fits_def persons_fit_def i list_all_iff by (auto split: option.splits)
  moreover have "marks_fit M (set_seat i sp st)" "clock_fits M (set_seat i sp st)"
    using assms(1) by (simp_all add: state_fits_def set_seat_def clock_fits_def)
  ultimately show ?thesis by (simp add: state_fits_def)
qed

lemma clear_fits:
  assumes "state_fits M st"
  shows "state_fits M (fold (\<lambda>(i, u). set_seat i None) seats st)
    \<and> total_chips (fold (\<lambda>(i, u). set_seat i None) seats st) \<le> total_chips st"
  using assms
proof (induction seats arbitrary: st)
  case (Cons x xs)
  obtain i u where x: "x = (i, u)" by fastforce
  have "state_fits M (set_seat i None st)" using set_seat_fits[OF Cons.prems] by simp
  moreover have "total_chips (set_seat i None st) \<le> total_chips st"
    using total_set_seat[of M st i None] Cons.prems by (simp add: state_fits_def)
  ultimately show ?case using Cons.IH[of "set_seat i None st"] by (simp add: x)
qed simp

lemma in_map_option: "Some u \<in> set (map (map_option f) xs) \<longleftrightarrow> (\<exists>p. Some p \<in> set xs \<and> f p = u)"
  unfolding set_map image_iff by (metis map_option_eq_Some)

lemma init_fits:
  assumes "state_fits M st"
  shows "state_fits M (initTable st) \<and> total_chips (initTable st) \<le> total_chips st"
proof -
  have M: "0 \<le> M" "0 \<le> pot st" using assms by (auto simp: state_fits_def money_fits_def fits_def)
  have s: "seat (initTable st) i = init_seat (seat st i)" for i
    by (auto simp: seat_def slot_def initTable_def init_seat_def[of None])
  have "money_fits M (initTable st)" using assms M unfolding money_fits_def
    by (auto simp: s init_seat_Some state_fits_def money_fits_def fits_def) (simp_all add: initTable_def)
  moreover have "marks_fit M (initTable st)"
    using assms M by (simp add: state_fits_def marks_fit_def initTable_def pots_fit_def fits_def)
  moreover have kept: "\<exists>q. Some q \<in> set (players st) \<and> player_id q = player_id p \<and> seatIndex q = seatIndex p"
    if q: "Some p \<in> set (players (initTable st))" for p
  proof -
    obtain x where "x \<in> set (players st)" "init_seat x = Some p"
      using q unfolding initTable_def by (simp add: image_iff) metis
    then show ?thesis by (auto simp: init_seat_Some)
  qed
  have "Some u \<in> set (ids st)" if "Some u \<in> set (ids (initTable st))" for u
    using that kept unfolding ids_def in_map_option by metis
  moreover have "Some n \<in> set (seat_numbers st)" if "Some n \<in> set (seat_numbers (initTable st))" for n
    using that kept unfolding seat_numbers_def in_map_option by metis
  then have "persons_fit (initTable st)" using assms calculation
    unfolding state_fits_def persons_fit_def list_all_iff by (fastforce simp: ids_def initTable_def split: option.splits)
  moreover have "clock_fits M (initTable st)" using assms by (simp add: state_fits_def clock_fits_def initTable_def)
  ultimately have fit: "state_fits M (initTable st)" by (simp add: state_fits_def)
  have cleared: "sum_slots stack (map init_seat xs) \<le> sum_slots stack xs" if "\<And>p. Some p \<in> set xs \<Longrightarrow> 0 \<le> stack p" for xs
    using that
  proof (induction xs)
    case (Cons x xs)
    then have "sum_slots stack (map init_seat xs) \<le> sum_slots stack xs" by simp
    moreover have "0 \<le> stack p" if "x = Some p" for p using Cons.prems[of p] that by simp
    ultimately show ?case by (cases x) (simp_all add: sum_slots_def init_seat_def[of None] init_seat_def[of "Some _"])
  qed simp
  have "0 \<le> stack p" if "Some p \<in> set (players st)" for p
    using assms occupant_seat[of p st] that by (auto simp: set_occupants state_fits_def money_fits_def fits_def)
  then have "stacks (initTable st) \<le> stacks st" using cleared[of "players st"] by (simp add: stacks_def initTable_def)
  then show ?thesis using fit M by (simp add: total_chips_def) (simp add: initTable_def)
qed

lemma stack_le_total: "money_fits M st \<Longrightarrow> seat st i = Some p \<Longrightarrow> stack p \<le> total_chips st"
  using seat_le_sum[of st i p stack] occupant_seat[of _ st] unfolding money_fits_def fits_def total_chips_def stacks_def by (smt (verit))

lemma put_stack_fits:
  assumes "state_fits M st" "seat st i = Some p" "player_id q = player_id p" "seatIndex q = seatIndex p"
    and "fits M (stack q)" "fits M (bet q)" "totalContributed q = totalContributed p"
  shows "state_fits M (put_seat i q st) \<and> total_chips (put_seat i q st) = total_chips st - stack p + stack q"
proof -
  have same: "same_table st (put_seat i q st)" by (rule same_table_put[OF same_table_refl assms(2-4)])
  have "money_fits M (put_seat i q st)"
    using assms by (auto simp: state_fits_def money_fits_def seat_put_seat[OF assms(2)])
  moreover have "marks_fit M (put_seat i q st)"
    by (rule marks_untouched[OF same]) (use assms(1) in \<open>simp_all add: state_fits_def\<close>)
  moreover have "clock_fits M (put_seat i q st)"
    by (rule clock_same[OF same]) (use assms(1) in \<open>simp_all add: state_fits_def clock_fits_def\<close>)
  ultimately show ?thesis using assms(1) persons_same[OF same] put_seat_sums[OF assms(2), of q] by (simp add: state_fits_def total_chips_def)
qed

section \<open>The machine\<close>

definition time_fits :: "int \<Rightarrow> int \<Rightarrow> bool" where
  "time_fits M now \<longleftrightarrow> - M \<le> now \<and> now + TURN_TIMEOUT_MS \<le> M"

text \<open>What the callers hand over: times within the safe integers, blinds from a valid structure, ids of users.\<close>

fun typed_event :: "int \<Rightarrow> table_event \<Rightarrow> bool" where
  "typed_event M (PlayerAction removed now u a amt) = time_fits M now"
| "typed_event M (JobFires dealerAlive now e) = time_fits M now"
| "typed_event M (StartHand removed now blind) = (time_fits M now \<and> (case blind of None \<Rightarrow> True | Some (_, level) \<Rightarrow> 2 * sb level \<le> M))"
| "typed_event M (DealerActs removed now u kick) = time_fits M now"
| "typed_event M (Resume removed now) = time_fits M now"
| "typed_event M (BootPause d) = fits M d"
| "typed_event M (RedisRecovered sameOutage d) = fits M d"
| "typed_event M (LinePaused d) = fits M d"
| "typed_event M (RebuyPending us deadline) = (- M \<le> deadline \<and> deadline \<le> M)"
| "typed_event M (RebuyInterrupted d reason) = fits M d"
| "typed_event M (SeatClaimed t tb i u nick chips) = (u \<noteq> [])"
| "typed_event M _ = True"

text \<open>The chips an event brings to the table.\<close>

fun brought :: "table_event \<Rightarrow> int" where
  "brought (SeatClaimed t tb i u nick chips) = max 0 chips"
| "brought (RebuyChips u amt) = max 0 amt"
| "brought _ = 0"

lemma brought_nonneg: "0 \<le> brought e"
  by (cases e) simp_all

definition service_fits :: "int \<Rightarrow> int \<Rightarrow> table_service \<Rightarrow> bool" where
  "service_fits M B s \<longleftrightarrow> (\<exists>st. svState s = Some st \<and> state_fits M st \<and> total_chips st \<le> B)"

lemma service_fitsI: "svState s = Some st \<Longrightarrow> state_fits M st \<Longrightarrow> total_chips st \<le> B \<Longrightarrow> service_fits M B s"
  by (auto simp: service_fits_def)

lemma service_fits_mono: "service_fits M B s \<Longrightarrow> B \<le> C \<Longrightarrow> service_fits M C s"
  unfolding service_fits_def by (meson order_trans)

lemma service_fits_state [simp]:
  "service_fits M B (s\<lparr>svKicked := k\<rparr>) = service_fits M B s" "service_fits M B (s\<lparr>svJobs := j\<rparr>) = service_fits M B s"
  "service_fits M B (s\<lparr>svUp := b\<rparr>) = service_fits M B s" "service_fits M B (s\<lparr>svLineDown := b\<rparr>) = service_fits M B s"
  "service_fits M B (s\<lparr>svPauseDue := b\<rparr>) = service_fits M B s"
  by (simp_all add: service_fits_def)

lemma put_fits: "state_fits M st \<Longrightarrow> total_chips st \<le> B \<Longrightarrow> service_fits M B (put_state st s)"
  by (simp add: service_fits_def put_state_def)

lemma schedule_fits:
  assumes "state_fits M st" "total_chips st \<le> B" "time_fits M now" "0 \<le> M"
  shows "service_fits M B (schedule removed now st s)"
proof (rule service_fitsI)
  let ?st1 = "st\<lparr>timerEpoch := Some (epoch st + 1)\<rparr>"
  let ?d = "if turnOwner ?st1 = None then None else Some (now + TURN_TIMEOUT_MS)"
  show "svState (schedule removed now st s) = Some (?st1\<lparr>actionDeadline := ?d\<rparr>)"
    by (simp add: schedule_def scheduleTurnTimeout_def Let_def split: option.split)
  show "state_fits M (?st1\<lparr>actionDeadline := ?d\<rparr>)"
    using assms(1,3,4) by (simp add: state_fits_def clock_fits_def time_fits_def TURN_TIMEOUT_MS_def)
qed (use assms(2) in simp)

lemma fits_nonneg: "state_fits M st \<Longrightarrow> 0 \<le> M"
  by (auto simp: state_fits_def money_fits_def fits_def)

lemma acted_fits:
  assumes "table_inv st" "state_fits M st" "total_chips st \<le> B" "B \<le> M" "act i a r st = (Inr True, st')" "time_fits M now"
  shows "service_fits M B (schedule removed now st' s')"
  using act_fits[OF assms(1,2) _ assms(5)] assms fits_nonneg[OF assms(2)] by (intro schedule_fits) auto

lemma action_fits:
  assumes "service_inv s" "service_fits M B s" "B \<le> M" "time_fits M now"
  shows "service_fits M B (snd (handleAction removed now u a amt expected s))"
proof (cases rule: handleAction_cases[of removed now u a amt expected s])
  case (acted st st' i b r)
  then have "table_inv st" using assms(1) by (simp add: service_stays service_ok_def)
  then show ?thesis using acted_fits[of st M B i b r st' now removed s] assms(2-4) acted by (auto simp: service_fits_def[of M B s])
qed (use assms(2) in simp)

lemma fire_fits:
  assumes "service_inv s" "service_fits M B s" "B \<le> M" "time_fits M now"
  shows "service_fits M B (fire_job dealerAlive now e s)"
  using assms(2) action_fits[OF assms, of False]
  by (auto simp: fire_job_def process_def forget_job_def split: option.split)

lemma started_fits:
  assumes "service_inv s" "service_fits M B s" "B \<le> M" "time_fits M now"
    and "\<And>x level. blind = Some (x, level) \<Longrightarrow> 0 < sb level \<and> 2 * sb level \<le> M"
  shows "service_fits M B (snd (dealer_startPreFlop removed now blind s))"
proof -
  obtain st where st: "svState s = Some st" "state_fits M st" "total_chips st \<le> B" using assms(2) by (auto simp: service_fits_def)
  have inv: "table_inv st" using assms(1) st(1) by (simp add: service_stays service_ok_def)
  have "service_fits M B (schedule removed now st' s)"
    if "blind = Some (x, level)" "phase st = WAITING"
      "startPreFlop (st\<lparr>smallBlind := sb level, ante := deriveAnteAmount (sb level) (hasAnte level)\<rparr>) = Inr st'" for x level st'
  proof -
    have b: "0 < sb level" "2 * sb level \<le> M" using assms(5)[OF that(1)] by auto
    then have "fits M (deriveAnteAmount (sb level) (hasAnte level))" by (auto simp: fits_def deriveAnteAmount_def)
    then show ?thesis using start_fits[OF inv that(2) st(2) _ b _ that(3)] st(3) assms(3,4) fits_nonneg[OF st(2)]
      by (intro schedule_fits) auto
  qed
  then show ?thesis using assms(2) st(1)
    by (auto simp: dealer_startPreFlop_def split: option.splits sum.splits)
qed

lemma dealt_fits:
  assumes "service_inv s" "service_fits M B s" "B \<le> M" "time_fits M now"
  shows "service_fits M B (snd (handleDealerAction removed now u kick s))"
proof -
  obtain st where st: "svState s = Some st" "state_fits M st" "total_chips st \<le> B" using assms(2) by (auto simp: service_fits_def)
  have inv: "table_inv st" using assms(1) st(1) by (simp add: service_stays service_ok_def)
  let ?a = "if kick then DEALER_KICK else DEALER_FOLD"
  have b: "b" if "act (seat_index_of u st) ?a None st = (Inr b, st')" for b st'
    using that by (auto simp: act_def apply_action_def split: option.splits if_splits)
  have "service_fits M B (schedule removed now st' s')" if "act (seat_index_of u st) ?a None st = (Inr b, st')" for b st' s'
    using acted_fits[OF inv st(2,3) assms(3) _ assms(4), of "seat_index_of u st" ?a None st'] that b[OF that] by simp
  then show ?thesis using assms(2) st(1)
    by (auto simp: handleDealerAction_def Let_def split: sum.splits prod.splits)
qed

lemma settled_fits:
  assumes "service_inv s" "service_fits M B s" "B \<le> M"
  shows "service_fits M B (snd (settle_hand gs s))"
proof -
  obtain st where st: "svState s = Some st" "state_fits M st" "total_chips st \<le> B" using assms(2) by (auto simp: service_fits_def)
  have inv: "table_inv st" using assms(1) st(1) by (simp add: service_stays service_ok_def)
  have "service_fits M B (put_state st' s)" if "resolveWinner gs st = (Inr x, st')" for x st'
    using settle_fits[OF inv st(2) _ that] st(3) assms(3) by (intro put_fits) auto
  then show ?thesis using assms(2) st(1) by (auto simp: settle_hand_def split: sum.splits prod.splits)
qed

lemma finished_fits: "service_fits M B s \<Longrightarrow> service_fits M B (snd (finishHand s))"
proof -
  assume s: "service_fits M B s"
  then obtain st where st: "svState s = Some st" "state_fits M st" "total_chips st \<le> B" by (auto simp: service_fits_def)
  have "state_fits M (st\<lparr>dbSyncStatus := None, rebuyPending := None\<rparr>)" using st(2) by (simp add: state_fits_def clock_fits_def)
  from init_fits[OF this] have "service_fits M B (put_state (initTable (st\<lparr>dbSyncStatus := None, rebuyPending := None\<rparr>)) s)"
    using st(3) by (intro put_fits) auto
  then show ?thesis using s st(1) by (simp add: finishHand_def Let_def)
qed

lemma marked_fits:
  assumes "service_fits M B s"
  shows "service_fits M B (markDbSyncStatus status s)"
    and "- M \<le> deadline \<Longrightarrow> deadline \<le> M \<Longrightarrow> service_fits M B (markRebuyPending us deadline s)"
    and "fits M d \<Longrightarrow> service_fits M B (snd (markRebuyInterrupted d reason s))"
    and "fits M d \<Longrightarrow> service_fits M B (pauseTable ow lnd same d s)"
    and "service_fits M B (draw_button i s)"
proof -
  obtain st where st: "svState s = Some st" "state_fits M st" "total_chips st \<le> B" using assms by (auto simp: service_fits_def)
  note sf = state_fits_def clock_fits_def
  show "service_fits M B (markDbSyncStatus status s)" "service_fits M B (draw_button i s)"
    using st by (auto simp: markDbSyncStatus_def draw_button_def sf intro!: put_fits)
  have asked: "\<forall>i\<in>set (asked_seats us st). 0 \<le> i \<and> i < 9" for us
    using persons_length[of st] st(2) by (auto simp: asked_seats_def state_fits_def)
  show "service_fits M B (markRebuyPending us deadline s)" if "- M \<le> deadline" "deadline \<le> M"
    using st asked that by (auto simp: markRebuyPending_def Let_def sf intro!: put_fits split: option.split)
  show "service_fits M B (snd (markRebuyInterrupted d reason s))" if "fits M d"
    using st that by (auto simp: markRebuyInterrupted_def sf intro!: put_fits split: option.splits)
  show "service_fits M B (pauseTable ow lnd same d s)" if "fits M d"
    using st that assms by (auto simp: pauseTable_def sf intro!: put_fits split: option.splits)
qed

lemma claimed_fits:
  assumes "service_fits M B s" "free_seat u i s" "0 < chips" "u \<noteq> []" "B + chips \<le> M"
  shows "service_fits M (B + chips) (claimSeat t tb i u nick chips s)"
proof -
  obtain st where st: "svState s = Some st" "state_fits M st" "total_chips st \<le> B" using assms(1) by (auto simp: service_fits_def)
  let ?p = "new_seat u tb nick i chips (phase st)"
  have len: "length (players st) = 9" using persons_length st(2) by (simp add: state_fits_def)
  then have i: "0 \<le> i" "i < 9" using assms(2) st(1) by (auto simp: free_seat_def)
  have money: "money_fits M st" using st(2) by (simp add: state_fits_def)
  have "0 \<le> stacks st" unfolding stacks_def sum_slots_def
    using money occupant_seat[of _ st] by (intro sum_list_nonneg) (fastforce simp: money_fits_def fits_def)
  then have B: "0 \<le> B" using money st(3) by (simp add: money_fits_def fits_def total_chips_def)
  have "state_fits M (set_seat i (Some ?p) st)"
    using i assms(3-5) B fits_nonneg[OF st(2)] by (intro set_seat_fits[OF st(2)]) (simp add: new_seat_def fits_def)
  moreover have "total_chips (set_seat i (Some ?p) st) \<le> B + chips"
    using total_set_seat[OF money, of i "Some ?p"] st(3) assms(3) by (simp add: new_seat_def)
  ultimately have "service_fits M (B + chips) (put_state (set_seat i (Some ?p) st) s')" for s' by (intro put_fits)
  moreover have "service_fits M (B + chips) s" using assms(1,3) by (auto intro: service_fits_mono)
  ultimately show ?thesis using st(1) by (simp add: claimSeat_def Let_def split: option.split)
qed

lemma released_fits: "service_fits M B s \<Longrightarrow> service_fits M B (snd (releaseSeats_snapshot seats s))"
proof -
  assume s: "service_fits M B s"
  then obtain st where st: "svState s = Some st" "state_fits M st" "total_chips st \<le> B" by (auto simp: service_fits_def)
  have "service_fits M B (put_state (fold (\<lambda>(i, u). set_seat i None) seats st) s)"
    using clear_fits[OF st(2), of seats] st(3) by (intro put_fits) auto
  then show ?thesis using s st(1) by (simp add: releaseSeats_snapshot_def)
qed

lemma given_fits:
  assumes "service_fits M B s" "B + max 0 amt \<le> M"
  shows "service_fits M (B + max 0 amt) (snd (give_rebuy u amt s))"
proof -
  obtain st where st: "svState s = Some st" "state_fits M st" "total_chips st \<le> B" using assms(1) by (auto simp: service_fits_def)
  have kept: "service_fits M (B + max 0 amt) s" by (rule service_fits_mono[OF assms(1)]) simp
  have "state_fits M (applyRebuy u amt st) \<and> total_chips (applyRebuy u amt st) \<le> B + max 0 amt"
  proof (cases "0 < amt")
    case True
    show ?thesis
    proof (cases "seat st (seat_index_of u st)")
      case (Some p)
      let ?q = "p\<lparr>stack := stack p + amt, bet := 0, hasFolded := False, isAllIn := False\<rparr>"
      have m: "0 \<le> stack p" "stack p \<le> total_chips st"
        using st(2) Some stack_le_total[OF _ Some] by (auto simp: state_fits_def money_fits_def fits_def)
      have "state_fits M (put_seat (seat_index_of u st) ?q st)
          \<and> total_chips (put_seat (seat_index_of u st) ?q st) = total_chips st - stack p + stack ?q"
        by (rule put_stack_fits[OF st(2) Some]) (use True m st(3) assms(2) in \<open>simp_all add: fits_def\<close>)
      then show ?thesis using True Some st(3) by (simp add: applyRebuy_def)
    qed (use True st in \<open>simp add: applyRebuy_def\<close>)
  qed (use st in \<open>simp add: applyRebuy_def\<close>)
  then show ?thesis using kept st(1) by (auto simp: give_rebuy_def intro: put_fits)
qed

lemma taken_fits:
  assumes "service_fits M B s" "0 < amt"
  shows "service_fits M B (revertRebuy u amt s)"
proof -
  obtain st where st: "svState s = Some st" "state_fits M st" "total_chips st \<le> B" using assms(1) by (auto simp: service_fits_def)
  have "service_fits M B (put_state (put_seat (seat_index_of u st) (p\<lparr>stack := stack p - amt\<rparr>) st) s)"
    if p: "seat st (seat_index_of u st) = Some p" "\<not> stack p < amt" for p
  proof -
    have m: "fits M (stack p)" "fits M (bet p)" using st(2) p(1) by (auto simp: state_fits_def money_fits_def)
    have "state_fits M (put_seat (seat_index_of u st) (p\<lparr>stack := stack p - amt\<rparr>) st)
        \<and> total_chips (put_seat (seat_index_of u st) (p\<lparr>stack := stack p - amt\<rparr>) st) = total_chips st - stack p + stack (p\<lparr>stack := stack p - amt\<rparr>)"
      by (rule put_stack_fits[OF st(2) p(1)]) (use m p(2) assms(2) in \<open>simp_all add: fits_def\<close>)
    then show ?thesis using st(3) assms(2) by (intro put_fits) auto
  qed
  then show ?thesis using assms(1) st(1) by (auto simp: revertRebuy_def split: option.split)
qed

lemma step_fits:
  assumes "service_inv s" "service_fits M B s" "typed_event M e" "B + brought e \<le> M"
  shows "service_fits M (B + brought e) (table_step s e)"
proof -
  have B: "B \<le> M" using assms(4) brought_nonneg[of e] by linarith
  note each = action_fits[OF assms(1,2) B] fire_fits[OF assms(1,2) B] started_fits[OF assms(1,2) B] dealt_fits[OF assms(1,2) B]
    settled_fits[OF assms(1,2) B] finished_fits[OF assms(2)] marked_fits[OF assms(2)] released_fits[OF assms(2)]
    taken_fits[OF assms(2)]
  show ?thesis
  proof (cases e)
    case (StartHand removed now blind)
    then show ?thesis using assms(2,3) each(3)[of now blind removed] by (auto split: option.splits)
  next
    case (RetryCheckpoint rebuying saving synced)
    then show ?thesis using assms(2) each(6) by (auto simp: retryCheckpoint_def split: option.split)
  next
    case (Resume removed now)
    obtain st where st: "svState s = Some st" "state_fits M st" "total_chips st \<le> B" using assms(2) by (auto simp: service_fits_def)
    have "service_fits M B (schedule removed now (st\<lparr>resumePending := None\<rparr>) s)"
      using st Resume assms(3) fits_nonneg[OF st(2)] by (intro schedule_fits) (auto simp: state_fits_def clock_fits_def)
    then show ?thesis using Resume assms(2) st(1) by (simp add: resumeTable_def)
  next
    case (SeatClaimed t tb i u nick chips)
    have "service_fits M (B + max 0 chips) s" by (rule service_fits_mono[OF assms(2)]) simp
    then show ?thesis using SeatClaimed claimed_fits[OF assms(2), of u i chips t tb nick] assms(3,4) by (auto simp: max_def)
  next
    case (RebuyChips u amt)
    have "service_fits M (B + max 0 amt) s" by (rule service_fits_mono[OF assms(2)]) simp
    then show ?thesis using RebuyChips given_fits[OF assms(2), of amt u] assms(4) by simp
  next
    case (RedisRecovered sameOutage d)
    then show ?thesis using each(10)[of d False False sameOutage] assms(3)
      by (cases sameOutage) (simp_all add: Let_def)
  qed (use assms(2,3) each in \<open>simp_all\<close>)
qed

lemma nobody: "occupants (replicate n None) = []"
  by (induction n) simp_all

lemma run_fits:
  assumes "200 \<le> M" "t \<noteq> []" "list_all (typed_event M) es" "sum_list (map brought es) \<le> M"
  shows "service_fits M (sum_list (map brought es)) (table_run t es)"
  using assms(3,4)
proof (induction es rule: rev_induct)
  case Nil
  have "service_fits M 0 (new_table t)"
    by (rule service_fitsI[of _ "createEmptyTableState t"])
      (use assms(1,2) in \<open>auto simp: new_table_def createEmptyTableState_def state_fits_def money_fits_def marks_fit_def pots_fit_def
        persons_fit_def clock_fits_def fits_def seat_def slot_def ids_def seat_numbers_def SEAT_COUNT_def total_chips_def stacks_def
        sum_slots_def list_all_iff nobody\<close>)
  then show ?case by (simp add: table_run_def)
next
  case (snoc e es)
  have "service_fits M (sum_list (map brought es)) (table_run t es)"
    using snoc brought_nonneg[of e] by simp
  then show ?case using step_fits[of "table_run t es" M "sum_list (map brought es)" e] table_run_inv[of t es] snoc.prems by (simp add: table_run_def)
qed

lemma fits_schema:
  assumes "state_fits 9007199254740991 st" "button_ok st"
  shows "TableStateSchema st"
proof -
  let ?M = "9007199254740991"
  have chips: "chips_field n" if "fits ?M n" for n using that by (simp add: fits_def chips_field_def safe_int_def)
  have len: "length (players st) = 9" and p: "persons_fit st" using persons_length assms(1) by (simp_all add: state_fits_def)
  have "TablePlayerSchema q" if "q \<in> set (occupants (players st))" for q
    using persons_id[OF p that] occupant_seat[OF that] assms(1) chips
    by (auto simp: TablePlayerSchema_def state_fits_def money_fits_def) (simp add: chips_field_def safe_int_def)
  moreover have "safe_int (buttonUser st)" using assms(2) len by (simp add: button_ok_def safe_int_def)
  moreover have "SidePotSchema sp" if "sp \<in> set (sidePots st)" for sp
    using assms(1) that chips by (auto simp: SidePotSchema_def state_fits_def marks_fit_def pots_fit_def list_all_iff)
  moreover have "chips_field (smallBlind st)"
    using assms(1) by (auto simp: state_fits_def marks_fit_def fits_def chips_field_def safe_int_def)
  moreover have "safe_int (currentTurnSeatIndex st)" using assms(1) by (simp add: state_fits_def clock_fits_def safe_int_def)
  moreover have "chips_field (pot st)" "chips_field (currentBet st)" "chips_field (ante st)"
    "case lastRaiseSize st of None \<Rightarrow> True | Some r \<Rightarrow> chips_field r"
    using assms(1) chips by (auto simp: state_fits_def marks_fit_def money_fits_def split: option.split)
  moreover have "case actionDeadline st of None \<Rightarrow> True | Some d \<Rightarrow> safe_int d"
    "case resumePending st of None \<Rightarrow> True | Some r \<Rightarrow> chips_field (downMs r)" "tournamentId st \<noteq> []"
    using assms(1) chips by (auto simp: state_fits_def clock_fits_def safe_int_def split: option.splits)
  moreover have "case rebuyPending st of None \<Rightarrow> True
      | Some r \<Rightarrow> list_all chips_field (seatIndexes r) \<and> seatIndexes r \<noteq> [] \<and> safe_int (rebuyDeadline r)"
    using assms(1) by (fastforce simp: state_fits_def clock_fits_def safe_int_def chips_field_def list_all_iff split: option.splits)
  ultimately show ?thesis unfolding TableStateSchema_def list_all_iff by blast
qed

text \<open>C11. Whatever happens to a table, its snapshot passes the schema of the clients, so no broadcast of it is withheld, and it never
  shows more chips than were brought to the table: provided users and tournament have ids, the times handed over and the
  chips brought in all stay within the safe integers, and so do twice the blinds.\<close>

theorem snapshot_always_sent:
  assumes "t \<noteq> []" "list_all (typed_event 9007199254740991) es" "sum_list (map brought es) \<le> 9007199254740991"
  shows "\<exists>st w. svState (table_run t es) = Some st \<and> toWireState now st = Some w \<and> wtServerTime w = now
    \<and> wtPlayers w = map (map_option wire_seat) (players st)
    \<and> sum_slots wpStack (wtPlayers w) + wtPot w \<le> sum_list (map brought es)"
proof -
  obtain st where st: "svState (table_run t es) = Some st" "state_fits 9007199254740991 st" "total_chips st \<le> sum_list (map brought es)"
    using run_fits[OF _ assms] by (auto simp: service_fits_def)
  have "table_inv st" using table_run_inv[of t es] st(1) by (simp add: service_stays service_ok_def)
  then have "TableStateSchema st" using fits_schema[OF st(2)] by (simp add: table_inv_def)
  moreover have "sum_slots wpStack (map (map_option wire_seat) (players st)) = stacks st"
    by (simp add: sum_slots_def stacks_def wire_seat_def comp_def)
  ultimately show ?thesis using st(1,3) by (simp add: toWireState_def total_chips_def)
qed

theorem snapshot_always_sent_witness:
  "\<exists>w. toWireState 0 (the (svState (table_run ''t'' demo_events))) = Some w \<and> sum_slots wpStack (wtPlayers w) + wtPot w \<le> 15000"
proof -
  have e: "list_all (typed_event 9007199254740991) demo_events" and b: "sum_list (map brought demo_events) = 15000"
    by (simp_all add: demo_events_def demo_seats_def demo_level_def time_fits_def TURN_TIMEOUT_MS_def)
  obtain st w where "svState (table_run ''t'' demo_events) = Some st" "toWireState 0 st = Some w"
    "sum_slots wpStack (wtPlayers w) + wtPot w \<le> sum_list (map brought demo_events)"
    using snapshot_always_sent[of "''t''" demo_events 0] e b by auto
  then show ?thesis using b by simp
qed

end
