(* ===== verification/FinishPreview.thy ===== *)
theory FinishPreview
  imports LedgerClaims
begin

text \<open>
  What the operator sees before a tournament is closed: \<open>getFinishPreview\<close> of
  \<open>store/session/session.service.ts\<close>, which computes the three ways to finish (complete, deal, abort) and
  the reasons that block each of them, against the three transactions of \<open>Ledger\<close> that carry them out.
  The reasons are the texts of \<open>finish-blockers.ts\<close> and \<open>completeBlocker\<close>, which the transactions refuse with too;
  here both are the values of \<open>ledger_error\<close>. Nicknames are an argument, and so are, as in
  \<open>Ledger\<close>, the live registration gate and the phase of the final table.
\<close>

section \<open>The preview\<close>

record finish_gate =
  canRun :: bool
  gateReason :: "ledger_error option"

record chop_row =
  rowUser :: string
  rowNickname :: "string option"
  rowPlace :: int
  rowAmount :: int
  rowStack :: int

record finish_preview =
  fpBuyin :: int
  fpRakePercent :: int
  fpRake :: int
  fpPool :: int
  fpPaid :: int
  fpRemaining :: int
  fpComplete :: finish_gate
  fpChop :: finish_gate
  fpChopRows :: "chop_row list"
  fpAbort :: finish_gate
  fpGroups :: "abort_group list"
  fpStoreAmount :: int
  fpScaled :: bool

definition chop_row_of :: "(string \<Rightarrow> string option) \<Rightarrow> chop_participant list \<Rightarrow> chop_award \<Rightarrow> chop_row" where
  "chop_row_of nick alive a =
     \<lparr>rowUser = chopUser a, rowNickname = nick (chopUser a), rowPlace = chopPlace a, rowAmount = chopAmount a,
      rowStack = (case List.find (\<lambda>p. cpUser p = chopUser a) alive of None \<Rightarrow> 0 | Some p \<Rightarrow> currentStack p)\<rparr>"

definition finish_preview_of :: "bool \<Rightarrow> bool \<Rightarrow> (string \<Rightarrow> string option) \<Rightarrow> tournament \<Rightarrow> finish_preview" where
  "finish_preview_of gateOpen waiting nick row =
     (let rake = rakeOf (tBuyin row) (tRakePercent row);
          prizePool = prizePoolOf (tBuyin row) (tRakePercent row);
          paidPrize = paid_prizes row;
          remainingPrize = max 0 (prizePool - paidPrize);
          closed = isClosedTournament (tStatus row);
          closedGate = \<lparr>canRun = False, gateReason = Some AlreadyClosed\<rparr>;
          completeReason = (if closed then Some AlreadyClosed
            else map_option CompleteBlocked (completeBlocker (tBuyin row) paidPrize rake));
          chopReason = (if closed then Some AlreadyClosed else chopBlocker gateOpen waiting row);
          alive = (if chopReason = None then alive_view row else []);
          chopRows = map (chop_row_of nick alive) (calculateChop alive remainingPrize);
          abortReason = (if closed then Some AlreadyClosed else if \<not> tStarted row then Some AbortNotStarted else None);
          settlement = calculateAbortSettlement (settlement_view row) (tEntryFee row) (tBuyin row)
      in \<lparr>fpBuyin = tBuyin row, fpRakePercent = tRakePercent row, fpRake = rake, fpPool = prizePool,
          fpPaid = paidPrize, fpRemaining = remainingPrize,
          fpComplete = (if closed then closedGate
            else \<lparr>canRun = (completeReason = None), gateReason = completeReason\<rparr>),
          fpChop = \<lparr>canRun = (chopReason = None \<and> 2 \<le> length chopRows),
            gateReason = (case chopReason of Some e \<Rightarrow> Some e
              | None \<Rightarrow> if 2 \<le> length chopRows then None else Some ChopTooFew)\<rparr>,
          fpChopRows = chopRows,
          fpAbort = \<lparr>canRun = (abortReason = None), gateReason = abortReason\<rparr>,
          fpGroups = groupAbortRefunds (settlement_view row) (refunds settlement),
          fpStoreAmount = storeAmount settlement, fpScaled = scaled settlement\<rparr>)"

definition getFinishPreview ::
  "bool \<Rightarrow> bool \<Rightarrow> (string \<Rightarrow> string option) \<Rightarrow> string \<Rightarrow> string \<Rightarrow> ledger \<Rightarrow> ledger_error + finish_preview" where
  "getFinishPreview gateOpen waiting nick t owner l =
     (case owned t owner l of
        Inl e \<Rightarrow> Inl e
      | Inr row \<Rightarrow> Inr (finish_preview_of gateOpen waiting nick row))"

section \<open>The preview and the transactions\<close>





lemma calculateChop_length [simp]: "length (calculateChop ps p) = length ps"
  by (simp add: calculateChop_def Let_def)





section \<open>What a deal pays\<close>
















section \<open>Properties\<close>



text \<open>Eight players, one place paid after another to players who sat down late: more prizes are out than the pool
  holds. The preview still offers the deal; pressed, it ranks the last two players without a prize, and only then is the
  completion refused, so the deal is committed, and neither a deal nor a completion can follow.\<close>

definition crowd_users :: "string list" where
  "crowd_users = [''O'', ''A'', ''B'', ''C'', ''D'', ''E'', ''F'', ''G'', ''H'']"

definition crowd_events :: "ledger_event list" where
  "crowd_events = EvCreate demo_dto ''O'' ''T'' ''X'' # concat (map demo_entry (tl crowd_users))
     @ [EvEnter False ''T'' ''X'' 0 ''A'', EvEnter False ''T'' ''X'' 1 ''B'', EvEnter False ''T'' ''X'' 2 ''C'',
        EvStart 2 True 0 ''T'' ''O'', demo_bust ''C'' 2]
     @ concat (map (\<lambda>u. [EvEnter False ''T'' ''X'' 2 u, demo_bust u 2]) [''D'', ''E'', ''F'', ''G'', ''H''])
     @ [EvStacks ''T'' [(''A'', 2000), (''B'', 6000)]]"

definition crowd_ledger :: ledger where
  "crowd_ledger = ledger_run demo_world (new_ledger crowd_users) crowd_events"

theorem overpaid_deal_strands:
  "(case getFinishPreview False True (\<lambda>_. None) ''T'' ''O'' crowd_ledger of
      Inl e \<Rightarrow> None | Inr v \<Rightarrow> Some (canRun (fpChop v), fpPool v, fpPaid v)) = Some (True, 800, 960)
   \<and> (case chopSession False True ''T'' ''O'' crowd_ledger of (r, l') \<Rightarrow>
       r = Inl (CompleteBlocked (PrizesOverpaid ''160''))
       \<and> map_option (\<lambda>row. map (\<lambda>p. (pUser p, pStatus p, pPlace p)) (take 2 (tParts row))) (tour ''T'' l')
           = Some [(''A'', ELIMINATED, Some 2), (''B'', ELIMINATED, Some 1)]
       \<and> fst (chopSession False True ''T'' ''O'' l') = Inl ChopTooFew)"
  by (intro conjI; code_simp)

end
