(* ===== verification/Spec2Isabelle.thy ===== *)
theory Spec2Isabelle
  imports EngineClaims PrizeProps SettlementProps BlindProps Outage Attempts LedgerTokens TableClaims
    RebuyClaims SeatMapProps TableLock SyncingProps RecoveryClaims GatewayClaims
    SyncQueueProps SeatClientProps DealerClientProps TableSocketProps WireTableProps FinishPreview
begin

text \<open>
  PlaySync runs poker tournaments: a NestJS server (\<open>backend/src\<close>) with a Postgres database, Redis snapshots of
  the tables, timeout jobs and WebSocket clients, and tablets at the seats and in front of the dealers (\<open>frontend/src\<close>).
  This library models the logic of the server and of the tablets.

  The parts and their theories:
  \<^item> the table engine (\<open>game-engine/table-engine.ts\<close>): \<open>GameTypes\<close>, \<open>TableEngine\<close>; chips, rounds and
    progress are proved in \<open>EngineChips\<close>, \<open>EngineRounds\<close>, \<open>EngineProgress\<close>, \<open>EngineProps\<close>, \<open>EngineContest\<close>,
    the properties in \<open>EngineClaims\<close>.
  \<^item> prizes and payout tables (\<open>playsync/prize.ts\<close>, \<open>payout-table.ts\<close>): \<open>Prize\<close>, \<open>PrizeProps\<close>; the floor
    divisions of JavaScript numbers are in \<open>JsNumber\<close>.
  \<^item> settlement (\<open>store/session/settlement.ts\<close>): \<open>Settlement\<close>, \<open>SettlementProps\<close>.
  \<^item> the blind clock, registration and the board (\<open>shared/util\<close>, \<open>registration.ts\<close>, \<open>tournament-meta.ts\<close>):
    \<open>Blinds\<close>, \<open>BlindProps\<close>.
  \<^item> Redis outages, mirrored writes, line pauses (\<open>redis/\<close>): \<open>Outage\<close>.
  \<^item> attempts, retries, batches, sockets (\<open>dealer/otp-attempts.ts\<close>, \<open>common/\<close>, \<open>ws/\<close>): \<open>Attempts\<close>.
  \<^item> one table as the services run it: snapshot, turn clock, timeout queue, pauses (\<open>playsync.service.ts\<close>,
    \<open>timeout.processor.ts\<close>, \<open>turn-clock.ts\<close>, \<open>dealer.service.ts\<close>, \<open>recovery.service.ts\<close>): \<open>TablePlay\<close>;
    \<open>TablePlayProps\<close> and \<open>TableService\<close> show that every step keeps the invariant, \<open>TableClaims\<close> holds the properties.
  \<^item> the database: points, participations, tournaments and seats (\<open>payment/\<close>, \<open>user/\<close>, \<open>playsync.service.ts\<close>,
    \<open>session.service.ts\<close>, \<open>entry.service.ts\<close>, \<open>dealer.service.ts\<close>): \<open>Ledger\<close>, \<open>Tournaments\<close>, with the events in
    \<open>LedgerRun\<close>; \<open>LedgerProps\<close>, \<open>LedgerSteps\<close>, \<open>LedgerMoney\<close> and \<open>LedgerClose\<close> show that every event keeps the
    books, \<open>LedgerClaims\<close> and \<open>LedgerTokens\<close> hold the properties; \<open>FinishPreview\<close> compares what the operator is shown before
    a closing (\<open>getFinishPreview\<close>) with what the closing does.
  \<^item> rebuys, which join table and database (\<open>processRebuy\<close> of \<open>playsync.service.ts\<close>, \<open>askRebuys\<close> of
    \<open>dealer.service.ts\<close>): \<open>Rebuy\<close>, \<open>RebuyProps\<close>, \<open>RebuyClaims\<close>. The attempts of the database, the end of the
    write of the snapshot and the player's answer are arguments.
  \<^item> the Redis store (\<open>redis/redis.service.ts\<close>): the seat map and its Lua scripts in \<open>SeatMap\<close>, \<open>SeatMapProps\<close>, where the
    operations on the snapshot and their mirrored writes are shown to agree; the lock of a table under any interleaving of its
    callers in \<open>TableLock\<close>, which is what lets \<open>TablePlay\<close> take a critical section as one step.
  \<^item> pauses of a tournament and their end (\<open>recovery.service.ts\<close>, \<open>redis.service.ts\<close>, \<open>ws/ws.gateway.ts\<close>): \<open>Syncing\<close>, with
    the refinement of a stopwatch in \<open>SyncingProps\<close>.
  \<^item> recovery at boot and after an outage (\<open>recovery.service.ts\<close>): \<open>Recovery\<close> joins row, board, participations, seat rows, snapshots
    and seat map of a tournament; \<open>RecoveryProps\<close>, \<open>RecoveryClaims\<close> show that boot restores every table and stops every hand.
  \<^item> sockets (\<open>ws/ws.gateway.ts\<close>, \<open>ws/ws-ticket.service.ts\<close>): tickets, the steps of a connection, rooms, the closing of sockets whose
    token was revoked, the gates of the commands in \<open>Gateway\<close>; the messages (\<open>packages/contract\<close>) in \<open>Contract\<close>,
    the snapshot as it is sent (\<open>table-state.ts\<close>, \<open>toWireState\<close>) in \<open>WireTable\<close>, which \<open>WireTableProps\<close> shows to accept every
    reachable table. \<open>GatewayProps\<close>
    keeps an invariant over every interleaving of connections with the transactions of \<open>Tournaments\<close>, \<open>GatewayClaims\<close> holds the properties.

  \<^item> the line of recounts of a tournament and the count of its devices (\<open>ws/sync-queue.ts\<close>, \<open>ws/sync-progress.ts\<close>): \<open>SyncQueue\<close>, with
    the order and the end of every line in \<open>SyncQueueProps\<close>.
  \<^item> the tablets (\<open>frontend/src\<close>): the seat's buttons, slider and overlays (\<open>SeatActionPanel.tsx\<close>, \<open>SeatGameClient.tsx\<close>) in \<open>SeatClient\<close>,
    compared with engine and schema in \<open>SeatClientProps\<close>; the dealer's console (\<open>DealerGameClient.tsx\<close>, \<open>WinnerOverlay.tsx\<close>) in
    \<open>DealerClient\<close>, \<open>DealerClientProps\<close>; their socket (\<open>lib/use-table-socket.ts\<close>, \<open>reconnect-policy.ts\<close>) in \<open>TableSocket\<close>,
    \<open>TableSocketProps\<close>.

  Interfaces are locales (machines with an invariant, a store of seats, a lock), each interpreted on the definitions of the model.

  Not modelled: formatting of messages; controllers, modules and decorators; the views of console and board, texts and layout; load and
  demo scripts; bcrypt, JWT, Prisma, Redis and the job queue themselves, whose documented effects the definitions state; expiry of
  Redis keys other than locks and counters. Numbers are JavaScript doubles where the code divides (\<open>JsNumber\<close>, up to 2^53) and
  32-bit columns where the database stores them (\<open>int32\<close>). Retries take their number of attempts as an argument; the other
  loops end by a measure.
\<close>

end
